(* ===== verification/Prelude.thy ===== *)
theory Prelude
  imports Main "HOL-Library.Word"
begin

text \<open>
  Shared vocabulary of the development: names for the machine types the code uses, Go's error
  values, durations and instants, big-endian byte strings (the part of \<^verbatim>\<open>encoding/binary\<close>
  the wire formats rely on), and transition systems with an inductive invariant, the interface
  behind every reachability property of the concurrent components.
\<close>

unbundle bit_operations_syntax

named_theorems time_consts \<open>durations and special instants as numbers\<close>
named_theorems wire_simps \<open>equations that compute encodings\<close>

subsection \<open>Machine types\<close>

type_synonym byte = "8 word"
type_synonym bytes = "byte list"
type_synonym u16 = "16 word"
type_synonym u32 = "32 word"
type_synonym u64 = "64 word"

text \<open>
  A \<^verbatim>\<open>time.Duration\<close> counts nanoseconds; an instant is the number of nanoseconds since the Unix
  epoch. Both are mathematical integers here: the code bounds every duration it computes with
  (theorem \<open>poolOptions_exact\<close> shows that the only product of an untrusted number stays within 64 bits).
\<close>

type_synonym duration = int
type_synonym instant = int

definition millisecond :: duration where "millisecond = 1000000"
definition second :: duration where "second = 1000 * millisecond"
definition minute :: duration where "minute = 60 * second"
definition hour :: duration where "hour = 60 * minute"

lemmas [time_consts] = millisecond_def second_def minute_def hour_def

subsection \<open>Errors\<close>

text \<open>
  Go's error values: the sentinels of the standard library the code compares with, an error
  made by \<^verbatim>\<open>errors.New\<close> with its message, and an error wrapped by \<^verbatim>\<open>fmt.Errorf(\"...: %w\", e)\<close>
  with the text before it. \<open>NetErr k\<close> is any other failure reported by the network, told apart
  by a number.
\<close>

datatype error =
    EOF
  | UnexpectedEOF
  | ErrShortWrite
  | DeadlineExceeded
  | Canceled
  | ENOTCONN
  | NetErr nat
  | Errmsg string
  | Wrap string error

fun errors_Is :: "error \<Rightarrow> error \<Rightarrow> bool" where
  "errors_Is (Wrap s e) t = (Wrap s e = t \<or> errors_Is e t)"
| "errors_Is e t = (e = t)"

lemma errors_Is_refl [simp]: "errors_Is e e"
  by (cases e) auto

subsection \<open>Big-endian byte strings\<close>

text \<open>
  \<open>put_be n x\<close> is what \<^verbatim>\<open>binary.BigEndian.PutUint16/32/64\<close> stores for \<open>n\<close> = 2, 4, 8, and
  \<open>get_be\<close> what \<^verbatim>\<open>Uint16/32/64\<close> read back: most significant byte first.
\<close>

fun put_be :: "nat \<Rightarrow> 'a::len word \<Rightarrow> bytes" where
  "put_be 0 x = []"
| "put_be (Suc n) x = ucast (drop_bit (8 * n) x) # put_be n x"

definition shift_in :: "'a::len word \<Rightarrow> byte \<Rightarrow> 'a word" where
  "shift_in a b = push_bit 8 a OR ucast b"

definition get_be :: "bytes \<Rightarrow> 'a::len word" where
  "get_be bs = foldl shift_in 0 bs"

lemma length_put_be [simp]: "length (put_be n x) = n"
  by (induction n) auto

lemma foldl_shift_in:
  "foldl shift_in a bs = push_bit (8 * length bs) a OR foldl shift_in 0 bs"
proof (induction bs arbitrary: a)
  case (Cons b bs)
  have "foldl shift_in a (b # bs) = push_bit (8 * length bs) (shift_in a b) OR foldl shift_in 0 bs"
    by (simp add: Cons [of "shift_in a b"])
  also have "\<dots> = push_bit (8 * length (b # bs)) a
      OR (push_bit (8 * length bs) (shift_in 0 b) OR foldl shift_in 0 bs)"
    by (rule bit_word_eqI) (auto simp: shift_in_def bit_simps ac_simps)
  also have "\<dots> = push_bit (8 * length (b # bs)) a OR foldl shift_in 0 (b # bs)"
    by (simp add: Cons [of "shift_in 0 b"])
  finally show ?case .
qed simp

lemma get_be_Cons: "get_be (b # bs) = push_bit (8 * length bs) (shift_in 0 b) OR get_be bs"
  by (simp add: get_be_def foldl_shift_in [of "shift_in 0 b"])

lemma bit_get_be:
  fixes bs :: bytes
  shows "bit (get_be bs :: 'a::len word) k \<Longrightarrow> k < 8 * length bs"
proof (induction bs)
  case (Cons b bs)
  then show ?case
    by (auto simp: get_be_Cons shift_in_def bit_simps dest: bit_imp_le_length)
qed (simp add: get_be_def)

lemma get_put_be: "get_be (put_be n x) = take_bit (8 * n) x"
proof (induction n)
  case (Suc n)
  have "get_be (put_be (Suc n) x)
      = push_bit (8 * n) (shift_in 0 (ucast (drop_bit (8 * n) x))) OR take_bit (8 * n) x"
    by (simp add: get_be_Cons Suc)
  also have "\<dots> = take_bit (8 * Suc n) x"
    by (rule bit_word_eqI) (auto simp: shift_in_def bit_simps ac_simps)
  finally show ?case .
qed (simp add: get_be_def)

lemma get_put_be_16 [wire_simps]: "get_be (put_be 2 (x :: u16)) = x"
  and get_put_be_32 [wire_simps]: "get_be (put_be 4 (y :: u32)) = y"
  and get_put_be_64 [wire_simps]: "get_be (put_be 8 (z :: u64)) = z"
  by (simp_all add: get_put_be take_bit_word_eq_self)

lemma put_be_cong:
  "take_bit (8 * n) x = take_bit (8 * n) y \<Longrightarrow> put_be n x = put_be n y"
proof (induction n)
  case (Suc n)
  have b: "bit x k = bit y k" if "k < 8 + 8 * n" for k
    using Suc.prems that by (metis bit_take_bit_iff mult_Suc_right)
  have "take_bit (8 * n) x = take_bit (8 * n) y"
    using b by (intro bit_word_eqI) (auto simp: bit_simps)
  moreover have "ucast (drop_bit (8 * n) x) = (ucast (drop_bit (8 * n) y) :: byte)"
    using b by (intro bit_word_eqI) (auto simp: bit_simps)
  ultimately show ?case using Suc.IH by simp
qed simp

lemma put_get_be:
  assumes "8 * length bs \<le> LENGTH('a)"
  shows "put_be (length bs) (get_be bs :: 'a::len word) = bs"
  using assms
proof (induction bs)
  case (Cons b bs)
  have 1: "put_be (length bs) (get_be (b # bs) :: 'a word) = put_be (length bs) (get_be bs :: 'a word)"
    by (intro put_be_cong bit_word_eqI) (auto simp: get_be_Cons shift_in_def bit_simps)
  have 2: "ucast (drop_bit (8 * length bs) (get_be (b # bs) :: 'a word)) = b"
    using Cons.prems
    by (intro bit_word_eqI) (auto simp: get_be_Cons shift_in_def bit_simps dest: bit_get_be)
  show ?case using Cons 1 2 by simp
qed simp

subsection \<open>Transition systems\<close>

text \<open>
  \<open>reach start step\<close> holds of the states a system can get to. The locale states what an
  inductive invariant promises; its lemmas lift the invariant to every reachable state and to
  every state of a run.
\<close>

inductive reach :: "('s \<Rightarrow> bool) \<Rightarrow> ('s \<Rightarrow> 's \<Rightarrow> bool) \<Rightarrow> 's \<Rightarrow> bool"
  for start :: "'s \<Rightarrow> bool" and step :: "'s \<Rightarrow> 's \<Rightarrow> bool" where
  reach_start: "start s \<Longrightarrow> reach start step s"
| reach_step: "reach start step s \<Longrightarrow> step s t \<Longrightarrow> reach start step t"

locale inv_system =
  fixes start :: "'s \<Rightarrow> bool"
    and step :: "'s \<Rightarrow> 's \<Rightarrow> bool"
    and inv :: "'s \<Rightarrow> bool"
  assumes inv_start: "start s \<Longrightarrow> inv s"
    and inv_step: "inv s \<Longrightarrow> step s t \<Longrightarrow> inv t"
begin

lemma inv_reach: "reach start step s \<Longrightarrow> inv s"
  by (induction rule: reach.induct) (auto intro: inv_start inv_step)

lemma inv_steps: "step\<^sup>*\<^sup>* s t \<Longrightarrow> inv s \<Longrightarrow> inv t"
  by (induction rule: rtranclp_induct) (auto intro: inv_step)

end

lemma reach_steps: "step\<^sup>*\<^sup>* s t \<Longrightarrow> reach start step s \<Longrightarrow> reach start step t"
  by (induction rule: rtranclp_induct) (auto intro: reach_step)

end
