(* ===== verification/Net_IO.thy ===== *)
theory Net_IO
  imports Prelude
begin

text \<open>
  Byte streams. The first half states what the code relies on of \<^verbatim>\<open>io.Reader\<close> and
  \<^verbatim>\<open>io.Writer\<close> as locales, models the loops that run over them (\<^verbatim>\<open>io.ReadFull\<close>, and the
  two copies \<^verbatim>\<open>writeFull\<close> and \<^verbatim>\<open>fullWrite\<close> of the write loop) and proves their lemmas once.
  The second half models a network connection: a receive queue of segments as they arrived, and
  a send side whose writes may fail after a prefix, according to an arbitrary plan.
\<close>

subsection \<open>The reader interface and io.ReadFull\<close>

type_synonym 's reader = "'s \<Rightarrow> nat \<Rightarrow> 's \<times> bytes \<times> error option"
type_synonym 's writer = "'s \<Rightarrow> bytes \<Rightarrow> 's \<times> nat \<times> error option"

text \<open>
  \<open>rd s n\<close> is \<^verbatim>\<open>Read(p)\<close> with \<open>length p = n\<close>: the bytes stored in \<open>p\<close> and the error. The laws
  say that a reader hands out a fixed byte sequence (\<open>content\<close>) in order, makes progress, and
  reports \<open>ending\<close> once the sequence is used up.
\<close>

locale byte_reader =
  fixes rd :: "'s reader"
    and content :: "'s \<Rightarrow> bytes"
    and ending :: "'s \<Rightarrow> error"
  assumes rd_ok: "rd s n = (s', bs, None) \<Longrightarrow>
      content s = bs @ content s' \<and> length bs \<le> n \<and> ending s' = ending s"
    and rd_progress: "rd s n = (s', bs, None) \<Longrightarrow> 0 < n \<Longrightarrow> bs \<noteq> []"
    and rd_err: "rd s n = (s', bs, Some x) \<Longrightarrow>
      bs = [] \<and> content s = [] \<and> x = ending s \<and> content s' = []"

text \<open>
  \<^verbatim>\<open>io.ReadFull(r, buf)\<close> with \<open>length buf = n\<close>; \<open>got\<close> is what has been read so far.
  \<open>None\<close> is "does not return": a reader that keeps returning no byte and no error.
\<close>

partial_function (option) read_full ::
    "'s reader \<Rightarrow> 's \<Rightarrow> nat \<Rightarrow> bytes \<Rightarrow> ('s \<times> bytes \<times> error option) option" where
  "read_full rd s n got =
     (if n \<le> length got then Some (s, got, None)
      else case rd s (n - length got) of (s', bs, e) \<Rightarrow>
        (case e of
           None \<Rightarrow> read_full rd s' n (got @ bs)
         | Some x \<Rightarrow> Some (s', got @ bs,
             if n \<le> length (got @ bs) then None
             else if x = EOF \<and> got @ bs \<noteq> [] then Some UnexpectedEOF else Some x)))"

declare read_full.simps [code]

text \<open>What reading \<open>n\<close> bytes off a sequence \<open>c\<close> that ends with error \<open>e\<close> amounts to.\<close>

definition short_error :: "bytes \<Rightarrow> error \<Rightarrow> error" where
  "short_error c e = (if e = EOF \<and> c \<noteq> [] then UnexpectedEOF else e)"

context byte_reader
begin

lemma read_full_acc:
  assumes "length got \<le> n"
  shows "n \<le> length (got @ content s) \<Longrightarrow>
      \<exists>s'. read_full rd s n got = Some (s', take n (got @ content s), None)
        \<and> content s' = drop (n - length got) (content s) \<and> ending s' = ending s"
    and "length (got @ content s) < n \<Longrightarrow>
      \<exists>s'. read_full rd s n got
          = Some (s', got @ content s, Some (short_error (got @ content s) (ending s)))
        \<and> content s' = []"
  using assms
proof (induction "n - length got" arbitrary: got s rule: less_induct)
  case less
  {
    case 1
    show ?case
    proof (cases "n \<le> length got")
      case True
      with 1 show ?thesis by (subst read_full.simps) simp
    next
      case False
      obtain s' bs e where r: "rd s (n - length got) = (s', bs, e)"
        by (cases "rd s (n - length got)") auto
      show ?thesis
      proof (cases e)
        case None
        with r have c: "content s = bs @ content s'" "length bs \<le> n - length got"
          "ending s' = ending s" and ne: "bs \<noteq> []"
          using rd_ok rd_progress False by auto
        have "n - length (got @ bs) < n - length got"
          using ne c(2) False by (cases bs) auto
        from less.hyps(1) [OF this, of s'] 1 c False r None show ?thesis
          by (subst read_full.simps) auto
      next
        case (Some x)
        with r rd_err [of s "n - length got" s' bs x] 1 False show ?thesis by auto
      qed
    qed
  next
    case 2
    then have lt: "\<not> n \<le> length got" by simp
    obtain s' bs e where r: "rd s (n - length got) = (s', bs, e)"
      by (cases "rd s (n - length got)") auto
    show ?case
    proof (cases e)
      case None
      with r have c: "content s = bs @ content s'" "length bs \<le> n - length got"
        "ending s' = ending s" and ne: "bs \<noteq> []"
        using rd_ok rd_progress lt by auto
      have "n - length (got @ bs) < n - length got"
        using ne c(2) lt by (cases bs) auto
      from less.hyps(2) [OF this, of s'] 2 c lt r None show ?thesis
        by (subst read_full.simps) auto
    next
      case (Some x)
      with r rd_err [of s "n - length got" s' bs x] lt show ?thesis
        by (subst read_full.simps) (auto simp: short_error_def)
    qed
  }
qed

text \<open>Reading succeeds exactly when enough bytes are left, whatever the sizes of the reads.\<close>

lemma read_full_some:
  assumes "n \<le> length (content s)"
  obtains s' where "read_full rd s n [] = Some (s', take n (content s), None)"
    and "content s' = drop n (content s)" and "ending s' = ending s"
  using read_full_acc(1) [of "[]" n s] assms by auto

lemma read_full_short:
  assumes "length (content s) < n"
  obtains s' where
    "read_full rd s n [] = Some (s', content s, Some (short_error (content s) (ending s)))"
    and "content s' = []"
  using read_full_acc(2) [of "[]" n s] assms by auto

lemma read_full_exact:
  assumes "read_full rd s n [] = Some (s', bs, None)"
  shows "length bs = n \<and> content s = bs @ content s' \<and> ending s' = ending s"
proof (cases "n \<le> length (content s)")
  case True
  then show ?thesis by (rule read_full_some) (use assms True in auto)
next
  case False
  then have "length (content s) < n" by simp
  then show ?thesis by (rule read_full_short) (use assms in auto)
qed

lemma read_full_returns: "\<exists>r. read_full rd s n [] = Some r"
  by (cases "n \<le> length (content s)")
    (metis read_full_some, metis read_full_short leI)

end

subsection \<open>The writer interface and the write loop\<close>

text \<open>
  \<open>wr s b\<close> is \<^verbatim>\<open>Write(b)\<close>: the number of bytes taken and the error. \<open>io_writer\<close> is the contract
  of \<^verbatim>\<open>io.Writer\<close>; a \<open>byte_sink\<close> also says where the bytes went: \<open>acc\<close> is all it accepted.
\<close>

locale io_writer =
  fixes wr :: "'s writer"
  assumes wr_le: "wr s b = (s', n, e) \<Longrightarrow> n \<le> length b"
    and wr_short: "wr s b = (s', n, e) \<Longrightarrow> n < length b \<Longrightarrow> e \<noteq> None"

locale byte_sink = io_writer +
  fixes acc :: "'s \<Rightarrow> bytes"
  assumes wr_acc: "wr s b = (s', n, e) \<Longrightarrow> acc s' = acc s @ take n b"

text \<open>
  \<^verbatim>\<open>writeFull\<close> of \<^verbatim>\<open>protocol/frame.go\<close> and \<^verbatim>\<open>fullWrite\<close> of \<^verbatim>\<open>transport/noise.go\<close>, which are
  the same loop. A writer that takes nothing and reports nothing ends it with
  \<^verbatim>\<open>io.ErrShortWrite\<close>, so the loop always terminates.
\<close>

function write_full :: "'s writer \<Rightarrow> 's \<Rightarrow> bytes \<Rightarrow> 's \<times> error option" where
  "write_full wr s b =
     (if b = [] then (s, None)
      else case wr s b of (s', n, e) \<Rightarrow>
        (let b' = (if n > 0 then drop n b else b)
         in case e of
              Some x \<Rightarrow> (s', Some x)
            | None \<Rightarrow> if n = 0 then (s', Some ErrShortWrite) else write_full wr s' b'))"
  by pat_completeness auto
termination
  by (relation "measure (\<lambda>(wr, s, b). length b)") (auto split: if_splits)

declare write_full.simps [simp del]

lemma write_full_Nil [simp]: "write_full wr s [] = (s, None)"
  by (simp add: write_full.simps)

context io_writer
begin

lemma write_full_once: "b \<noteq> [] \<Longrightarrow> write_full wr s b = (case wr s b of (s', n, e) \<Rightarrow> (s', e))"
  using wr_le [of s b] wr_short [of s b]
  by (subst write_full.simps)
    (fastforce split: prod.splits option.splits simp: Let_def linorder_not_less)

end

context byte_sink
begin

text \<open>The loop returns no error exactly when every byte was accepted.\<close>

lemma write_full_acc:
  assumes "write_full wr s b = (s', e)"
  obtains k where "k \<le> length b" and "acc s' = acc s @ take k b" and "e = None \<longrightarrow> k = length b"
proof (cases "b = []")
  case True
  with assms that [of 0] show ?thesis by simp
next
  case False
  obtain s1 n x where r: "wr s b = (s1, n, x)"
    by (cases "wr s b") auto
  with False assms have "s' = s1" "e = x"
    by (auto simp: write_full_once)
  with that [of n] r wr_le [OF r] wr_acc [OF r] wr_short [OF r] show ?thesis
    by (cases "n < length b") auto
qed

lemma write_full_ok: "write_full wr s b = (s', None) \<Longrightarrow> acc s' = acc s @ b"
  by (erule write_full_acc) auto

end

text \<open>
  A sender in general: \<open>sends s s' p\<close> says that between \<open>s\<close> and \<open>s'\<close> exactly the bytes \<open>p\<close> went to
  the peer, in whatever form. What is built from successful writes composes. A byte sink is one;
  an encrypted connection is another, whose bytes are not those on the wire.
\<close>

locale sender =
  fixes wr :: "'s writer"
    and sends :: "'s \<Rightarrow> 's \<Rightarrow> bytes \<Rightarrow> bool"
  assumes sends_Nil: "sends s s []"
    and sends_append: "sends s s1 p \<Longrightarrow> sends s1 s2 q \<Longrightarrow> sends s s2 (p @ q)"
    and write_full_sends: "write_full wr s b = (s', None) \<Longrightarrow> sends s s' b"

sublocale byte_sink \<subseteq> sends: sender wr "\<lambda>s s' p. acc s' = acc s @ p"
  by unfold_locales (simp_all add: write_full_ok)

subsection \<open>A network connection\<close>

text \<open>
  \<open>rx\<close> are the segments that arrive, in order; \<open>rx_end\<close> is what a read reports after them
  (\<^verbatim>\<open>io.EOF\<close> after an orderly close, a timeout or reset otherwise). \<open>tx\<close> is what was handed to
  the network. \<open>tx_plan\<close> says how the next writes fare: \<open>None\<close> takes everything,
  \<open>Some (k, e)\<close> takes at most \<open>k\<close> bytes and reports \<open>e\<close>; after the plan, writes succeed.
\<close>

record net_conn =
  rx :: "bytes list"
  rx_end :: error
  tx :: bytes
  tx_plan :: "(nat \<times> error) option list"
  shut :: bool

definition ErrClosed :: error where "ErrClosed = NetErr 0"

definition net_read :: "net_conn reader" where
  "net_read c n =
     (if n = 0 then (c, [], None)
      else if shut c then (c, [], Some ErrClosed)
      else case dropWhile (\<lambda>s. s = []) (rx c) of
             [] \<Rightarrow> (c\<lparr>rx := []\<rparr>, [], Some (rx_end c))
           | s # ss \<Rightarrow> (c\<lparr>rx := drop n s # ss\<rparr>, take n s, None))"

definition net_write :: "net_conn writer" where
  "net_write c b =
     (if shut c then (c, 0, Some ErrClosed)
      else case tx_plan c of
             Some (k, e) # ps \<Rightarrow>
               (c\<lparr>tx := tx c @ take k b, tx_plan := ps\<rparr>, min k (length b), Some e)
           | ps \<Rightarrow> (c\<lparr>tx := tx c @ b, tx_plan := tl ps\<rparr>, length b, None))"

definition net_close :: "net_conn \<Rightarrow> net_conn" where
  "net_close c = c\<lparr>shut := True\<rparr>"

definition net_content :: "net_conn \<Rightarrow> bytes" where
  "net_content c = (if shut c then [] else concat (rx c))"

definition net_ending :: "net_conn \<Rightarrow> error" where
  "net_ending c = (if shut c then ErrClosed else rx_end c)"

lemma concat_dropWhile_Nil: "concat (dropWhile (\<lambda>s. s = []) ss) = concat ss"
  by (induction ss) auto

lemma dropWhile_Nil_hd: "dropWhile (\<lambda>s. s = []) ss = t # ts \<Longrightarrow> t \<noteq> []"
  using hd_dropWhile [of "\<lambda>s. s = []" ss] by auto

lemma concat_dropWhile_Cons: "dropWhile (\<lambda>s. s = []) ss = t # ts \<Longrightarrow> concat ss = t @ concat ts"
  by (metis concat.simps(2) concat_dropWhile_Nil)

lemma concat_all_Nil: "dropWhile (\<lambda>s. s = []) ss = [] \<Longrightarrow> concat ss = []"
  by (metis concat.simps(1) concat_dropWhile_Nil)

interpretation net_rd: byte_reader net_read net_content net_ending
proof
  fix s n s' bs
  assume r: "net_read s n = (s', bs, None)"
  then show "net_content s = bs @ net_content s' \<and> length bs \<le> n \<and> net_ending s' = net_ending s"
    by (cases "shut s")
      (auto simp: net_read_def net_content_def net_ending_def concat_dropWhile_Cons
        simp flip: append_assoc split: if_splits list.splits)
  assume "0 < n"
  with r show "bs \<noteq> []"
    by (auto simp: net_read_def dest: dropWhile_Nil_hd split: if_splits list.splits)
next
  fix s n s' bs x
  assume "net_read s n = (s', bs, Some x)"
  then show "bs = [] \<and> net_content s = [] \<and> x = net_ending s \<and> net_content s' = []"
    by (cases "shut s")
      (auto simp: net_read_def net_content_def net_ending_def dest: concat_all_Nil
        split: if_splits list.splits)
qed

interpretation net_wr: byte_sink net_write tx
  by unfold_locales
    (auto simp: net_write_def min_def split: if_splits list.splits option.splits)

text \<open>Reads leave the send side alone, and writes the receive side.\<close>

lemma net_read_tx: "net_read s n = (s', bs, e) \<Longrightarrow> tx s' = tx s"
  by (auto simp: net_read_def split: if_splits list.splits)

lemma read_full_tx: "read_full net_read s n got = Some (s', bs, e) \<Longrightarrow> tx s' = tx s"
proof (induction "n - length got" arbitrary: s got rule: less_induct)
  case less
  show ?case
  proof (cases "n \<le> length got")
    case True
    with less.prems show ?thesis by (subst (asm) read_full.simps) simp
  next
    case False
    obtain s1 b x where r: "net_read s (n - length got) = (s1, b, x)"
      by (cases "net_read s (n - length got)") auto
    show ?thesis
    proof (cases x)
      case None
      with r False have "b \<noteq> []" using net_rd.rd_progress by auto
      then have "n - length (got @ b) < n - length got" using False by (cases b) auto
      moreover have "read_full net_read s1 n (got @ b) = Some (s', bs, e)"
        using less.prems r False None by (subst (asm) read_full.simps) simp
      ultimately show ?thesis using less.hyps net_read_tx [OF r] by fastforce
    next
      case (Some y)
      with less.prems r False net_read_tx [OF r] show ?thesis
        by (subst (asm) read_full.simps) simp
    qed
  qed
qed

lemma write_full_rx:
  assumes "write_full net_write s b = (s', e)"
  shows "net_content s' = net_content s \<and> net_ending s' = net_ending s"
proof (cases "b = []")
  case True
  with assms show ?thesis by simp
next
  case False
  with assms obtain n where "net_write s b = (s', n, e)"
    using net_wr.write_full_once [of b s] by (cases "net_write s b") auto
  then show ?thesis
    by (auto simp: net_write_def net_content_def net_ending_def split: if_splits list.splits option.splits)
qed

text \<open>A connection without a plan takes everything.\<close>

lemma write_full_clean:
  "tx_plan s = [] \<Longrightarrow> \<not> shut s \<Longrightarrow> write_full net_write s b = (s\<lparr>tx := tx s @ b\<rparr>, None)"
  by (cases "b = []") (simp_all add: net_wr.write_full_once net_write_def)

end
