(* ===== verification/Protocol.thy ===== *)
theory Protocol
  imports Net_IO
begin

text \<open>
  The tunnel protocol of \<^verbatim>\<open>internal/protocol/frame.go\<close>: frame types, the length rules of
  \<open>valid\<close>, \<open>ReadFrame\<close> and \<open>WriteFrame\<close> over a byte stream, the HELLO payload and \<open>DecodeJSON\<close>.
  The locale \<open>prefix_codec\<close> is the interface of a self-delimiting wire format (frames here, the
  packets of the noise transport later); its lemmas give unique decoding of whole streams.
\<close>

subsection \<open>Self-delimiting formats\<close>

text \<open>
  \<open>dec\<close> reads one message off the front of a byte string and returns the rest. The guard on the
  rest in \<open>decode_all\<close> always holds for a codec, whose messages are never empty.
\<close>

function decode_all :: "(bytes \<Rightarrow> error + ('m \<times> bytes)) \<Rightarrow> bytes \<Rightarrow> 'm list \<times> error" where
  "decode_all dec bs =
     (case dec bs of
        Inl e \<Rightarrow> ([], e)
      | Inr (m, rest) \<Rightarrow>
          if length rest < length bs
          then (case decode_all dec rest of (ms, e) \<Rightarrow> (m # ms, e))
          else ([m], EOF))"
  by pat_completeness auto
termination
  by (relation "measure (\<lambda>(dec, bs). length bs)") auto

declare decode_all.simps [simp del]

locale prefix_codec =
  fixes ok :: "'m \<Rightarrow> bool"
    and enc :: "'m \<Rightarrow> bytes"
    and dec :: "bytes \<Rightarrow> error + ('m \<times> bytes)"
  assumes dec_enc: "ok m \<Longrightarrow> dec (enc m @ rest) = Inr (m, rest)"
    and dec_sound: "dec bs = Inr (m, rest) \<Longrightarrow> ok m \<and> bs = enc m @ rest"
    and enc_nonempty: "ok m \<Longrightarrow> enc m \<noteq> []"
begin

lemma enc_prefix_free: "ok m \<Longrightarrow> ok m' \<Longrightarrow> enc m @ r = enc m' @ r' \<Longrightarrow> m = m' \<and> r = r'"
  by (metis Pair_inject dec_enc sum.inject(2))

lemma decode_all_Inl: "dec bs = Inl e \<Longrightarrow> decode_all dec bs = ([], e)"
  by (subst decode_all.simps) simp

lemma decode_all_Cons:
  assumes "ok m"
  shows "decode_all dec (enc m @ rest)
    = (m # fst (decode_all dec rest), snd (decode_all dec rest))"
  using assms enc_nonempty [of m]
  by (subst decode_all.simps) (simp add: dec_enc split_beta)

lemma decode_all_encs:
  "\<forall>m \<in> set ms. ok m \<Longrightarrow> decode_all dec (concat (map enc ms) @ rest)
    = (ms @ fst (decode_all dec rest), snd (decode_all dec rest))"
  by (induction ms) (simp_all add: decode_all_Cons)

lemma enc_stream_inj:
  assumes "\<forall>m \<in> set ms. ok m" and "\<forall>m \<in> set ms'. ok m"
    and "concat (map enc ms) = concat (map enc ms')"
  shows "ms = ms'"
proof -
  have "ms @ fst (decode_all dec []) = ms' @ fst (decode_all dec [])"
    using decode_all_encs [OF assms(1), of "[]"] decode_all_encs [OF assms(2), of "[]"] assms(3)
    by simp
  then show ?thesis by simp
qed

text \<open>Whatever arrives, what is decoded is a sequence of well-formed messages at its front.\<close>

lemma decode_all_sound:
  "\<exists>rest. bs = concat (map enc (fst (decode_all dec bs))) @ rest
    \<and> dec rest = Inl (snd (decode_all dec bs)) \<and> (\<forall>m \<in> set (fst (decode_all dec bs)). ok m)"
proof (induction "length bs" arbitrary: bs rule: less_induct)
  case less
  show ?case
  proof (cases "dec bs")
    case (Inl e)
    then show ?thesis by (simp add: decode_all_Inl)
  next
    case (Inr a)
    then obtain m r where d: "dec bs = Inr (m, r)" by (cases a) auto
    with dec_sound have ok: "ok m" and bs: "bs = enc m @ r" by auto
    then have "length r < length bs" using enc_nonempty [of m] by simp
    with less obtain rest where "r = concat (map enc (fst (decode_all dec r))) @ rest"
      "dec rest = Inl (snd (decode_all dec r))" "\<forall>m \<in> set (fst (decode_all dec r)). ok m"
      by blast
    with ok bs show ?thesis by (auto simp: decode_all_Cons)
  qed
qed

end

subsection \<open>Frames\<close>

abbreviation HELLO :: byte where "HELLO \<equiv> 1"
abbreviation HELLO_OK :: byte where "HELLO_OK \<equiv> 2"
abbreviation HELLO_ERR :: byte where "HELLO_ERR \<equiv> 3"
abbreviation READY :: byte where "READY \<equiv> 4"
abbreviation OPEN :: byte where "OPEN \<equiv> 5"
abbreviation OPEN_OK :: byte where "OPEN_OK \<equiv> 6"
abbreviation OPEN_ERR :: byte where "OPEN_ERR \<equiv> 7"
abbreviation DATA :: byte where "DATA \<equiv> 8"
abbreviation FIN :: byte where "FIN \<equiv> 9"
abbreviation RELEASE :: byte where "RELEASE \<equiv> 10"
abbreviation PING :: byte where "PING \<equiv> 11"
abbreviation PONG :: byte where "PONG \<equiv> 12"
abbreviation CLOSE :: byte where "CLOSE \<equiv> 13"

record frame =
  Typ :: byte
  LeaseID :: u64
  Payload :: bytes

text \<open>\<open>valid typ n\<close>: \<open>None\<close> when a frame of this type may carry \<open>n\<close> payload bytes.\<close>

definition valid :: "byte \<Rightarrow> int \<Rightarrow> error option" where
  "valid typ n =
     (if typ = DATA then
        (if n < 1 \<or> n > 32768 then Some (Errmsg ''invalid DATA length'') else None)
      else if typ \<in> {HELLO, HELLO_ERR, OPEN_ERR} then
        (if n < 1 \<or> n > 4096 then Some (Errmsg ''invalid JSON length'') else None)
      else if typ \<in> {PING, PONG} then
        (if n \<noteq> 8 then Some (Errmsg ''invalid nonce length'') else None)
      else if typ \<in> {HELLO_OK, READY, OPEN, OPEN_OK, FIN, RELEASE, CLOSE} then
        (if n \<noteq> 0 then Some (Errmsg ''unexpected payload'') else None)
      else Some (Errmsg ''unknown frame type''))"

definition frame_ok :: "frame \<Rightarrow> bool" where
  "frame_ok f \<longleftrightarrow> valid (Typ f) (int (length (Payload f))) = None"

lemma valid_bound: "valid typ n = None \<Longrightarrow> 0 \<le> n \<and> n \<le> 32768"
  by (auto simp: valid_def split: if_splits)

lemma frame_ok_bound: "frame_ok f \<Longrightarrow> length (Payload f) \<le> 32768"
  using valid_bound [of "Typ f" "int (length (Payload f))"] by (simp add: frame_ok_def)

text \<open>
  \<open>ReadFrame\<close> over any reader. \<open>None\<close>: the call does not return. The payload is read into
  \<^verbatim>\<open>c.readBuf[:n]\<close>; \<open>read_frame_payload_fits\<close> below shows that the slice is in range.
\<close>

definition header_type :: "bytes \<Rightarrow> byte" where
  "header_type h = h ! 0"

definition header_length :: "bytes \<Rightarrow> nat" where
  "header_length h = unat (get_be (take 4 (drop 9 h)) :: u32)"

definition header_lease :: "bytes \<Rightarrow> u64" where
  "header_lease h = get_be (take 8 (drop 1 h))"

definition read_frame :: "'s reader \<Rightarrow> 's \<Rightarrow> ('s \<times> (error + frame)) option" where
  "read_frame rd s =
     (case read_full rd s 13 [] of
        None \<Rightarrow> None
      | Some (s1, h, Some e) \<Rightarrow> Some (s1, Inl e)
      | Some (s1, h, None) \<Rightarrow>
          (let typ = header_type h; n = header_length h
           in case valid typ (int n) of
                Some e \<Rightarrow> Some (s1, Inl e)
              | None \<Rightarrow>
                  (case read_full rd s1 n [] of
                     None \<Rightarrow> None
                   | Some (s2, b, Some e) \<Rightarrow> Some (s2, Inl e)
                   | Some (s2, b, None) \<Rightarrow>
                       Some (s2, Inr \<lparr>Typ = typ, LeaseID = header_lease h, Payload = b\<rparr>))))"

definition frame_header :: "frame \<Rightarrow> bytes" where
  "frame_header f = Typ f # put_be 8 (LeaseID f) @ put_be 4 (of_nat (length (Payload f)) :: u32)"

definition write_frame :: "'s writer \<Rightarrow> 's \<Rightarrow> frame \<Rightarrow> 's \<times> error option" where
  "write_frame wr s f =
     (case valid (Typ f) (int (length (Payload f))) of
        Some e \<Rightarrow> (s, Some e)
      | None \<Rightarrow>
          (case write_full wr s (frame_header f) of
             (s1, Some e) \<Rightarrow> (s1, Some e)
           | (s1, None) \<Rightarrow> write_full wr s1 (Payload f)))"

subsection \<open>Frames as a self-delimiting format\<close>

definition encode_frame :: "frame \<Rightarrow> bytes" where
  "encode_frame f = frame_header f @ Payload f"

text \<open>The decoder of the specification: one frame off a byte string that ends with error \<open>e\<close>.\<close>

definition parse_frame :: "error \<Rightarrow> bytes \<Rightarrow> error + (frame \<times> bytes)" where
  "parse_frame e bs =
     (if length bs < 13 then Inl (short_error bs e)
      else let typ = header_type bs; n = header_length bs; b = drop 13 bs
           in case valid typ (int n) of
                Some x \<Rightarrow> Inl x
              | None \<Rightarrow>
                  if length b < n then Inl (short_error b e)
                  else Inr (\<lparr>Typ = typ, LeaseID = header_lease bs, Payload = take n b\<rparr>, drop n b))"

lemma length_frame_header [simp]: "length (frame_header f) = 13"
  by (simp add: frame_header_def)

lemma header_type_frame [wire_simps]: "header_type (frame_header f @ r) = Typ f"
  by (simp add: header_type_def frame_header_def)

lemma header_lease_frame [wire_simps]: "header_lease (frame_header f @ r) = LeaseID f"
  by (simp add: header_lease_def frame_header_def wire_simps)

lemma header_length_frame [wire_simps]:
  "length (Payload f) \<le> 32768 \<Longrightarrow> header_length (frame_header f @ r) = length (Payload f)"
  by (simp add: header_length_def frame_header_def drop_Cons' wire_simps unat_of_nat)

lemma parse_encode_frame: "frame_ok f \<Longrightarrow> parse_frame e (encode_frame f @ r) = Inr (f, r)"
  using frame_ok_bound [of f]
  by (simp add: parse_frame_def encode_frame_def wire_simps frame_ok_def Let_def)

text \<open>A header is the encoding of the fields read off it, so only one byte string parses to a frame.\<close>

lemma frame_header_of_bytes:
  assumes "length h = 13"
    and "length p = header_length h"
  shows "frame_header \<lparr>Typ = header_type h, LeaseID = header_lease h, Payload = p\<rparr> = h"
proof -
  have 1: "put_be 8 (header_lease h) = take 8 (drop 1 h)"
    using assms(1) put_get_be [where 'a = 64, of "take 8 (drop 1 h)"]
    by (simp add: header_lease_def)
  have 2: "put_be 4 (of_nat (header_length h) :: u32) = take 4 (drop 9 h)"
    using assms(1) put_get_be [where 'a = 32, of "take 4 (drop 9 h)"]
    by (simp add: header_length_def)
  have "h = take 1 h @ take 8 (drop 1 h) @ take 4 (drop 9 h)"
    using assms(1) append_take_drop_id [of 1 h] append_take_drop_id [of 8 "drop 1 h"] by simp
  also have "take 1 h = [header_type h]"
    using assms(1) by (cases h) (auto simp: header_type_def)
  finally show ?thesis
    using 1 2 assms(2) by (simp add: frame_header_def)
qed

lemma parse_frame_sound:
  assumes "parse_frame e bs = Inr (f, r)"
  shows "frame_ok f \<and> bs = encode_frame f @ r"
proof -
  let ?h = "take 13 bs"
  have len: "13 \<le> length bs" and n: "header_length bs \<le> length (drop 13 bs)"
    and v: "valid (header_type bs) (int (header_length bs)) = None"
    and f: "f = \<lparr>Typ = header_type bs, LeaseID = header_lease bs,
      Payload = take (header_length bs) (drop 13 bs)\<rparr>"
    and r: "r = drop (header_length bs) (drop 13 bs)"
    using assms by (auto simp: parse_frame_def Let_def split: if_splits option.splits)
  have h: "header_type ?h = header_type bs" "header_lease ?h = header_lease bs"
    "header_length ?h = header_length bs"
    using len by (simp_all add: header_type_def header_lease_def header_length_def drop_take)
  have "frame_header f = ?h"
    using frame_header_of_bytes [of ?h "Payload f"] len n by (simp add: f h min_absorb2)
  then have "bs = encode_frame f @ r"
    unfolding encode_frame_def by (simp add: f r) (metis append_take_drop_id drop_drop)
  moreover have "frame_ok f"
    using v n by (simp add: frame_ok_def f min_absorb2)
  ultimately show ?thesis by simp
qed

lemma encode_frame_not_Nil: "encode_frame f \<noteq> []"
  by (simp add: encode_frame_def frame_header_def)

interpretation frames: prefix_codec frame_ok encode_frame "parse_frame e" for e
  by unfold_locales (simp_all add: parse_encode_frame parse_frame_sound encode_frame_not_Nil)

lemma parse_frame_Nil [simp]: "parse_frame e [] = Inl e"
  by (simp add: parse_frame_def short_error_def)

subsection \<open>ReadFrame and WriteFrame against the format\<close>

text \<open>
  \<open>ReadFrame\<close> over any reader computes \<open>parse_frame\<close> of the bytes the reader has to give,
  however they are cut into reads.
\<close>

context byte_reader
begin

lemma read_frame_parse:
  "\<exists>s'. case parse_frame (ending s) (content s) of
      Inl x \<Rightarrow> read_frame rd s = Some (s', Inl x)
    | Inr (f, r) \<Rightarrow> read_frame rd s = Some (s', Inr f) \<and> content s' = r \<and> ending s' = ending s"
proof (cases "13 \<le> length (content s)")
  case False
  then obtain s' where
    "read_full rd s 13 [] = Some (s', content s, Some (short_error (content s) (ending s)))"
    using read_full_short [of s 13] by auto
  with False show ?thesis by (simp add: read_frame_def parse_frame_def)
next
  case True
  let ?h = "take 13 (content s)"
  obtain s1 where r1: "read_full rd s 13 [] = Some (s1, ?h, None)"
    and c1: "content s1 = drop 13 (content s)" and e1: "ending s1 = ending s"
    using True read_full_some [of 13 s] by auto
  have h: "header_type ?h = header_type (content s)" "header_lease ?h = header_lease (content s)"
    "header_length ?h = header_length (content s)"
    using True by (simp_all add: header_type_def header_lease_def header_length_def drop_take)
  show ?thesis
  proof (cases "header_length (content s) \<le> length (content s1)")
    case small: True
    then obtain s2 where "read_full rd s1 (header_length (content s)) []
        = Some (s2, take (header_length (content s)) (content s1), None)"
      "content s2 = drop (header_length (content s)) (content s1)" "ending s2 = ending s1"
      using read_full_some by blast
    with True r1 c1 e1 small show ?thesis
      by (auto simp: read_frame_def parse_frame_def h Let_def split: option.splits)
  next
    case short: False
    then obtain s2 where "read_full rd s1 (header_length (content s)) []
        = Some (s2, content s1, Some (short_error (content s1) (ending s1)))"
      using read_full_short [of s1 "header_length (content s)"] by auto
    with True r1 c1 e1 short show ?thesis
      by (auto simp: read_frame_def parse_frame_def h Let_def split: option.splits)
  qed
qed

lemma read_frame_ok:
  "read_frame rd s = Some (s', Inr f) \<Longrightarrow>
    frame_ok f \<and> content s = encode_frame f @ content s' \<and> ending s' = ending s"
proof -
  assume r: "read_frame rd s = Some (s', Inr f)"
  show ?thesis
  proof (cases "parse_frame (ending s) (content s)")
    case (Inl x)
    with r read_frame_parse [of s] show ?thesis by auto
  next
    case (Inr a)
    with r read_frame_parse [of s] have "a = (f, content s')" "ending s' = ending s"
      by (cases a; auto)+
    with Inr parse_frame_sound show ?thesis by blast
  qed
qed

end

context byte_sink
begin

lemma write_frame_acc:
  assumes "write_frame wr s f = (s', e)" and "frame_ok f"
  obtains k where "k \<le> length (encode_frame f)" and "acc s' = acc s @ take k (encode_frame f)"
    and "e = None \<longrightarrow> k = length (encode_frame f)"
proof -
  obtain s1 e1 where w1: "write_full wr s (frame_header f) = (s1, e1)" by (cases "write_full wr s (frame_header f)")
  then obtain j where j: "j \<le> 13" "acc s1 = acc s @ take j (frame_header f)" "e1 = None \<longrightarrow> j = 13"
    using write_full_acc [OF w1] by auto
  show ?thesis
  proof (cases e1)
    case (Some x)
    with assms w1 have "s' = s1" "e = Some x"
      by (auto simp: write_frame_def frame_ok_def)
    with j that [of j] show ?thesis by (simp add: encode_frame_def)
  next
    case None
    with assms w1 have w2: "write_full wr s1 (Payload f) = (s', e)"
      by (auto simp: write_frame_def frame_ok_def)
    obtain k where "k \<le> length (Payload f)" "acc s' = acc s1 @ take k (Payload f)"
      "e = None \<longrightarrow> k = length (Payload f)"
      using write_full_acc [OF w2] by auto
    with j None that [of "13 + k"] show ?thesis by (simp add: encode_frame_def)
  qed
qed

lemma write_frame_ok:
  assumes "write_frame wr s f = (s', None)"
  shows "frame_ok f \<and> acc s' = acc s @ encode_frame f"
proof (cases "frame_ok f")
  case True
  show ?thesis by (rule write_frame_acc [OF assms True]) (use True in auto)
next
  case False
  with assms show ?thesis by (auto simp: write_frame_def frame_ok_def)
qed

end

lemma write_frame_invalid: "\<not> frame_ok f \<Longrightarrow> \<exists>x. write_frame wr s f = (s, Some x)"
  by (auto simp: write_frame_def frame_ok_def)

subsection \<open>HELLO payloads\<close>

text \<open>Pool timings in milliseconds, 64-bit signed as on the wire, and the registration request.\<close>

record pool_params =
  HeartbeatMS :: int
  IdleTimeoutMS :: int
  IdleJitterMS :: int
  MaxLifetimeMS :: int
  LifetimeJitterMS :: int

record hello =
  Version :: int
  Service :: string
  Token :: string
  Compression :: string
  Pool :: pool_params

text \<open>
  \<open>DecodeJSON\<close>: \<open>dec\<close> is \<^verbatim>\<open>json.Decoder.Decode\<close> into the target type with unknown fields
  disallowed, returning the unread input; \<open>dec_any\<close> is the second call, into an \<^verbatim>\<open>any\<close>.
\<close>

definition DecodeJSON ::
    "(bytes \<Rightarrow> error + ('v \<times> bytes)) \<Rightarrow> (bytes \<Rightarrow> error + ('w \<times> bytes)) \<Rightarrow> bytes \<Rightarrow> error + 'v" where
  "DecodeJSON dec dec_any b =
     (case dec b of
        Inl e \<Rightarrow> Inl e
      | Inr (v, rest) \<Rightarrow>
          (case dec_any rest of
             Inl e \<Rightarrow> if e = EOF then Inr v else Inl e
           | Inr _ \<Rightarrow> Inl (Errmsg ''trailing JSON value'')))"

subsection \<open>Properties\<close>

text \<open>A sender that writes frames until one fails, and a receiver that reads up to \<open>n\<close> frames.\<close>

fun write_frames :: "'s writer \<Rightarrow> 's \<Rightarrow> frame list \<Rightarrow> 's \<times> error option" where
  "write_frames wr s [] = (s, None)"
| "write_frames wr s (f # fs) =
     (case write_frame wr s f of
        (s1, Some e) \<Rightarrow> (s1, Some e)
      | (s1, None) \<Rightarrow> write_frames wr s1 fs)"

fun read_frames :: "'s reader \<Rightarrow> nat \<Rightarrow> 's \<Rightarrow> (frame list \<times> error option) option" where
  "read_frames rd 0 s = Some ([], None)"
| "read_frames rd (Suc n) s =
     (case read_frame rd s of
        None \<Rightarrow> None
      | Some (s1, Inl e) \<Rightarrow> Some ([], Some e)
      | Some (s1, Inr f) \<Rightarrow> map_option (\<lambda>(fs, e). (f # fs, e)) (read_frames rd n s1))"

context sender
begin

lemma write_frame_sends:
  assumes "write_frame wr s f = (s', None)"
  shows "frame_ok f \<and> sends s s' (encode_frame f)"
proof -
  obtain s1 where "valid (Typ f) (int (length (Payload f))) = None"
    and w1: "write_full wr s (frame_header f) = (s1, None)"
    and w2: "write_full wr s1 (Payload f) = (s', None)"
    using assms by (auto simp: write_frame_def split: option.splits prod.splits)
  then show ?thesis
    using sends_append [OF write_full_sends [OF w1] write_full_sends [OF w2]]
    by (simp add: frame_ok_def encode_frame_def)
qed

lemma write_frames_sends:
  "write_frames wr s fs = (s', None) \<Longrightarrow>
    (\<forall>f \<in> set fs. frame_ok f) \<and> sends s s' (concat (map encode_frame fs))"
proof (induction fs arbitrary: s)
  case (Cons f fs)
  then obtain s1 where w: "write_frame wr s f = (s1, None)" and "write_frames wr s1 fs = (s', None)"
    by (auto split: prod.splits option.splits)
  with Cons.IH [of s1] write_frame_sends [OF w] sends_append show ?case by auto
qed (simp add: sends_Nil)

end

context byte_reader
begin

lemma read_frames_content:
  "\<forall>f \<in> set fs. frame_ok f \<Longrightarrow> content s = concat (map encode_frame fs) \<Longrightarrow>
    read_frames rd (Suc (length fs)) s = Some (fs, Some (ending s))"
proof (induction fs arbitrary: s)
  case Nil
  then show ?case using read_frame_parse [of s] by auto
next
  case (Cons f fs)
  then have "parse_frame (ending s) (content s) = Inr (f, concat (map encode_frame fs))"
    by (simp add: parse_encode_frame)
  then obtain s1 where "read_frame rd s = Some (s1, Inr f)" "ending s1 = ending s"
    "content s1 = concat (map encode_frame fs)"
    using read_frame_parse [of s] by auto
  with Cons show ?case by simp
qed

end

text \<open>
  C14. \<open>ReadFrame\<close> on a connection always returns, and what it returns depends only on the byte
  sequence that arrives, never on how the network cut it into segments: it is the first frame of
  the sequence (leaving exactly the rest for the next call), or the error of the format.
\<close>

theorem ReadFrame_any_segmentation:
  "\<exists>c'. case parse_frame (net_ending c) (net_content c) of
      Inl x \<Rightarrow> read_frame net_read c = Some (c', Inl x)
    | Inr (f, r) \<Rightarrow> read_frame net_read c = Some (c', Inr f)
        \<and> net_content c' = r \<and> net_ending c' = net_ending c"
  by (rule net_rd.read_frame_parse)

text \<open>
  A frame that \<open>ReadFrame\<close> returns respects the length rule of its type, its payload fits the
  32768-byte read buffer (the slice \<^verbatim>\<open>c.readBuf[:n]\<close> is in range), and it is the only frame the
  consumed bytes encode: they are its encoding, byte for byte.
\<close>

theorem ReadFrame_canonical:
  assumes "read_frame net_read c = Some (c', Inr f)"
  shows "frame_ok f \<and> length (Payload f) \<le> 32768 \<and> net_content c = encode_frame f @ net_content c'"
  using net_rd.read_frame_ok [OF assms] frame_ok_bound by auto

definition demo_fin :: frame where
  "demo_fin = \<lparr>Typ = FIN, LeaseID = 258, Payload = []\<rparr>"

definition demo_pong :: frame where
  "demo_pong = \<lparr>Typ = PONG, LeaseID = 0, Payload = [1, 2, 3, 4, 5, 6, 7, 8]\<rparr>"

definition demo_rx :: net_conn where
  "demo_rx = \<lparr>rx = [[9, 0, 0], [], [0, 0, 0, 0, 1, 2, 0], [0, 0, 0, 12]], rx_end = EOF,
     tx = [], tx_plan = [], shut = False\<rparr>"

theorem ReadFrame_canonical_witness:
  "\<exists>c'. read_frame net_read demo_rx = Some (c', Inr demo_fin)
    \<and> net_content demo_rx = encode_frame demo_fin @ net_content c'"
proof -
  have r: "read_frame net_read demo_rx = Some (demo_rx\<lparr>rx := [[12]]\<rparr>, Inr demo_fin)"
    by code_simp
  from ReadFrame_canonical [OF r] r show ?thesis by blast
qed

text \<open>
  \<open>WriteFrame\<close> refuses a frame whose payload length its type does not allow without touching
  the connection; otherwise what reaches the network is a prefix of the frame's encoding, the whole
  of it exactly when no error is returned.
\<close>

theorem WriteFrame_effect:
  assumes "write_frame net_write c f = (c', e)"
  shows "if frame_ok f
    then \<exists>k \<le> length (encode_frame f). tx c' = tx c @ take k (encode_frame f)
      \<and> (e = None \<longrightarrow> k = length (encode_frame f))
    else c' = c \<and> e \<noteq> None"
proof (cases "frame_ok f")
  case True
  then show ?thesis by (auto intro: net_wr.write_frame_acc [OF assms True])
next
  case False
  then show ?thesis using assms write_frame_invalid [of f net_write c] by auto
qed

text \<open>
  C15. Frames written without error on one connection are exactly the frames the peer reads, in
  order, whatever segments the network delivers the bytes in; after them the peer sees the end of
  the stream.
\<close>

theorem frames_roundtrip:
  assumes "write_frames net_write c fs = (c', None)" and "tx c = []"
    and "concat (rx d) = tx c'" and "\<not> shut d"
  shows "read_frames net_read (Suc (length fs)) d = Some (fs, Some (rx_end d))"
  using net_wr.sends.write_frames_sends [OF assms(1)] net_rd.read_frames_content [of fs d] assms
  by (simp add: net_content_def net_ending_def)

definition demo_tx :: net_conn where
  "demo_tx = \<lparr>rx = [], rx_end = EOF, tx = [], tx_plan = [None, Some (4, NetErr 7)], shut = False\<rparr>"

theorem WriteFrame_effect_witness:
  "\<exists>c'. write_frame net_write demo_tx demo_pong = (c', Some (NetErr 7))
    \<and> (\<exists>k \<le> 21. tx c' = take k (encode_frame demo_pong))"
proof -
  have w: "write_frame net_write demo_tx demo_pong
      = (demo_tx\<lparr>tx := take 17 (encode_frame demo_pong), tx_plan := []\<rparr>, Some (NetErr 7))"
    by code_simp
  have ok: "frame_ok demo_pong" and len: "length (encode_frame demo_pong) = 21"
    and tx: "tx demo_tx = []" by code_simp+
  from WriteFrame_effect [OF w] w ok len tx show ?thesis by auto
qed

theorem frames_roundtrip_witness:
  "read_frames net_read 3
    (demo_tx\<lparr>rx := [take 5 (encode_frame demo_fin),
       drop 5 (encode_frame demo_fin) @ encode_frame demo_pong]\<rparr>)
    = Some ([demo_fin, demo_pong], Some EOF)"
proof -
  have w: "write_frames net_write (demo_tx\<lparr>tx_plan := []\<rparr>) [demo_fin, demo_pong]
      = (demo_tx\<lparr>tx_plan := [], tx := encode_frame demo_fin @ encode_frame demo_pong\<rparr>, None)"
    by code_simp
  have e: "rx_end demo_tx = EOF" "tx demo_tx = []" "\<not> shut demo_tx"
    by (simp_all add: demo_tx_def)
  show ?thesis
    using frames_roundtrip [OF w, of "demo_tx\<lparr>rx := [take 5 (encode_frame demo_fin),
       drop 5 (encode_frame demo_fin) @ encode_frame demo_pong]\<rparr>"] e
    by (simp add: numeral_3_eq_3 flip: append_assoc)
qed

end
