(* ===== verification/Pool.thy ===== *)
theory Pool
  imports Prelude
begin

text \<open>
  The connection pool of \<^verbatim>\<open>internal/pool/pool.go\<close>: tunnel connections (workers) that wait for
  visitors, and visitors (waiters) that wait for a connection. Every method holds \<^verbatim>\<open>p.mu\<close> for its
  whole critical section, so each critical section is one function from pool to pool here; what a
  method does after unlocking (closing sockets) is returned as a list of effects. Workers and
  waiters are heap objects, addressed by number: \<open>wk\<close> and \<open>wt\<close> are the heaps, \<open>nwk\<close> and \<open>nwt\<close> the
  next free addresses. Sockets and contexts are numbers.

  A critical section reads the clock and \<^verbatim>\<open>ctx.Err()\<close> several times. Each reading is an argument,
  so nothing is assumed of how time passes inside a section.
\<close>

subsection \<open>Data\<close>

text \<open>The worker states carry the source's names with a prefix.\<close>

datatype wstate = w_registering | w_idle | w_leased | w_releasing | w_checking | w_expiring | w_closed

datatype outcome = Ready | Leased | Check | Expired | Stopped

datatype effect = CloseTCP nat | CloseConn nat

definition ErrStopped :: error where "ErrStopped = Errmsg ''pool stopping''"
definition ErrFull :: error where "ErrFull = Errmsg ''pool capacity exceeded''"
definition ErrExpired :: error where "ErrExpired = Errmsg ''acquire deadline expired''"

record options =
  Heartbeat :: duration
  IdleTimeout :: duration
  IdleJitter :: duration
  MaxLifetime :: duration
  LifetimeJitter :: duration

text \<open>
  \<open>armed\<close>: the context callback and the timer that would cancel the waiter are in place (the code
  creates and stops the two together).
\<close>

record waiter =
  vtcp :: nat
  vdeadline :: instant
  is_waiting :: bool
  armed :: bool

text \<open>\<open>wake\<close> is the one-slot channel; \<open>elem\<close> says the worker has a node in the idle list.\<close>

record worker =
  state :: wstate
  mailbox :: "nat option"
  business :: "nat option"
  wake :: bool
  opts :: options
  dies :: instant
  expires :: instant
  elem :: bool
  ID :: u64

record pool =
  pendingMax :: int
  stopping :: bool
  workers :: "nat list"
  idle_list :: "nat list"
  waiting :: "nat list"
  pending :: int
  waitTimeouts :: u64
  waitCanceled :: u64
  wk :: "nat \<Rightarrow> worker"
  wt :: "nat \<Rightarrow> waiter"
  nwk :: nat
  nwt :: nat

record pool_stats =
  s_Registering :: nat
  s_Idle :: nat
  s_Leased :: nat
  s_Releasing :: nat
  s_Checking :: nat
  s_Expiring :: nat
  s_Pending :: int
  s_WaitTimeouts :: u64
  s_WaitCanceled :: u64

subsection \<open>Instants\<close>

text \<open>\<^verbatim>\<open>time.Unix(1<<62, 0)\<close>, and the zero \<^verbatim>\<open>time.Time\<close> (January 1 of year 1).\<close>

definition never :: instant where "never = 2 ^ 62 * second"
definition zero_instant :: instant where "zero_instant = - 62135596800 * second"

text \<open>\<open>r\<close> is the random number behind \<^verbatim>\<open>rand.Int64N(n)\<close>, whose result lies in \<open>0..<n\<close>.\<close>

definition jitter :: "duration \<Rightarrow> int \<Rightarrow> duration" where
  "jitter d r = (if d \<le> 0 then 0 else r mod (d + 1))"

definition after :: "instant \<Rightarrow> duration \<Rightarrow> duration \<Rightarrow> int \<Rightarrow> instant" where
  "after now base spread r = (if base \<le> 0 then never else now + (base + jitter spread r))"

definition earlier :: "instant \<Rightarrow> instant \<Rightarrow> instant" where
  "earlier a b = (if a < b then a else b)"

subsection \<open>Construction, counters, statistics\<close>

definition new_pool :: "int \<Rightarrow> pool" where
  "new_pool maxPending =
     \<lparr>pendingMax = maxPending, stopping = False, workers = [], idle_list = [], waiting = [],
      pending = 0, waitTimeouts = 0, waitCanceled = 0, wk = (\<lambda>_. undefined), wt = (\<lambda>_. undefined),
      nwk = 0, nwt = 0\<rparr>"

definition upd_wk :: "nat \<Rightarrow> (worker \<Rightarrow> worker) \<Rightarrow> pool \<Rightarrow> pool" where
  "upd_wk w f p = p\<lparr>wk := (wk p)(w := f (wk p w))\<rparr>"

fun stats_add :: "wstate \<Rightarrow> pool_stats \<Rightarrow> pool_stats" where
  "stats_add w_registering s = s\<lparr>s_Registering := s_Registering s + 1\<rparr>"
| "stats_add w_idle s = s\<lparr>s_Idle := s_Idle s + 1\<rparr>"
| "stats_add w_leased s = s\<lparr>s_Leased := s_Leased s + 1\<rparr>"
| "stats_add w_releasing s = s\<lparr>s_Releasing := s_Releasing s + 1\<rparr>"
| "stats_add w_checking s = s\<lparr>s_Checking := s_Checking s + 1\<rparr>"
| "stats_add w_expiring s = s\<lparr>s_Expiring := s_Expiring s + 1\<rparr>"
| "stats_add w_closed s = s"

definition Stats :: "pool \<Rightarrow> pool_stats" where
  "Stats p = fold (\<lambda>w. stats_add (state (wk p w))) (workers p)
     \<lparr>s_Registering = 0, s_Idle = 0, s_Leased = 0, s_Releasing = 0, s_Checking = 0, s_Expiring = 0,
      s_Pending = pending p, s_WaitTimeouts = waitTimeouts p, s_WaitCanceled = waitCanceled p\<rparr>"

definition dropLocked :: "bool \<Rightarrow> pool \<Rightarrow> pool" where
  "dropLocked ctx_err p =
     (if ctx_err then p\<lparr>waitCanceled := waitCanceled p + 1\<rparr>
      else p\<lparr>waitTimeouts := waitTimeouts p + 1\<rparr>)"

definition Count :: "pool \<Rightarrow> nat" where
  "Count p = length (workers p)"

subsection \<open>Workers and the idle list\<close>

definition Register :: "u64 \<Rightarrow> options \<Rightarrow> instant \<Rightarrow> int \<Rightarrow> pool \<Rightarrow> pool \<times> (error + nat)" where
  "Register cid os now r p =
     (if stopping p then (p, Inl ErrStopped)
      else let w = nwk p;
               x = \<lparr>state = w_registering, mailbox = None, business = None, wake = False, opts = os,
                    dies = after now (MaxLifetime os) (LifetimeJitter os) r,
                    expires = zero_instant, elem = False, ID = cid\<rparr>
           in (p\<lparr>wk := (wk p)(w := x), nwk := Suc w, workers := w # workers p\<rparr>, Inr w))"

definition unlinkLocked :: "nat \<Rightarrow> pool \<Rightarrow> pool" where
  "unlinkLocked w p =
     (if elem (wk p w)
      then upd_wk w (\<lambda>x. x\<lparr>elem := False\<rparr>) (p\<lparr>idle_list := remove1 w (idle_list p)\<rparr>)
      else p)"

text \<open>\<open>pushIdleLocked\<close> walks from the back of the list; \<open>ins_back\<close> sees the list back to front.\<close>

fun ins_back :: "(nat \<Rightarrow> u64) \<Rightarrow> nat \<Rightarrow> nat list \<Rightarrow> nat list" where
  "ins_back ids w [] = [w]"
| "ins_back ids w (e # es) = (if ids e > ids w then e # ins_back ids w es else w # e # es)"

definition pushIdleLocked :: "nat \<Rightarrow> pool \<Rightarrow> pool" where
  "pushIdleLocked w p =
     upd_wk w (\<lambda>x. x\<lparr>elem := True, state := w_idle\<rparr>)
       (p\<lparr>idle_list := rev (ins_back (\<lambda>v. ID (wk p v)) w (rev (idle_list p)))\<rparr>)"

definition notify :: "nat \<Rightarrow> pool \<Rightarrow> pool" where
  "notify w p = upd_wk w (\<lambda>x. x\<lparr>wake := True\<rparr>) p"

fun close_opt :: "nat option \<Rightarrow> effect list" where
  "close_opt None = []"
| "close_opt (Some t) = [CloseTCP t]"

definition Closed :: "nat \<Rightarrow> pool \<Rightarrow> pool \<times> effect list" where
  "Closed w p =
     (if state (wk p w) = w_closed then (p, [])
      else let p1 = upd_wk w (\<lambda>x. x\<lparr>state := w_closed\<rparr>) p;
               p2 = unlinkLocked w (p1\<lparr>workers := remove1 w (workers p1)\<rparr>);
               tcp = mailbox (wk p2 w);
               bus = business (wk p2 w);
               p3 = notify w (upd_wk w (\<lambda>x. x\<lparr>mailbox := None, business := None\<rparr>) p2)
           in (p3, close_opt tcp @ close_opt bus @ [CloseConn w]))"

subsection \<open>Matching visitors with workers\<close>

definition removeLocked :: "nat \<Rightarrow> pool \<Rightarrow> pool" where
  "removeLocked v p =
     (if \<not> is_waiting (wt p v) then p
      else p\<lparr>wt := (wt p)(v := (wt p v)\<lparr>is_waiting := False, armed := False\<rparr>),
             waiting := remove1 v (waiting p), pending := pending p - 1\<rparr>)"

text \<open>Handing a visitor to a worker, as \<open>matchLocked\<close> and \<open>Dispatch\<close> do it.\<close>

definition lease_to :: "nat \<Rightarrow> nat \<Rightarrow> pool \<Rightarrow> pool" where
  "lease_to w tcp p =
     notify w (upd_wk w (\<lambda>x. x\<lparr>state := w_leased, mailbox := Some tcp, business := Some tcp\<rparr>) p)"

text \<open>
  What the loop of \<open>matchLocked\<close> observes when it looks at a waiter: \<^verbatim>\<open>v.ctx.Err() != nil\<close>, then the
  clock, then \<^verbatim>\<open>v.ctx.Err() != nil\<close> again in \<open>dropLocked\<close>. Every waiter is looked at once.
\<close>

record look =
  ctx_err :: bool
  clock :: instant
  ctx_err2 :: bool

fun match_loop :: "(nat \<Rightarrow> look) \<Rightarrow> nat \<Rightarrow> nat list \<Rightarrow> nat list \<Rightarrow> pool \<Rightarrow> pool \<times> nat list" where
  "match_loop lk w [] ex p = (pushIdleLocked w p, ex)"
| "match_loop lk w (v # vs) ex p =
     (if ctx_err (lk v) \<or> \<not> clock (lk v) < vdeadline (wt p v)
      then match_loop lk w vs (ex @ [vtcp (wt p v)])
             (removeLocked v (dropLocked (ctx_err2 (lk v)) p))
      else (lease_to w (vtcp (wt p v)) (removeLocked v p), ex))"

definition matchLocked :: "(nat \<Rightarrow> look) \<Rightarrow> nat \<Rightarrow> pool \<Rightarrow> pool \<times> nat list" where
  "matchLocked lk w p = match_loop lk w (waiting p) [] p"

text \<open>
  The critical section of \<open>Idle\<close>. On \<open>Stopped\<close> the caller runs \<open>Closed\<close> after unlocking, in a
  critical section of its own.
\<close>

definition Idle_locked ::
    "instant \<Rightarrow> (nat \<Rightarrow> look) \<Rightarrow> int \<Rightarrow> nat \<Rightarrow> pool \<Rightarrow> pool \<times> nat list \<times> outcome" where
  "Idle_locked now lk r w p =
     (if stopping p \<or> state (wk p w) = w_closed then (p, [], Stopped)
      else let p1 = upd_wk w (\<lambda>x. x\<lparr>business := None\<rparr>) p
           in if \<not> now < dies (wk p1 w)
              then (upd_wk w (\<lambda>x. x\<lparr>state := w_expiring\<rparr>) p1, [], Expired)
              else let p2 = (if state (wk p1 w) \<noteq> w_checking
                             then upd_wk w (\<lambda>x. x\<lparr>expires :=
                                    after now (IdleTimeout (opts x)) (IdleJitter (opts x)) r\<rparr>) p1
                             else p1);
                       (p3, ex) = matchLocked lk w p2
                   in (p3, ex, Ready))"

definition Idle ::
    "instant \<Rightarrow> (nat \<Rightarrow> look) \<Rightarrow> int \<Rightarrow> nat \<Rightarrow> pool \<Rightarrow> pool \<times> effect list \<times> outcome" where
  "Idle now lk r w p =
     (case Idle_locked now lk r w p of
        (p1, ex, Stopped) \<Rightarrow> (case Closed w p1 of (p2, eff) \<Rightarrow> (p2, eff, Stopped))
      | (p1, ex, oc) \<Rightarrow> (p1, map CloseTCP ex, oc))"

definition Releasing :: "nat \<Rightarrow> pool \<Rightarrow> pool" where
  "Releasing w p =
     (if state (wk p w) = w_leased then upd_wk w (\<lambda>x. x\<lparr>state := w_releasing\<rparr>) p else p)"

text \<open>
  \<open>cerr\<close> is what \<^verbatim>\<open>ctx.Err()\<close> returns, \<open>now\<close> the clock. The result holds the error and, when the
  visitor was queued, its waiter (which \<open>cancel\<close> below is closed over).
\<close>

definition Dispatch ::
    "error option \<Rightarrow> instant \<Rightarrow> nat \<Rightarrow> instant \<Rightarrow> pool
     \<Rightarrow> pool \<times> effect list \<times> error option \<times> nat option" where
  "Dispatch cerr now tcp deadline p =
     (let err = (if stopping p then Some ErrStopped
                 else if cerr \<noteq> None then cerr
                 else if \<not> now < deadline then Some ErrExpired else None)
      in if err \<noteq> None then (p, [CloseTCP tcp], err, None)
         else if waiting p = [] \<and> idle_list p \<noteq> []
         then let w = last (idle_list p)
              in (lease_to w tcp (unlinkLocked w p), [], None, None)
         else if pending p \<ge> pendingMax p then (p, [CloseTCP tcp], Some ErrFull, None)
         else let v = nwt p;
                  x = \<lparr>vtcp = tcp, vdeadline = deadline, is_waiting = True, armed = True\<rparr>
              in (p\<lparr>wt := (wt p)(v := x), nwt := Suc v, waiting := waiting p @ [v],
                    pending := pending p + 1\<rparr>, [], None, Some v))"

definition cancel :: "bool \<Rightarrow> nat \<Rightarrow> pool \<Rightarrow> pool \<times> effect list" where
  "cancel cerr v p =
     (if \<not> is_waiting (wt p v) then (p, [])
      else (removeLocked v (dropLocked cerr p), [CloseTCP (vtcp (wt p v))]))"

subsection \<open>Waiting for work\<close>

definition takeIdleLocked :: "nat \<Rightarrow> wstate \<Rightarrow> pool \<Rightarrow> pool \<times> bool" where
  "takeIdleLocked w s p =
     (if state (wk p w) \<noteq> w_idle \<or> stopping p then (p, False)
      else (upd_wk w (\<lambda>x. x\<lparr>state := s\<rparr>) (unlinkLocked w p), True))"

text \<open>
  \<open>Next\<close> fixes its deadline on entry (\<open>next_deadline\<close>), then alternates between a locked look at the
  worker (\<open>next_top\<close>) and a \<^verbatim>\<open>select\<close> (\<open>next_select\<close>, one event); \<open>None\<close> means "go on".
  \<open>next_enabled\<close>: the channel of the event can be ready at all.
\<close>

datatype next_event = Wake | HbC | ExC | CtxDone

definition next_deadline :: "nat \<Rightarrow> pool \<Rightarrow> instant" where
  "next_deadline w p =
     (let d = earlier (expires (wk p w)) (dies (wk p w))
      in if d = zero_instant then never else d)"

fun next_enabled :: "nat \<Rightarrow> instant \<Rightarrow> pool \<Rightarrow> next_event \<Rightarrow> bool" where
  "next_enabled w dl p Wake = wake (wk p w)"
| "next_enabled w dl p HbC = (Heartbeat (opts (wk p w)) > 0)"
| "next_enabled w dl p ExC = (dl \<noteq> never)"
| "next_enabled w dl p CtxDone = True"

definition next_top :: "nat \<Rightarrow> pool \<Rightarrow> pool \<times> (nat option \<times> outcome) option" where
  "next_top w p =
     (if state (wk p w) = w_closed \<or> stopping p \<and> state (wk p w) = w_idle
      then (p, Some (None, Stopped))
      else case mailbox (wk p w) of
             Some tcp \<Rightarrow> (upd_wk w (\<lambda>x. x\<lparr>mailbox := None\<rparr>) p, Some (Some tcp, Leased))
           | None \<Rightarrow> (p, None))"

fun next_select :: "nat \<Rightarrow> next_event \<Rightarrow> pool \<Rightarrow> pool \<times> (nat option \<times> outcome) option" where
  "next_select w Wake p = (upd_wk w (\<lambda>x. x\<lparr>wake := False\<rparr>) p, None)"
| "next_select w HbC p =
     (case takeIdleLocked w w_checking p of
        (p1, ok) \<Rightarrow> (p1, if ok then Some (None, Check) else None))"
| "next_select w ExC p =
     (case takeIdleLocked w w_expiring p of
        (p1, ok) \<Rightarrow> (p1, if ok then Some (None, Expired) else None))"
| "next_select w CtxDone p = (p, Some (None, Stopped))"

text \<open>
  \<open>Next\<close> over the events it receives, each with what the other goroutines did to the pool before
  it: \<open>None\<close> when it is still waiting after them (or an event was not possible).
\<close>

fun Next_loop ::
    "nat \<Rightarrow> instant \<Rightarrow> ((pool \<Rightarrow> pool) \<times> next_event) list \<Rightarrow> pool
     \<Rightarrow> (pool \<times> nat option \<times> outcome) option" where
  "Next_loop w dl evs p =
     (case next_top w p of
        (p1, Some (t, oc)) \<Rightarrow> Some (p1, t, oc)
      | (p1, None) \<Rightarrow>
          (case evs of
             [] \<Rightarrow> None
           | (env, ev) # rest \<Rightarrow>
               if next_enabled w dl (env p1) ev
               then (case next_select w ev (env p1) of
                       (p2, Some (t, oc)) \<Rightarrow> Some (p2, t, oc)
                     | (p2, None) \<Rightarrow> Next_loop w dl rest p2)
               else None))"

definition Next ::
    "nat \<Rightarrow> ((pool \<Rightarrow> pool) \<times> next_event) list \<Rightarrow> pool
     \<Rightarrow> (pool \<times> nat option \<times> outcome) option" where
  "Next w evs p = Next_loop w (next_deadline w p) evs p"

subsection \<open>Shutdown\<close>

fun stop_waiters :: "nat list \<Rightarrow> pool \<Rightarrow> pool" where
  "stop_waiters [] p = p"
| "stop_waiters (v # vs) p =
     stop_waiters vs (removeLocked v (p\<lparr>waitCanceled := waitCanceled p + 1\<rparr>))"

fun close_workers :: "nat list \<Rightarrow> pool \<Rightarrow> pool \<times> effect list" where
  "close_workers [] p = (p, [])"
| "close_workers (w # ws) p =
     (case Closed w p of (p1, e1) \<Rightarrow>
        case close_workers ws p1 of (p2, e2) \<Rightarrow> (p2, e1 @ e2))"

text \<open>The critical section of \<open>Stop\<close>: the visitors to close and the workers to close.\<close>

definition Stop_locked :: "pool \<Rightarrow> pool \<times> nat list \<times> nat list" where
  "Stop_locked p =
     (if stopping p then (p, [], [])
      else (stop_waiters (waiting p) (p\<lparr>stopping := True\<rparr>),
            map (\<lambda>v. vtcp (wt p v)) (waiting p),
            filter (\<lambda>w. state (wk p w) \<in> {w_idle, w_checking, w_registering, w_expiring}) (workers p)))"

definition Stop :: "pool \<Rightarrow> pool \<times> effect list" where
  "Stop p =
     (case Stop_locked p of (p1, tcps, ws) \<Rightarrow>
        case close_workers ws p1 of (p2, eff) \<Rightarrow> (p2, map CloseTCP tcps @ eff))"

definition Force :: "pool \<Rightarrow> pool \<times> effect list" where
  "Force p = close_workers (workers p) p"

end
