(* ===== verification/Pool_Inv.thy ===== *)
theory Pool_Inv
  imports Pool
begin

text \<open>
  The data invariant of the pool and its preservation by every critical section: the registered
  workers are the live ones, the idle list holds exactly the idle workers in ascending order of
  connection ID, the waiting list holds exactly the queued visitors and \<open>pending\<close> is its length,
  and no visitor is queued while a worker is idle.
\<close>

subsection \<open>Projections under updates\<close>

named_theorems proj_simps \<open>fields of the heap as functions, under an update of the heap\<close>

definition slots :: "worker \<Rightarrow> nat option \<times> nat option" where
  "slots x = (mailbox x, business x)"

lemma slots_upd [simp]:
  "slots (x\<lparr>wake := b\<rparr>) = slots x" "slots (x\<lparr>state := s\<rparr>) = slots x"
  "slots (x\<lparr>elem := b\<rparr>) = slots x" "slots (x\<lparr>expires := t\<rparr>) = slots x"
  "slots (x\<lparr>mailbox := None, business := None\<rparr>) = (None, None)"
  "slots (x\<lparr>elem := b, mailbox := None, business := None\<rparr>) = (None, None)"
  by (simp_all add: slots_def)

lemma proj_upd [proj_simps]:
  "(\<lambda>v. state ((f(w := x)) v)) = (\<lambda>v. state (f v))(w := state x)"
  "(\<lambda>v. elem ((f(w := x)) v)) = (\<lambda>v. elem (f v))(w := elem x)"
  "(\<lambda>v. ID ((f(w := x)) v)) = (\<lambda>v. ID (f v))(w := ID x)"
  "(\<lambda>v. slots ((f(w := x)) v)) = (\<lambda>v. slots (f v))(w := slots x)"
  "(\<lambda>v. is_waiting ((g(u := y)) v)) = (\<lambda>v. is_waiting (g v))(u := is_waiting y)"
  by auto

lemma proj_same [proj_simps]:
  "(\<lambda>v. state (f v))(w := state (f w)) = (\<lambda>v. state (f v))"
  "(\<lambda>v. elem (f v))(w := elem (f w)) = (\<lambda>v. elem (f v))"
  "(\<lambda>v. ID (f v))(w := ID (f w)) = (\<lambda>v. ID (f v))"
  "(\<lambda>v. slots (f v))(w := slots (f w)) = (\<lambda>v. slots (f v))"
  by auto

lemmas [proj_simps] = fun_upd_same

lemma upd_wk_sel [simp]:
  "pendingMax (upd_wk w f p) = pendingMax p" "stopping (upd_wk w f p) = stopping p"
  "workers (upd_wk w f p) = workers p" "idle_list (upd_wk w f p) = idle_list p"
  "waiting (upd_wk w f p) = waiting p" "pending (upd_wk w f p) = pending p"
  "waitTimeouts (upd_wk w f p) = waitTimeouts p" "waitCanceled (upd_wk w f p) = waitCanceled p"
  "wt (upd_wk w f p) = wt p" "nwk (upd_wk w f p) = nwk p" "nwt (upd_wk w f p) = nwt p"
  "wk (upd_wk w f p) = (wk p)(w := f (wk p w))"
  by (simp_all add: upd_wk_def)

lemma unlinkLocked_sel [simp]:
  "pendingMax (unlinkLocked w p) = pendingMax p" "stopping (unlinkLocked w p) = stopping p"
  "workers (unlinkLocked w p) = workers p"
  "idle_list (unlinkLocked w p) = (if elem (wk p w) then remove1 w (idle_list p) else idle_list p)"
  "waiting (unlinkLocked w p) = waiting p" "pending (unlinkLocked w p) = pending p"
  "waitTimeouts (unlinkLocked w p) = waitTimeouts p" "waitCanceled (unlinkLocked w p) = waitCanceled p"
  "wt (unlinkLocked w p) = wt p" "nwk (unlinkLocked w p) = nwk p" "nwt (unlinkLocked w p) = nwt p"
  "wk (unlinkLocked w p) = (wk p)(w := (wk p w)\<lparr>elem := False\<rparr>)"
  by (auto simp: unlinkLocked_def fun_eq_iff)

lemma dropLocked_sel [simp]:
  "pendingMax (dropLocked b p) = pendingMax p" "stopping (dropLocked b p) = stopping p"
  "workers (dropLocked b p) = workers p" "idle_list (dropLocked b p) = idle_list p"
  "waiting (dropLocked b p) = waiting p" "pending (dropLocked b p) = pending p"
  "wt (dropLocked b p) = wt p" "nwk (dropLocked b p) = nwk p" "nwt (dropLocked b p) = nwt p"
  "wk (dropLocked b p) = wk p"
  by (simp_all add: dropLocked_def)

lemma removeLocked_sel [simp]:
  "pendingMax (removeLocked v p) = pendingMax p" "stopping (removeLocked v p) = stopping p"
  "workers (removeLocked v p) = workers p" "idle_list (removeLocked v p) = idle_list p"
  "waitTimeouts (removeLocked v p) = waitTimeouts p" "waitCanceled (removeLocked v p) = waitCanceled p"
  "nwk (removeLocked v p) = nwk p" "nwt (removeLocked v p) = nwt p" "wk (removeLocked v p) = wk p"
  "vtcp (wt (removeLocked v p) u) = vtcp (wt p u)"
  "vdeadline (wt (removeLocked v p) u) = vdeadline (wt p u)"
  by (auto simp: removeLocked_def)

subsection \<open>The invariant\<close>

text \<open>
  \<open>reg_ok\<close>, \<open>idle_ok\<close> and \<open>wait_ok\<close> constrain the three collections; they take the fields they read
  as arguments (\<open>st\<close>, \<open>el\<close>, \<open>ids\<close>: the state, list-node flag and ID of each worker).
\<close>

definition reg_ok :: "nat \<Rightarrow> (nat \<Rightarrow> wstate) \<Rightarrow> nat list \<Rightarrow> bool" where
  "reg_ok n st ws \<longleftrightarrow> distinct ws \<and> set ws = {w. w < n \<and> st w \<noteq> w_closed}"

definition idle_ok ::
    "nat \<Rightarrow> (nat \<Rightarrow> wstate) \<Rightarrow> (nat \<Rightarrow> bool) \<Rightarrow> (nat \<Rightarrow> u64) \<Rightarrow> nat list \<Rightarrow> bool" where
  "idle_ok n st el ids xs \<longleftrightarrow>
     set xs = {w. w < n \<and> st w = w_idle} \<and> (\<forall>w < n. el w \<longleftrightarrow> st w = w_idle)
     \<and> inj_on ids {..<n} \<and> sorted_wrt (<) (map ids xs)"

definition wait_ok :: "nat \<Rightarrow> (nat \<Rightarrow> bool) \<Rightarrow> nat list \<Rightarrow> int \<Rightarrow> int \<Rightarrow> bool" where
  "wait_ok n wait vs k mx \<longleftrightarrow>
     distinct vs \<and> set vs = {v. v < n \<and> wait v} \<and> k = int (length vs) \<and> k \<le> max 0 mx"

definition closed_ok ::
    "nat \<Rightarrow> (nat \<Rightarrow> wstate) \<Rightarrow> (nat \<Rightarrow> nat option \<times> nat option) \<Rightarrow> bool" where
  "closed_ok n st sl \<longleftrightarrow> (\<forall>w < n. st w = w_closed \<longrightarrow> sl w = (None, None))"

definition pool_inv :: "pool \<Rightarrow> bool" where
  "pool_inv p \<longleftrightarrow>
     reg_ok (nwk p) (\<lambda>w. state (wk p w)) (workers p)
     \<and> idle_ok (nwk p) (\<lambda>w. state (wk p w)) (\<lambda>w. elem (wk p w)) (\<lambda>w. ID (wk p w)) (idle_list p)
     \<and> wait_ok (nwt p) (\<lambda>v. is_waiting (wt p v)) (waiting p) (pending p) (pendingMax p)
     \<and> (waiting p \<noteq> [] \<longrightarrow> idle_list p = [] \<and> \<not> stopping p)
     \<and> closed_ok (nwk p) (\<lambda>w. state (wk p w)) (\<lambda>w. slots (wk p w))"

subsection \<open>The three collections\<close>

lemma reg_ok_state: "reg_ok n st ws \<Longrightarrow> s \<noteq> w_closed \<Longrightarrow> st w \<noteq> w_closed \<Longrightarrow> reg_ok n (st(w := s)) ws"
  by (auto simp: reg_ok_def)

lemma reg_ok_close: "reg_ok n st ws \<Longrightarrow> w < n \<Longrightarrow> reg_ok n (st(w := w_closed)) (remove1 w ws)"
  by (auto simp: reg_ok_def)

lemma reg_ok_new: assumes "reg_ok n st ws" "s \<noteq> w_closed" shows "reg_ok (Suc n) (st(n := s)) (n # ws)"
proof -
  have "n \<notin> set ws" using assms by (simp add: reg_ok_def)
  then show ?thesis using assms by (auto simp: reg_ok_def less_Suc_eq)
qed

lemma idle_ok_distinct: "idle_ok n st el ids xs \<Longrightarrow> distinct xs"
  by (auto simp: idle_ok_def strict_sorted_iff distinct_map)

lemma sorted_map_remove1:
  "sorted_wrt (<) (map ids xs) \<Longrightarrow> sorted_wrt (<) (map (ids :: nat \<Rightarrow> u64) (remove1 w xs))"
  by (induction xs) (auto dest: set_remove1_subset [THEN subsetD])

lemma idle_ok_remove:
  "idle_ok n st el ids xs \<Longrightarrow> s \<noteq> w_idle \<Longrightarrow>
    idle_ok n (st(w := s)) (el(w := False)) ids (remove1 w xs)"
  using idle_ok_distinct [of n st el ids xs]
  by (auto simp: idle_ok_def sorted_map_remove1)

lemma idle_ok_other:
  "idle_ok n st el ids xs \<Longrightarrow> s \<noteq> w_idle \<Longrightarrow> st w \<noteq> w_idle \<Longrightarrow> idle_ok n (st(w := s)) el ids xs"
  by (auto simp: idle_ok_def)

lemma idle_ok_new:
  "idle_ok n st el ids xs \<Longrightarrow> s \<noteq> w_idle \<Longrightarrow> cid \<notin> ids ` {..<n} \<Longrightarrow>
    idle_ok (Suc n) (st(n := s)) (el(n := False)) (ids(n := cid)) xs"
proof -
  assume a: "idle_ok n st el ids xs" "s \<noteq> w_idle" "cid \<notin> ids ` {..<n}"
  have "n \<notin> set xs" using a(1) by (auto simp: idle_ok_def)
  moreover have "inj_on (ids(n := cid)) {..<Suc n}"
    using a by (auto simp: idle_ok_def inj_on_def less_Suc_eq)
  ultimately show ?thesis using a
    by (auto simp: idle_ok_def less_Suc_eq)
qed

text \<open>The insertion keeps the list sorted and adds just the worker.\<close>

lemma set_ins_back [simp]: "set (ins_back ids w es) = insert w (set es)"
  by (induction es) auto

lemma ins_back_sorted:
  "sorted_wrt (>) (map ids es) \<Longrightarrow> ids w \<notin> ids ` set es \<Longrightarrow>
    sorted_wrt (>) (map ids (ins_back ids w es))"
  by (induction es) (auto intro: order.strict_trans)

lemma sorted_map_rev:
  "sorted_wrt (<) (map (ids :: nat \<Rightarrow> u64) (rev xs)) = sorted_wrt (>) (map ids xs)"
  by (simp add: sorted_wrt_rev flip: rev_map)

lemma idle_ok_insert:
  assumes "idle_ok n st el ids xs" and "w < n" and "st w \<noteq> w_idle"
  shows "idle_ok n (st(w := w_idle)) (el(w := True)) ids (rev (ins_back ids w (rev xs)))"
proof -
  have "ids w \<notin> ids ` set (rev xs)"
    using assms by (auto simp: idle_ok_def inj_on_def)
  then have "sorted_wrt (<) (map ids (rev (ins_back ids w (rev xs))))"
    using assms(1) ins_back_sorted [of ids "rev xs" w]
    by (simp add: sorted_map_rev idle_ok_def flip: sorted_map_rev [of ids "rev xs"])
  with assms show ?thesis by (auto simp: idle_ok_def)
qed

text \<open>So the back of the list is the idle worker with the greatest ID.\<close>

lemma idle_ok_last:
  assumes "idle_ok n st el ids xs" and "v < n" and "st v = w_idle" and "v \<noteq> last xs"
  shows "ids v < ids (last xs)"
proof -
  have v: "v \<in> set xs" using assms by (auto simp: idle_ok_def)
  then have ne: "xs \<noteq> []" by auto
  with v assms(4) have "v \<in> set (butlast xs)"
    by (metis append_butlast_last_id rotate1.simps(2) set_ConsD set_rotate1 rotate1_fixpoint_card)
  moreover have "sorted_wrt (<) (map ids (butlast xs @ [last xs]))"
    using assms(1) ne by (simp add: idle_ok_def)
  ultimately show ?thesis by (auto simp: sorted_wrt_append)
qed

lemma wait_ok_remove:
  assumes "wait_ok n wait vs k mx" "v < n" "wait v" shows
    "wait_ok n (wait(v := False)) (remove1 v vs) (k - 1) mx"
proof -
  have v: "v \<in> set vs" using assms by (simp add: wait_ok_def)
  then have "int (length (remove1 v vs)) = k - 1" using assms length_pos_if_in_set [OF v]
    by (simp add: wait_ok_def length_remove1 of_nat_diff Suc_leI)
  with assms show ?thesis by (auto simp: wait_ok_def)
qed

lemma wait_ok_new:
  assumes "wait_ok n wait vs k mx" "k < mx" shows
    "wait_ok (Suc n) (wait(n := True)) (vs @ [n]) (k + 1) mx"
proof -
  have "n \<notin> set vs" using assms by (simp add: wait_ok_def)
  then show ?thesis using assms by (auto simp: wait_ok_def less_Suc_eq)
qed

lemma closed_ok_upd:
  "closed_ok n st sl \<Longrightarrow> s = w_closed \<longrightarrow> x = (None, None) \<Longrightarrow> closed_ok n (st(w := s)) (sl(w := x))"
  by (auto simp: closed_ok_def)

lemma closed_ok_state:
  "closed_ok n st sl \<Longrightarrow> s \<noteq> w_closed \<Longrightarrow> closed_ok n (st(w := s)) sl"
  by (auto simp: closed_ok_def)

lemma closed_ok_new:
  "closed_ok n st sl \<Longrightarrow> s \<noteq> w_closed \<Longrightarrow> closed_ok (Suc n) (st(n := s)) (sl(n := x))"
  by (auto simp: closed_ok_def less_Suc_eq)

lemma closed_ok_slots:
  "closed_ok n st sl \<Longrightarrow> st w \<noteq> w_closed \<Longrightarrow> closed_ok n st (sl(w := x))"
  by (auto simp: closed_ok_def)

subsection \<open>Preservation\<close>

lemma pool_inv_new: "pool_inv (new_pool k)"
  by (simp add: pool_inv_def new_pool_def reg_ok_def idle_ok_def wait_ok_def closed_ok_def)

lemma pool_inv_Register:
  "pool_inv p \<Longrightarrow> cid \<notin> (\<lambda>w. ID (wk p w)) ` {..<nwk p} \<Longrightarrow> pool_inv (fst (Register cid os now r p))"
  by (auto simp: pool_inv_def Register_def Let_def proj_simps simp del: fun_upd_apply
      intro!: reg_ok_new idle_ok_new closed_ok_new)

lemma pool_inv_notify [simp]: "pool_inv (notify w p) = pool_inv p"
  
  by (auto simp: pool_inv_def notify_def proj_simps simp del: fun_upd_apply)

text \<open>Taking a worker out of service, whatever state it was in.\<close>

lemma idle_ok_leave:
  assumes "idle_ok n (\<lambda>w. state (h w)) (\<lambda>w. elem (h w)) ids xs" and "w < n" and "s \<noteq> w_idle"
  shows "idle_ok n ((\<lambda>w. state (h w))(w := s)) ((\<lambda>w. elem (h w))(w := False)) ids
    (if elem (h w) then remove1 w xs else xs)"
proof (cases "elem (h w)")
  case True
  then show ?thesis using assms by (simp add: idle_ok_remove)
next
  case False
  then have "state (h w) \<noteq> w_idle" using assms by (auto simp: idle_ok_def)
  moreover have "(\<lambda>w. elem (h w))(w := False) = (\<lambda>w. elem (h w))"
    using False by (auto simp: fun_eq_iff)
  ultimately show ?thesis using assms False by (simp add: idle_ok_other)
qed

lemma pool_inv_Closed: "pool_inv p \<Longrightarrow> w < nwk p \<Longrightarrow> pool_inv (fst (Closed w p))"
  using idle_ok_leave [of "nwk p" "wk p" "\<lambda>w. ID (wk p w)" "idle_list p" w w_closed]
  by (auto simp: pool_inv_def Closed_def Let_def notify_def proj_simps
      simp del: fun_upd_apply intro: reg_ok_close closed_ok_upd)

lemma pool_inv_lease:
  assumes "pool_inv p" and "w < nwk p" and "state (wk p w) \<noteq> w_closed"
  shows "pool_inv (lease_to w t (unlinkLocked w p))"
  using assms idle_ok_leave [of "nwk p" "wk p" "\<lambda>w. ID (wk p w)" "idle_list p" w w_leased]
  by (auto simp: pool_inv_def lease_to_def notify_def proj_simps
      simp del: fun_upd_apply intro: reg_ok_state closed_ok_upd closed_ok_state)

lemma pool_inv_lease_busy:
  assumes "pool_inv p" and "w < nwk p" and "state (wk p w) \<notin> {w_closed, w_idle}"
  shows "pool_inv (lease_to w t p)"
proof -
  have "\<not> elem (wk p w)" using assms by (auto simp: pool_inv_def idle_ok_def)
  then have "unlinkLocked w p = p" by (simp add: unlinkLocked_def)
  with pool_inv_lease [OF assms(1,2)] assms(3) show ?thesis by simp
qed

lemma pool_inv_takeIdle:
  assumes "pool_inv p" and "w < nwk p" and "s \<noteq> w_idle" and "s \<noteq> w_closed"
  shows "pool_inv (fst (takeIdleLocked w s p))"
  using assms idle_ok_leave [of "nwk p" "wk p" "\<lambda>w. ID (wk p w)" "idle_list p" w s]
  by (auto simp: pool_inv_def takeIdleLocked_def proj_simps
      simp del: fun_upd_apply intro: reg_ok_state closed_ok_upd closed_ok_state)

lemma pool_inv_push:
  assumes "pool_inv p" and "w < nwk p" and "state (wk p w) \<notin> {w_closed, w_idle}" and "waiting p = []"
  shows "pool_inv (pushIdleLocked w p)"
  using assms by (auto simp: pool_inv_def pushIdleLocked_def proj_simps
      simp del: fun_upd_apply intro: reg_ok_state idle_ok_insert closed_ok_upd closed_ok_state)

text \<open>A change of a worker that is out of service and stays so.\<close>

lemma pool_inv_upd:
  assumes "pool_inv p" and "w < nwk p" and "state (wk p w) \<notin> {w_closed, w_idle}"
    and "state (f (wk p w)) \<notin> {w_closed, w_idle}"
    and "elem (f (wk p w)) = elem (wk p w)" and "ID (f (wk p w)) = ID (wk p w)"
  shows "pool_inv (upd_wk w f p)"
  using assms by (auto simp: pool_inv_def proj_simps simp del: fun_upd_apply
      intro: reg_ok_state idle_ok_other closed_ok_upd)

lemma pool_inv_Releasing: "pool_inv p \<Longrightarrow> w < nwk p \<Longrightarrow> pool_inv (Releasing w p)"
  by (auto simp: Releasing_def intro!: pool_inv_upd)

lemma pool_inv_counters [simp]:
  "pool_inv (p\<lparr>waitCanceled := x\<rparr>) = pool_inv p" "pool_inv (dropLocked b p) = pool_inv p"
  by (auto simp: pool_inv_def dropLocked_def)

lemma pool_inv_waiting: "pool_inv p \<Longrightarrow> v \<in> set (waiting p) \<longleftrightarrow> v < nwt p \<and> is_waiting (wt p v)"
  by (auto simp: pool_inv_def wait_ok_def)

lemma pool_inv_remove:
  assumes "pool_inv p" and "v < nwt p"
  shows "pool_inv (removeLocked v p)"
proof (cases "is_waiting (wt p v)")
  case True
  then have "v \<in> set (waiting p)" using assms pool_inv_waiting by blast
  then have "waiting p \<noteq> []" by auto
  with assms True show ?thesis
    by (auto simp: pool_inv_def removeLocked_def proj_simps simp del: fun_upd_apply
        intro: wait_ok_remove)
next
  case False
  with assms show ?thesis by (simp add: removeLocked_def)
qed

lemma waiting_removeLocked:
  "pool_inv p \<Longrightarrow> waiting p = v # vs \<Longrightarrow> waiting (removeLocked v p) = vs"
  using pool_inv_waiting [of p v] by (simp add: removeLocked_def)

lemma waiting_dropLocked [simp]: "waiting (removeLocked v (dropLocked b p)) = waiting (removeLocked v p)"
  by (simp add: removeLocked_def)

lemma pool_inv_match:
  assumes "pool_inv p" and "w < nwk p" and "state (wk p w) \<notin> {w_closed, w_idle}"
  shows "pool_inv (fst (match_loop lk w (waiting p) ex p))"
  using assms
proof (induction lk w "waiting p" ex p rule: match_loop.induct)
  case (1 lk w ex p)
  then show ?case by (simp add: pool_inv_push)
next
  case (2 lk w v vs ex p)
  have q: "waiting p = v # vs" using \<open>v # vs = waiting p\<close> by simp
  then have "v \<in> set (waiting p)" by simp
  then have v: "v < nwt p"
    using pool_inv_waiting [OF "2.prems"(1)] by blast
  have wt: "waiting (removeLocked v p) = vs"
    using "2.prems"(1) q by (rule waiting_removeLocked)
  show ?case
  proof (cases "ctx_err (lk v) \<or> \<not> clock (lk v) < vdeadline (wt p v)")
    case True
    then show ?thesis
      using "2.hyps"(1) [OF True] "2.prems" pool_inv_remove [of "dropLocked (ctx_err2 (lk v)) p" v] v wt
      by (simp add: q)
  next
    case False
    then show ?thesis
      using pool_inv_lease_busy [of "removeLocked v p" w] pool_inv_remove [of p v] "2.prems" v
      by (simp add: q)
  qed
qed

lemma pool_inv_Idle_locked:
  assumes "pool_inv p" and "w < nwk p" and "state (wk p w) \<noteq> w_idle"
  shows "pool_inv (fst (Idle_locked now lk r w p))"
proof -
  let ?p1 = "upd_wk w (\<lambda>x. x\<lparr>business := None\<rparr>) p"
  let ?p2 = "upd_wk w (\<lambda>x. x\<lparr>expires := after now (IdleTimeout (opts x)) (IdleJitter (opts x)) r\<rparr>) ?p1"
  show ?thesis
  proof (cases "stopping p \<or> state (wk p w) = w_closed")
    case True
    with assms show ?thesis by (simp add: Idle_locked_def)
  next
    case False
    with assms have 1: "pool_inv ?p1" by (intro pool_inv_upd) auto
    with assms False have 2: "pool_inv ?p2" by (intro pool_inv_upd) auto
    have 3: "pool_inv (upd_wk w (\<lambda>x. x\<lparr>state := w_expiring\<rparr>) ?p1)"
      using 1 assms False by (intro pool_inv_upd) auto
    show ?thesis
      using 1 2 3 assms False pool_inv_match [of ?p1 w lk "[]"] pool_inv_match [of ?p2 w lk "[]"]
      by (auto simp: Idle_locked_def Let_def matchLocked_def split_beta)
  qed
qed

lemma pool_inv_idle_last:
  "pool_inv p \<Longrightarrow> idle_list p \<noteq> [] \<Longrightarrow>
    last (idle_list p) < nwk p \<and> state (wk p (last (idle_list p))) = w_idle"
  using last_in_set [of "idle_list p"] by (auto simp: pool_inv_def idle_ok_def)

lemma pool_inv_Dispatch: "pool_inv p \<Longrightarrow> pool_inv (fst (Dispatch cerr now t d p))"
proof -
  assume p: "pool_inv p"
  have new: "pool_inv (p\<lparr>wt := (wt p)(nwt p := x), nwt := Suc (nwt p),
      waiting := waiting p @ [nwt p], pending := pending p + 1\<rparr>)"
    if "pending p < pendingMax p" "is_waiting x" "\<not> stopping p" "waiting p \<noteq> [] \<or> idle_list p = []" for x
    using p that by (auto simp: pool_inv_def proj_simps simp del: fun_upd_apply
        intro: wait_ok_new wait_ok_new [where vs = "[]", simplified])
  show ?thesis
    using p pool_inv_idle_last [OF p]
    by (auto simp: Dispatch_def Let_def intro!: pool_inv_lease new)
qed

lemma pool_inv_cancel: "pool_inv p \<Longrightarrow> v < nwt p \<Longrightarrow> pool_inv (fst (cancel b v p))"
  by (auto simp: cancel_def intro: pool_inv_remove)

lemma pool_inv_next_top:
  assumes "pool_inv p" and "w < nwk p"
  shows "pool_inv (fst (next_top w p))"
  using assms
  by (auto simp: next_top_def pool_inv_def proj_simps simp del: fun_upd_apply
      intro: closed_ok_slots split: option.splits)

lemma pool_inv_wake: "pool_inv p \<Longrightarrow> pool_inv (upd_wk w (\<lambda>x. x\<lparr>wake := b\<rparr>) p)"
  by (auto simp: pool_inv_def proj_simps simp del: fun_upd_apply)

lemma pool_inv_next_select: "pool_inv p \<Longrightarrow> w < nwk p \<Longrightarrow> pool_inv (fst (next_select w ev p))"
  using pool_inv_takeIdle [of p w w_checking] pool_inv_takeIdle [of p w w_expiring]
  by (cases ev) (auto simp: pool_inv_wake split: prod.splits)

text \<open>\<open>Stop\<close> empties the waiting list; the flag it sets first does not matter to the loop.\<close>

lemma removeLocked_stopping:
  "removeLocked v (p\<lparr>stopping := b\<rparr>) = (removeLocked v p)\<lparr>stopping := b\<rparr>"
  by (simp add: removeLocked_def)

lemma stop_waiters_stopping:
  "stop_waiters vs (p\<lparr>stopping := b\<rparr>) = (stop_waiters vs p)\<lparr>stopping := b\<rparr>"
proof (induction vs arbitrary: p)
  case (Cons v vs)
  have "removeLocked v (p\<lparr>stopping := b, waitCanceled := waitCanceled p + 1\<rparr>)
      = (removeLocked v (p\<lparr>waitCanceled := waitCanceled p + 1\<rparr>))\<lparr>stopping := b\<rparr>"
    by (simp add: removeLocked_def)
  with Cons show ?case by simp
qed simp

lemma stop_waiters_sel [simp]:
  "workers (stop_waiters vs p) = workers p" "idle_list (stop_waiters vs p) = idle_list p"
  "nwk (stop_waiters vs p) = nwk p" "wk (stop_waiters vs p) = wk p"
  "nwt (stop_waiters vs p) = nwt p" "stopping (stop_waiters vs p) = stopping p"
  by (induction vs arbitrary: p) (simp_all add: removeLocked_sel)

lemma stop_waiters_inv:
  "pool_inv p \<Longrightarrow> pool_inv (stop_waiters (waiting p) p) \<and> waiting (stop_waiters (waiting p) p) = []"
proof (induction "waiting p" arbitrary: p)
  case Nil
  then show ?case by (simp flip: Nil.hyps)
next
  case (Cons v vs)
  let ?p = "removeLocked v (p\<lparr>waitCanceled := waitCanceled p + 1\<rparr>)"
  have q: "waiting p = v # vs" using Cons by simp
  then have v: "v < nwt p" using Cons.prems pool_inv_waiting [of p v] by auto
  with Cons.prems pool_inv_remove [of "p\<lparr>waitCanceled := waitCanceled p + 1\<rparr>" v]
  have 1: "pool_inv ?p" by simp
  moreover have 2: "vs = waiting ?p"
    using Cons.prems q waiting_removeLocked [of "p\<lparr>waitCanceled := waitCanceled p + 1\<rparr>" v vs] by simp
  ultimately show ?case using Cons.hyps(1) [OF 2 1] q by simp
qed

lemma pool_inv_Stop_locked: "pool_inv p \<Longrightarrow> pool_inv (fst (Stop_locked p))"
  using stop_waiters_inv [of p]
  by (auto simp: Stop_locked_def stop_waiters_stopping pool_inv_def)

lemma Closed_sel [simp]:
  "nwk (fst (Closed w p)) = nwk p" "stopping (fst (Closed w p)) = stopping p"
  "waiting (fst (Closed w p)) = waiting p" "nwt (fst (Closed w p)) = nwt p"
  "wt (fst (Closed w p)) = wt p" "pending (fst (Closed w p)) = pending p"
  "pendingMax (fst (Closed w p)) = pendingMax p"
  by (auto simp: Closed_def Let_def notify_def)

lemma pool_inv_close_workers:
  "pool_inv p \<Longrightarrow> \<forall>w \<in> set ws. w < nwk p \<Longrightarrow> pool_inv (fst (close_workers ws p))"
proof (induction ws arbitrary: p)
  case (Cons w ws)
  then have "pool_inv (fst (Closed w p))" by (simp add: pool_inv_Closed)
  with Cons show ?case by (simp add: split_beta)
qed simp

lemma pool_inv_workers: "pool_inv p \<Longrightarrow> w \<in> set (workers p) \<longleftrightarrow> w < nwk p \<and> state (wk p w) \<noteq> w_closed"
  by (auto simp: pool_inv_def reg_ok_def)

lemma pool_inv_Stop: "pool_inv p \<Longrightarrow> pool_inv (fst (Stop p))"
  using pool_inv_Stop_locked [of p]
  by (auto simp: Stop_def split_beta Stop_locked_def pool_inv_workers stop_waiters_stopping
      intro!: pool_inv_close_workers)

lemma pool_inv_Force: "pool_inv p \<Longrightarrow> pool_inv (fst (Force p))"
  by (auto simp: Force_def pool_inv_workers intro: pool_inv_close_workers)

lemma nwk_match [simp]: "nwk (fst (match_loop lk w vs ex p)) = nwk p"
  by (induction lk w vs ex p rule: match_loop.induct)
    (simp_all add: pushIdleLocked_def lease_to_def notify_def)

lemma nwk_Idle_locked [simp]: "nwk (fst (Idle_locked now lk r w p)) = nwk p"
  by (simp add: Idle_locked_def Let_def matchLocked_def split_beta)

lemma pool_inv_Idle:
  assumes "pool_inv p" and "w < nwk p" and "state (wk p w) \<noteq> w_idle"
  shows "pool_inv (fst (Idle now lk r w p))"
proof -
  obtain p1 ex oc where i: "Idle_locked now lk r w p = (p1, ex, oc)"
    by (cases "Idle_locked now lk r w p")
  with assms have "pool_inv p1" "w < nwk p1"
    using pool_inv_Idle_locked [of p w now lk r] nwk_Idle_locked [of now lk r w p] by auto
  then show ?thesis
    using pool_inv_Closed [of p1 w] by (simp add: Idle_def i split_beta split: outcome.split)
qed

end
