(* ===== verification/Pool_Spec.thy ===== *)
theory Pool_Spec
  imports Pool_Inv
begin

text \<open>
  What the pool promises, as an abstract machine: a set of idle connection IDs and a first-in
  first-out queue of visitors with their deadlines. A visitor goes to the idle connection with the
  greatest ID (the newest), or waits if there is none and the queue has room; a connection that
  comes back takes the first visitor still worth serving. The critical sections of the pool are
  shown to implement these operations through the abstraction \<open>abs_pool\<close>.
\<close>

subsection \<open>The abstract machine\<close>

record apool =
  a_idle :: "u64 set"
  a_queue :: "(nat \<times> instant) list"
  a_stop :: bool
  a_cap :: int

datatype dispatched = Refused error | Served u64 | Queued

definition a_dispatch :: "error option \<Rightarrow> instant \<Rightarrow> nat \<Rightarrow> instant \<Rightarrow> apool \<Rightarrow> apool \<times> dispatched" where
  "a_dispatch cerr now tcp deadline a =
     (if a_stop a then (a, Refused ErrStopped)
      else if cerr \<noteq> None then (a, Refused (the cerr))
      else if now \<ge> deadline then (a, Refused ErrExpired)
      else if a_queue a = [] \<and> a_idle a \<noteq> {}
      then (a\<lparr>a_idle := a_idle a - {Max (a_idle a)}\<rparr>, Served (Max (a_idle a)))
      else if int (length (a_queue a)) \<ge> a_cap a then (a, Refused ErrFull)
      else (a\<lparr>a_queue := a_queue a @ [(tcp, deadline)]\<rparr>, Queued))"

text \<open>
  A connection comes back: visitors at the head of the queue that are cancelled or late (as the
  looks say) are closed, the first other one is served; with none left the connection is idle.
\<close>

fun a_match :: "look list \<Rightarrow> (nat \<times> instant) list \<Rightarrow> nat list \<times> nat option \<times> (nat \<times> instant) list" where
  "a_match (l # ls) ((t, d) # q) =
     (if ctx_err l \<or> clock l \<ge> d
      then (case a_match ls q of (ex, s, q') \<Rightarrow> (t # ex, s, q'))
      else ([], Some t, q))"
| "a_match _ q = ([], None, q)"

definition a_return :: "look list \<Rightarrow> u64 \<Rightarrow> apool \<Rightarrow> apool \<times> nat list \<times> nat option" where
  "a_return ls cid a =
     (case a_match ls (a_queue a) of (ex, s, q) \<Rightarrow>
        (a\<lparr>a_queue := q, a_idle := (if s = None then insert cid (a_idle a) else a_idle a)\<rparr>, ex, s))"

subsection \<open>The abstraction\<close>

definition abs_pool :: "pool \<Rightarrow> apool" where
  "abs_pool p =
     \<lparr>a_idle = (\<lambda>w. ID (wk p w)) ` set (idle_list p),
      a_queue = map (\<lambda>v. (vtcp (wt p v), vdeadline (wt p v))) (waiting p),
      a_stop = stopping p, a_cap = pendingMax p\<rparr>"

lemma abs_pool_sel [simp]:
  "a_idle (abs_pool p) = (\<lambda>w. ID (wk p w)) ` set (idle_list p)"
  "a_queue (abs_pool p) = map (\<lambda>v. (vtcp (wt p v), vdeadline (wt p v))) (waiting p)"
  "a_stop (abs_pool p) = stopping p" "a_cap (abs_pool p) = pendingMax p"
  by (simp_all add: abs_pool_def)

lemma abs_pool_upd [simp]:
  "ID (f (wk p w)) = ID (wk p w) \<Longrightarrow> abs_pool (upd_wk w f p) = abs_pool p"
  "abs_pool (dropLocked b p) = abs_pool p"
  by (auto simp: abs_pool_def)

lemma ID_upd_wk [simp]: "ID (f (wk p w)) = ID (wk p w) \<Longrightarrow> ID (wk (upd_wk w f p) v) = ID (wk p v)"
  by simp

subsection \<open>Dispatch\<close>

lemma last_idle_Max:
  assumes "pool_inv p" and "idle_list p \<noteq> []"
  shows "Max ((\<lambda>w. ID (wk p w)) ` set (idle_list p)) = ID (wk p (last (idle_list p)))"
proof (rule Max_eqI)
  fix y assume "y \<in> (\<lambda>w. ID (wk p w)) ` set (idle_list p)"
  then obtain v where v: "v \<in> set (idle_list p)" "y = ID (wk p v)" by auto
  have "idle_ok (nwk p) (\<lambda>w. state (wk p w)) (\<lambda>w. elem (wk p w)) (\<lambda>w. ID (wk p w)) (idle_list p)"
    using assms by (simp add: pool_inv_def)
  from idle_ok_last [OF this, of v] v this
  show "y \<le> ID (wk p (last (idle_list p)))"
    by (cases "v = last (idle_list p)") (auto simp: idle_ok_def)
qed (use assms in auto)

lemma idle_list_ids_inj: "pool_inv p \<Longrightarrow> inj_on (\<lambda>w. ID (wk p w)) (set (idle_list p))"
  by (auto simp: pool_inv_def idle_ok_def intro: inj_on_subset)

lemma idle_list_elem: "pool_inv p \<Longrightarrow> w \<in> set (idle_list p) \<Longrightarrow> elem (wk p w)"
  by (auto simp: pool_inv_def idle_ok_def)

lemma idle_list_distinct: "pool_inv p \<Longrightarrow> distinct (idle_list p)"
  by (auto simp: pool_inv_def dest: idle_ok_distinct)

lemma lease_to_sel [simp]:
  "idle_list (lease_to w t p) = idle_list p" "waiting (lease_to w t p) = waiting p"
  "stopping (lease_to w t p) = stopping p" "pendingMax (lease_to w t p) = pendingMax p"
  "wt (lease_to w t p) = wt p" "nwk (lease_to w t p) = nwk p" "nwt (lease_to w t p) = nwt p"
  "workers (lease_to w t p) = workers p" "pending (lease_to w t p) = pending p"
  "waitTimeouts (lease_to w t p) = waitTimeouts p" "waitCanceled (lease_to w t p) = waitCanceled p"
  "wk (lease_to w t p) = (wk p)(w := (wk p w)\<lparr>state := w_leased, mailbox := Some t,
     business := Some t, wake := True\<rparr>)"
  by (auto simp: lease_to_def notify_def)

lemma pending_length: "pool_inv p \<Longrightarrow> pending p = int (length (waiting p))"
  by (simp add: pool_inv_def wait_ok_def)

lemma abs_lease_last:
  assumes "pool_inv p" and "idle_list p \<noteq> []" and "w = last (idle_list p)"
  shows "abs_pool (lease_to w t (unlinkLocked w p))
    = (abs_pool p)\<lparr>a_idle := a_idle (abs_pool p) - {ID (wk p w)}\<rparr>"
proof -
  have w: "w \<in> set (idle_list p)" using assms by simp
  have "(\<lambda>v. ID (wk p v)) ` (set (idle_list p) - {w})
      = (\<lambda>v. ID (wk p v)) ` set (idle_list p) - {ID (wk p w)}"
    using idle_list_ids_inj [OF assms(1)] w by (simp add: inj_on_image_set_diff)
  moreover have "ID (wk (lease_to w t (unlinkLocked w p)) v) = ID (wk p v)" for v by simp
  ultimately show ?thesis
    using idle_list_elem [OF assms(1) w] idle_list_distinct [OF assms(1)]
    by (simp add: abs_pool_def)
qed

text \<open>
  How the result of \<open>Dispatch\<close> reads: an error means refused (the socket was closed), a waiter means
  queued, neither means that a worker has the visitor in its mailbox.
\<close>

definition dispatch_result ::
    "nat \<Rightarrow> pool \<times> effect list \<times> error option \<times> nat option \<Rightarrow> dispatched \<Rightarrow> bool" where
  "dispatch_result tcp r d =
     (case (r, d) of
        ((p', eff, Some e, None), Refused e') \<Rightarrow> e = e' \<and> eff = [CloseTCP tcp]
      | ((p', eff, None, None), Served cid) \<Rightarrow>
          eff = [] \<and> (\<exists>w < nwk p'. ID (wk p' w) = cid \<and> state (wk p' w) = w_leased
            \<and> mailbox (wk p' w) = Some tcp \<and> business (wk p' w) = Some tcp \<and> wake (wk p' w))
      | ((p', eff, None, Some v), Queued) \<Rightarrow>
          eff = [] \<and> last (waiting p') = v \<and> vtcp (wt p' v) = tcp \<and> is_waiting (wt p' v)
      | _ \<Rightarrow> False)"

lemma Dispatch_simulates:
  assumes "pool_inv p"
  shows "abs_pool (fst (Dispatch cerr now t d p)) = fst (a_dispatch cerr now t d (abs_pool p))
    \<and> dispatch_result t (Dispatch cerr now t d p) (snd (a_dispatch cerr now t d (abs_pool p)))"
proof (cases "\<not> stopping p \<and> cerr = None \<and> now < d")
  case False
  then show ?thesis
    by (auto simp: Dispatch_def a_dispatch_def Let_def dispatch_result_def)
next
  case ok: True
  show ?thesis
  proof (cases "waiting p = [] \<and> idle_list p \<noteq> []")
    case True
    let ?w = "last (idle_list p)"
    have "?w < nwk p" using pool_inv_idle_last [OF assms] True by blast
    with ok True show ?thesis
      using abs_lease_last [OF assms, of ?w t] last_idle_Max [OF assms]
      by (auto simp: Dispatch_def a_dispatch_def Let_def dispatch_result_def intro!: exI [of _ ?w])
  next
    case False
    have "nwt p \<notin> set (waiting p)" using pool_inv_waiting [OF assms] by blast
    with ok False show ?thesis
      using pending_length [OF assms]
      by (auto simp: Dispatch_def a_dispatch_def Let_def dispatch_result_def abs_pool_def)
  qed
qed

subsection \<open>A connection coming back\<close>

text \<open>What \<open>match_loop\<close> leaves of the worker: \<open>Some t\<close> when it serves visitor \<open>t\<close>.\<close>

definition worker_result :: "nat \<Rightarrow> nat option \<Rightarrow> pool \<Rightarrow> bool" where
  "worker_result w s p =
     (case s of
        None \<Rightarrow> state (wk p w) = w_idle \<and> w \<in> set (idle_list p)
      | Some t \<Rightarrow> state (wk p w) = w_leased \<and> mailbox (wk p w) = Some t
          \<and> business (wk p w) = Some t \<and> wake (wk p w))"

lemma abs_push: "abs_pool (pushIdleLocked w p)
    = (abs_pool p)\<lparr>a_idle := insert (ID (wk p w)) (a_idle (abs_pool p))\<rparr>"
  by (auto simp: pushIdleLocked_def abs_pool_def image_iff)

lemma abs_lease_busy: "abs_pool (lease_to w t p) = abs_pool p"
  by (auto simp: abs_pool_def)

lemma abs_remove:
  assumes "pool_inv p" and "waiting p = v # vs"
  shows "abs_pool (removeLocked v p) = (abs_pool p)\<lparr>a_queue := tl (a_queue (abs_pool p))\<rparr>"
  using waiting_removeLocked [OF assms] assms(2) by (simp add: abs_pool_def)

lemma match_simulates:
  assumes "pool_inv p" and "w < nwk p" and "state (wk p w) \<notin> {w_closed, w_idle}"
    and "a_return (map lk (waiting p)) (ID (wk p w)) (abs_pool p) = (a', ex', s)"
    and "match_loop lk w (waiting p) ex p = (p', cl)"
  shows "abs_pool p' = a' \<and> cl = ex @ ex' \<and> worker_result w s p'"
  using assms
proof (induction "waiting p" arbitrary: p ex a' ex')
  case Nil
  then show ?case
    by (auto simp: a_return_def worker_result_def abs_push abs_pool_def pushIdleLocked_def
        simp flip: Nil.hyps)
next
  case (Cons v vs)
  let ?q = "dropLocked (ctx_err2 (lk v)) p"
  have q: "waiting p = v # vs" using Cons.hyps(2) by simp
  then have "v \<in> set (waiting p)" by simp
  then have v: "v < nwt p" using pool_inv_waiting [OF Cons.prems(1)] by blast
  show ?case
  proof (cases "ctx_err (lk v) \<or> \<not> clock (lk v) < vdeadline (wt p v)")
    case True
    let ?p = "removeLocked v ?q"
    have i: "pool_inv ?p" using Cons.prems(1) v by (intro pool_inv_remove) auto
    have wq: "waiting ?p = vs" using waiting_removeLocked [of ?q v vs] Cons.prems(1) q by simp
    have wr: "waiting (removeLocked v p) = vs"
      using Cons.prems(1) q by (rule waiting_removeLocked)
    have a: "abs_pool ?p = (abs_pool p)\<lparr>a_queue := tl (a_queue (abs_pool p))\<rparr>"
      using abs_remove [of ?q v vs] Cons.prems(1) q by simp
    obtain ex1 where ex1: "ex' = vtcp (wt p v) # ex1"
      and r: "a_return (map lk vs) (ID (wk p w)) (abs_pool ?p) = (a', ex1, s)"
      using Cons.prems(4) True
      by (auto simp: a_return_def q a linorder_not_less split: prod.splits if_splits)
    have "match_loop lk w (waiting ?p) (ex @ [vtcp (wt p v)]) ?p = (p', cl)"
      using Cons.prems(5) True by (simp add: q wr)
    from Cons.hyps(1) [OF wq [symmetric] i _ _ _ this, of a' ex1] Cons.prems r ex1
    show ?thesis by (simp add: wr)
  next
    case False
    then show ?thesis
      using Cons.prems abs_remove [OF Cons.prems(1) q]
      by (auto simp: q a_return_def worker_result_def abs_lease_busy linorder_not_less)
  qed
qed

lemma Idle_simulates:
  assumes "pool_inv p" and "w < nwk p" and "state (wk p w) \<notin> {w_closed, w_idle}"
    and "\<not> stopping p" and "now < dies (wk p w)"
    and "a_return (map lk (waiting p)) (ID (wk p w)) (abs_pool p) = (a', ex, s)"
  shows "\<exists>p'. Idle now lk r w p = (p', map CloseTCP ex, Ready) \<and> abs_pool p' = a' \<and> worker_result w s p'"
proof -
  let ?p1 = "upd_wk w (\<lambda>x. x\<lparr>business := None\<rparr>) p"
  let ?p2 = "if state (wk ?p1 w) \<noteq> w_checking
    then upd_wk w (\<lambda>x. x\<lparr>expires := after now (IdleTimeout (opts x)) (IdleJitter (opts x)) r\<rparr>) ?p1
    else ?p1"
  have i1: "pool_inv ?p1" using assms by (intro pool_inv_upd) auto
  then have i2: "pool_inv ?p2" using assms(2,3) pool_inv_upd [of ?p1 w] by auto
  have a: "abs_pool ?p2 = abs_pool p" "waiting ?p2 = waiting p" "ID (wk ?p2 w) = ID (wk p w)"
    "state (wk ?p2 w) = state (wk p w)" "nwk ?p2 = nwk p" by auto
  obtain p3 cl where m: "match_loop lk w (waiting ?p2) [] ?p2 = (p3, cl)"
    by (cases "match_loop lk w (waiting ?p2) [] ?p2")
  have "abs_pool p3 = a' \<and> cl = [] @ ex \<and> worker_result w s p3"
    using match_simulates [OF i2 _ _ _ m, of a' ex s] assms a by simp
  moreover have "Idle now lk r w p = (p3, map CloseTCP cl, Ready)"
    using assms m by (simp add: Idle_def Idle_locked_def Let_def matchLocked_def)
  ultimately show ?thesis by simp
qed

end
