(* ===== verification/Pool_Props.thy ===== *)
theory Pool_Props
  imports Pool_Spec
begin

text \<open>
  Properties of the pool's methods: the refinement of the abstract machine, what \<open>Stop\<close> and
  \<open>Force\<close> leave behind, the deadlines of a connection, and the statistics. Each is followed by an
  application to a concrete pool.
\<close>

subsection \<open>A concrete pool\<close>

text \<open>
  Two connections with IDs 9 and 7 register and become idle, in this order; a third, ID 8, is
  registering; room for one visitor in the queue.
\<close>

definition demo_opts :: options where
  "demo_opts = \<lparr>Heartbeat = 15, IdleTimeout = 300, IdleJitter = 30, MaxLifetime = 3600,
     LifetimeJitter = 360\<rparr>"

definition demo_look :: "nat \<Rightarrow> look" where
  "demo_look _ = \<lparr>ctx_err = False, clock = 20, ctx_err2 = False\<rparr>"

definition demo_reg :: pool where
  "demo_reg = fst (Register 8 demo_opts 2 0 (fst (Register 7 demo_opts 1 100
     (fst (Register 9 demo_opts 0 50 (new_pool 1))))))"

definition demo_idle :: pool where
  "demo_idle = fst (Idle 4 demo_look 12 1 (fst (Idle 3 demo_look 11 0 demo_reg)))"

text \<open>Then one visitor is served by connection 9; with 7 checked and 9 busy, another one queues.\<close>

definition demo_busy :: pool where
  "demo_busy = fst (Dispatch None 5 100 50 demo_idle)"

definition demo_queue :: pool where
  "demo_queue = fst (Dispatch None 6 101 60 (fst (takeIdleLocked 1 w_checking demo_busy)))"

lemma demo_reg_inv: "pool_inv demo_reg" and demo_reg_nwk: "nwk demo_reg = 3"
proof -
  let ?p1 = "fst (Register 9 demo_opts 0 50 (new_pool 1))"
  let ?p2 = "fst (Register 7 demo_opts 1 100 ?p1)"
  have 1: "pool_inv ?p1" by (rule pool_inv_Register [OF pool_inv_new]) (simp add: new_pool_def)
  have 2: "pool_inv ?p2"
    by (rule pool_inv_Register [OF 1]) (auto simp: Register_def new_pool_def Let_def less_Suc_eq lessThan_Suc)
  show "pool_inv demo_reg"
    unfolding demo_reg_def
    by (rule pool_inv_Register [OF 2]) (auto simp: Register_def new_pool_def Let_def less_Suc_eq lessThan_Suc)
  show "nwk demo_reg = 3" by (simp add: demo_reg_def Register_def new_pool_def Let_def)
qed

lemma demo_idle_inv: "pool_inv demo_idle"
  unfolding demo_idle_def
proof (rule pool_inv_Idle, rule pool_inv_Idle [OF demo_reg_inv])
  show "0 < nwk demo_reg" "1 < nwk (fst (Idle 3 demo_look 11 0 demo_reg))" by code_simp+
  show "state (wk demo_reg 0) \<noteq> w_idle"
    "state (wk (fst (Idle 3 demo_look 11 0 demo_reg)) 1) \<noteq> w_idle" by code_simp+
qed

lemma demo_busy_inv: "pool_inv demo_busy"
  unfolding demo_busy_def by (rule pool_inv_Dispatch [OF demo_idle_inv])

lemma demo_queue_inv: "pool_inv demo_queue"
  unfolding demo_queue_def
  by (rule pool_inv_Dispatch, rule pool_inv_takeIdle [OF demo_busy_inv]) (code_simp, simp_all)

subsection \<open>Refinement\<close>

text \<open>
  C25. \<open>Dispatch\<close> implements the abstract pool: it refuses (and closes the visitor's socket) exactly
  when the abstract operation does and with the same error, otherwise it serves the visitor with
  the idle connection of the greatest ID, by putting it into that worker's mailbox and waking the
  worker, or appends it to the queue; and the state it leaves abstracts to the abstract result.
\<close>

theorem Dispatch_refines:
  assumes "pool_inv p"
  shows "abs_pool (fst (Dispatch cerr now t d p)) = fst (a_dispatch cerr now t d (abs_pool p))
    \<and> dispatch_result t (Dispatch cerr now t d p) (snd (a_dispatch cerr now t d (abs_pool p)))"
  by (rule Dispatch_simulates [OF assms])

theorem Dispatch_refines_witness:
  "snd (a_dispatch None 5 100 50 (abs_pool demo_idle)) = Served 9
    \<and> dispatch_result 100 (Dispatch None 5 100 50 demo_idle) (Served 9)"
proof -
  have s: "snd (a_dispatch None 5 100 50 (abs_pool demo_idle)) = Served 9" by code_simp
  with Dispatch_refines [OF demo_idle_inv, of None 5 100 50] show ?thesis by simp
qed

text \<open>
  C26. A live connection that comes back with \<open>Idle\<close> implements the abstract return: the visitors at
  the head of the queue whose context is done or whose deadline has passed are closed, in order;
  the first other visitor is handed to this connection; and if there is none the connection joins
  the idle ones. Nobody overtakes an earlier visitor that is still waiting.
\<close>

theorem Idle_refines:
  assumes "pool_inv p" and "w < nwk p" and "state (wk p w) \<notin> {w_closed, w_idle}"
    and "\<not> stopping p" and "now < dies (wk p w)"
    and "a_return (map lk (waiting p)) (ID (wk p w)) (abs_pool p) = (a', ex, s)"
  shows "\<exists>p'. Idle now lk r w p = (p', map CloseTCP ex, Ready) \<and> abs_pool p' = a' \<and> worker_result w s p'"
  by (rule Idle_simulates [OF assms])

theorem Idle_refines_witness:
  "\<exists>p'. Idle 20 demo_look 0 1 demo_queue = (p', [], Ready)
    \<and> a_queue (abs_pool p') = [] \<and> worker_result 1 (Some 101) p'"
proof -
  obtain a' where r: "a_return (map demo_look (waiting demo_queue)) (ID (wk demo_queue 1))
      (abs_pool demo_queue) = (a', [], Some 101)" and q: "a_queue a' = []"
  proof
    show "a_return (map demo_look (waiting demo_queue)) (ID (wk demo_queue 1)) (abs_pool demo_queue)
      = (abs_pool demo_queue\<lparr>a_queue := []\<rparr>, [], Some 101)" by code_simp
  qed simp
  have "1 < nwk demo_queue" "state (wk demo_queue 1) \<notin> {w_closed, w_idle}"
    "\<not> stopping demo_queue" "20 < dies (wk demo_queue 1)" by code_simp+
  from Idle_refines [OF demo_queue_inv this r, of 0] q show ?thesis by force
qed

subsection \<open>Shutdown\<close>

lemma Closed_state:
  "state (wk (fst (Closed w p)) v) = (if v = w then w_closed else state (wk p v))"
  by (auto simp: Closed_def Let_def notify_def)

lemma Closed_again: "Closed w (fst (Closed w p)) = (fst (Closed w p), [])"
  using Closed_state [of w p w] by (simp add: Closed_def [of w "fst (Closed w p)"])

lemma close_workers_state:
  "state (wk (fst (close_workers ws p)) v) = (if v \<in> set ws then w_closed else state (wk p v))"
  by (induction ws arbitrary: p) (auto simp: split_beta Closed_state)

lemma Closed_closes: "state (wk p w) \<noteq> w_closed \<Longrightarrow> CloseConn w \<in> set (snd (Closed w p))"
  by (simp add: Closed_def Let_def)

lemma close_workers_closes:
  "w \<in> set ws \<Longrightarrow> state (wk p w) \<noteq> w_closed \<Longrightarrow> CloseConn w \<in> set (snd (close_workers ws p))"
proof (induction ws arbitrary: p)
  case (Cons u ws)
  then show ?case
    by (cases "w = u") (auto simp: split_beta Closed_closes Closed_state)
qed simp

lemma close_workers_sel [simp]:
  "nwk (fst (close_workers ws p)) = nwk p" "stopping (fst (close_workers ws p)) = stopping p"
  "waiting (fst (close_workers ws p)) = waiting p" "pending (fst (close_workers ws p)) = pending p"
  "waitCanceled (fst (close_workers ws p)) = waitCanceled p"
  "waitTimeouts (fst (close_workers ws p)) = waitTimeouts p"
  by (induction ws arbitrary: p) (auto simp: split_beta Closed_def Let_def notify_def)

lemma stop_waiters_canceled:
  "waitCanceled (stop_waiters vs p) = waitCanceled p + of_nat (length vs)"
  "waitTimeouts (stop_waiters vs p) = waitTimeouts p"
  by (induction vs arbitrary: p) auto

text \<open>
  \<open>Stop\<close>, the first time, closes every queued visitor and counts it as cancelled, closes every
  connection that is not carrying a visitor (idle, in a heartbeat, registering, expiring), leaves
  the leased and releasing ones alone, and from then on the pool queues nobody.
\<close>

theorem Stop_drains:
  assumes "pool_inv p" and "\<not> stopping p" and "Stop p = (p', eff)"
  shows "stopping p' \<and> waiting p' = [] \<and> pending p' = 0
    \<and> waitCanceled p' = waitCanceled p + of_nat (length (waiting p))
    \<and> waitTimeouts p' = waitTimeouts p
    \<and> (\<forall>v \<in> set (waiting p). CloseTCP (vtcp (wt p v)) \<in> set eff)
    \<and> (\<forall>w < nwk p. if state (wk p w) \<in> {w_leased, w_releasing, w_closed}
         then state (wk p' w) = state (wk p w)
         else state (wk p' w) = w_closed \<and> CloseConn w \<in> set eff)"
proof -
  let ?ws = "filter (\<lambda>w. state (wk p w) \<in> {w_idle, w_checking, w_registering, w_expiring}) (workers p)"
  let ?p1 = "stop_waiters (waiting p) (p\<lparr>stopping := True\<rparr>)"
  have p': "p' = fst (close_workers ?ws ?p1)"
    and eff: "eff = map (\<lambda>v. CloseTCP (vtcp (wt p v))) (waiting p) @ snd (close_workers ?ws ?p1)"
    using assms(2,3) by (auto simp: Stop_def Stop_locked_def split_beta comp_def)
  have i: "pool_inv p'" using assms pool_inv_Stop [of p] by simp
  have w: "waiting p' = []"
    using stop_waiters_inv [OF assms(1)] by (simp add: p' stop_waiters_stopping)
  with i have "pending p' = 0" by (simp add: pool_inv_def wait_ok_def)
  moreover have "state (wk p' u) = (if u \<in> set ?ws then w_closed else state (wk p u))" for u
    unfolding p' close_workers_state by auto
  moreover have "u \<in> set ?ws \<longleftrightarrow> state (wk p u) \<notin> {w_leased, w_releasing, w_closed}" if "u < nwk p" for u
    using that assms(1) by (cases "state (wk p u)") (auto simp: pool_inv_workers)
  moreover have "CloseConn u \<in> set eff" if "u \<in> set ?ws" for u
    using that by (auto simp: eff intro!: close_workers_closes)
  ultimately show ?thesis
    using w by (auto simp: p' eff stop_waiters_canceled)
qed

text \<open>
  \<open>Force\<close> closes every registered connection, whatever it is doing: none is left in the pool,
  each one's socket is closed, and closing any of them again has no effect.
\<close>

theorem Force_empties:
  assumes "pool_inv p" and "Force p = (p', eff)"
  shows "Count p' = 0 \<and> (\<forall>w \<in> set (workers p). CloseConn w \<in> set eff \<and> Closed w p' = (p', []))"
proof -
  have p': "p' = fst (close_workers (workers p) p)" and eff: "eff = snd (close_workers (workers p) p)"
    using assms(2) by (auto simp: Force_def)
  have i: "pool_inv p'" using assms pool_inv_Force [of p] by simp
  have c: "state (wk p' w) = w_closed" if "w < nwk p" for w
    using that assms(1) by (auto simp: p' close_workers_state pool_inv_workers)
  have "w \<notin> set (workers p')" for w
    using c i pool_inv_workers [OF i, of w] by (auto simp: p')
  then have "workers p' = []" by (metis list.set_intros(1) list.exhaust)
  moreover have "CloseConn w \<in> set eff" if "w \<in> set (workers p)" for w
    using that assms(1) by (auto simp: eff pool_inv_workers intro: close_workers_closes)
  moreover have "Closed w p' = (p', [])" if "w \<in> set (workers p)" for w
    using that c assms(1) by (simp add: Closed_def pool_inv_workers)
  ultimately show ?thesis by (simp add: Count_def)
qed

subsection \<open>Deadlines\<close>

lemma jitter_bounds: "0 \<le> jitter d r \<and> jitter d r \<le> max 0 d"
  using pos_mod_bound [of "d + 1" r] by (auto simp: jitter_def)

lemma after_bounds:
  "0 < base \<Longrightarrow> now + base \<le> after now base spread r \<and> after now base spread r \<le> now + base + max 0 spread"
  using jitter_bounds [of spread r] by (auto simp: after_def)

lemma match_loop_times [simp]:
  "expires (wk (fst (match_loop lk w vs ex p)) v) = expires (wk p v)"
  "dies (wk (fst (match_loop lk w vs ex p)) v) = dies (wk p v)"
  "opts (wk (fst (match_loop lk w vs ex p)) v) = opts (wk p v)"
  by (induction lk w vs ex p rule: match_loop.induct)
    (simp_all add: pushIdleLocked_def lease_to_def notify_def)

text \<open>
  The deadlines of a connection. Its lifetime deadline is set at registration, between
  \<open>MaxLifetime\<close> and \<open>MaxLifetime + LifetimeJitter\<close> later; once it has passed, \<open>Idle\<close> answers
  \<open>Expired\<close> and takes the connection out of service. Before that, coming back from registration or
  a lease restarts the idle deadline within \<open>IdleTimeout\<close> and \<open>IdleTimeout + IdleJitter\<close>, but coming
  back from a heartbeat leaves it as it was: heartbeats never keep an unused connection alive.
\<close>

theorem connection_deadlines:
  assumes "\<not> stopping p"
  shows "(case Register cid os now r p of
      (p', Inr w) \<Rightarrow> MaxLifetime os > 0 \<longrightarrow>
        dies (wk p' w) \<in> {now + MaxLifetime os .. now + MaxLifetime os + max 0 (LifetimeJitter os)}
    | _ \<Rightarrow> False)
    \<and> (case Idle now lk r w p of (p', eff, oc) \<Rightarrow>
        dies (wk p' w) = dies (wk p w)
        \<and> (state (wk p w) \<noteq> w_closed \<longrightarrow>
            (if now < dies (wk p w)
             then oc = Ready
               \<and> (state (wk p w) = w_checking \<longrightarrow> expires (wk p' w) = expires (wk p w))
               \<and> (state (wk p w) \<noteq> w_checking \<and> IdleTimeout (opts (wk p w)) > 0 \<longrightarrow>
                   expires (wk p' w) \<in> {now + IdleTimeout (opts (wk p w)) ..
                     now + IdleTimeout (opts (wk p w)) + max 0 (IdleJitter (opts (wk p w)))})
             else oc = Expired \<and> state (wk p' w) = w_expiring)))"
  using assms after_bounds [of "MaxLifetime os" now "LifetimeJitter os" r]
    after_bounds [of "IdleTimeout (opts (wk p w))" now "IdleJitter (opts (wk p w))" r]
  by (auto simp: Register_def Idle_def Idle_locked_def Let_def matchLocked_def split_beta Closed_def)

subsection \<open>Statistics\<close>

definition count_state :: "pool \<Rightarrow> wstate \<Rightarrow> nat" where
  "count_state p s = length (filter (\<lambda>w. state (wk p w) = s) (workers p))"

lemma fold_stats_add:
  "fold (\<lambda>w. stats_add (f w)) ws s =
    s\<lparr>s_Registering := s_Registering s + length (filter (\<lambda>w. f w = w_registering) ws),
      s_Idle := s_Idle s + length (filter (\<lambda>w. f w = w_idle) ws),
      s_Leased := s_Leased s + length (filter (\<lambda>w. f w = w_leased) ws),
      s_Releasing := s_Releasing s + length (filter (\<lambda>w. f w = w_releasing) ws),
      s_Checking := s_Checking s + length (filter (\<lambda>w. f w = w_checking) ws),
      s_Expiring := s_Expiring s + length (filter (\<lambda>w. f w = w_expiring) ws)\<rparr>"
proof (induction ws arbitrary: s)
  case (Cons w ws)
  then show ?case by (cases "f w") simp_all
qed simp

lemma length_by_state:
  "length ws = length (filter (\<lambda>w. f w = w_registering) ws) + length (filter (\<lambda>w. f w = w_idle) ws)
    + length (filter (\<lambda>w. f w = w_leased) ws) + length (filter (\<lambda>w. f w = w_releasing) ws)
    + length (filter (\<lambda>w. f w = w_checking) ws) + length (filter (\<lambda>w. f w = w_expiring) ws)
    + length (filter (\<lambda>w. f w = w_closed) ws)"
proof (induction ws)
  case (Cons w ws)
  then show ?case by (cases "f w") simp_all
qed simp

text \<open>
  A snapshot of the pool is consistent: the six per-state counts add up to the number of
  registered connections, the idle count is the length of the idle list, and the reported number
  of pending visitors is the length of the queue and within the configured capacity.
\<close>

theorem Stats_consistent:
  assumes "pool_inv p"
  shows "s_Registering (Stats p) + s_Idle (Stats p) + s_Leased (Stats p) + s_Releasing (Stats p)
      + s_Checking (Stats p) + s_Expiring (Stats p) = Count p
    \<and> s_Idle (Stats p) = length (idle_list p)
    \<and> s_Pending (Stats p) = int (length (waiting p)) \<and> s_Pending (Stats p) \<le> max 0 (pendingMax p)"
proof -
  have "filter (\<lambda>w. state (wk p w) = w_closed) (workers p) = []"
    using assms by (auto simp: filter_empty_conv pool_inv_workers)
  moreover have "length (filter (\<lambda>w. state (wk p w) = w_idle) (workers p)) = length (idle_list p)"
  proof -
    have "set (filter (\<lambda>w. state (wk p w) = w_idle) (workers p)) = set (idle_list p)"
      "distinct (filter (\<lambda>w. state (wk p w) = w_idle) (workers p))"
      using assms by (auto simp: pool_inv_def reg_ok_def idle_ok_def)
    then show ?thesis using idle_list_distinct [OF assms] by (metis distinct_card)
  qed
  ultimately show ?thesis
    using assms length_by_state [of "workers p" "\<lambda>w. state (wk p w)"]
    by (auto simp: Stats_def fold_stats_add Count_def pool_inv_def wait_ok_def)
qed

theorem Stats_consistent_witness:
  "s_Registering (Stats demo_queue) + s_Idle (Stats demo_queue) + s_Leased (Stats demo_queue)
      + s_Releasing (Stats demo_queue) + s_Checking (Stats demo_queue) + s_Expiring (Stats demo_queue) = 3
    \<and> s_Pending (Stats demo_queue) = 1"
proof -
  have "Count demo_queue = 3" "length (waiting demo_queue) = 1" by code_simp+
  with Stats_consistent [OF demo_queue_inv] show ?thesis by simp
qed

theorem Stop_drains_witness:
  "CloseTCP 101 \<in> set (snd (Stop demo_queue)) \<and> waiting (fst (Stop demo_queue)) = []
    \<and> state (wk (fst (Stop demo_queue)) 0) = w_leased
    \<and> state (wk (fst (Stop demo_queue)) 1) = w_closed"
proof -
  have e: "\<not> stopping demo_queue" "waiting demo_queue = [0]" "vtcp (wt demo_queue 0) = 101"
    "nwk demo_queue = 3" "state (wk demo_queue 0) = w_leased" "state (wk demo_queue 1) = w_checking"
    by code_simp+
  then show ?thesis
    using Stop_drains [OF demo_queue_inv e(1), of "fst (Stop demo_queue)" "snd (Stop demo_queue)"]
    by (auto dest!: spec [of _ "0::nat"] spec [of _ "1::nat"])
qed

theorem Force_empties_witness:
  "Count (fst (Force demo_queue)) = 0 \<and> CloseConn 0 \<in> set (snd (Force demo_queue))"
proof -
  have "workers demo_queue = [2, 1, 0]" by code_simp
  then show ?thesis
    using Force_empties [OF demo_queue_inv, of "fst (Force demo_queue)" "snd (Force demo_queue)"]
    by simp
qed

theorem connection_deadlines_witness:
  "dies (wk (fst (Register 5 demo_opts 20 7 demo_queue)) 3) \<in> {3620 .. 3980}
    \<and> (case Idle 20 demo_look 7 1 demo_queue of (p', eff, oc) \<Rightarrow>
        oc = Ready \<and> expires (wk p' 1) = expires (wk demo_queue 1))"
proof -
  have e: "\<not> stopping demo_queue" "nwk demo_queue = 3" "state (wk demo_queue 1) = w_checking"
    "20 < dies (wk demo_queue 1)" "MaxLifetime demo_opts = 3600" "LifetimeJitter demo_opts = 360"
    by code_simp+
  have r: "snd (Register 5 demo_opts 20 7 demo_queue) = Inr 3" using e by (simp add: Register_def Let_def)
  show ?thesis
    using connection_deadlines [OF e(1), where cid = 5 and os = demo_opts and now = 20 and r = 7
      and lk = demo_look and w = 1] e r
    by (cases "Register 5 demo_opts 20 7 demo_queue") (auto simp: split_beta)
qed

end
