(* ===== verification/Pool_System.thy ===== *)
theory Pool_System
  imports Pool_Props "HOL-Library.Multiset"
begin

text \<open>
  The pool under concurrency: any number of worker goroutines (the loop \<open>work\<close> of
  \<^verbatim>\<open>server/worker.go\<close>, reduced to the points where it calls the pool), visitors being dispatched,
  cancellations, \<open>Stop\<close> and \<open>Force\<close>, interleaved in any order at the granularity of the pool's
  critical sections. The invariant gives: the data invariant in every reachable state; every
  visitor is in exactly one place until its socket is closed; no wakeup is lost; and at shutdown
  every connection that is not carrying a visitor is closed.
\<close>

subsection \<open>States and steps\<close>

text \<open>
  Where a worker goroutine is: registered and waiting for READY; about to call \<open>Idle\<close>; at the top of
  the loop of \<open>Next\<close>; blocked in its \<^verbatim>\<open>select\<close>; serving a visitor; in a heartbeat; about to call
  \<open>Closed\<close>; finished.
\<close>

datatype wpc = PReg | PIdle | PNext | PWait | PServe nat | PBeat | PQuit | PDone

text \<open>
  \<open>seen\<close>: sockets given to \<open>Dispatch\<close>; \<open>gone\<close>: sockets closed; \<open>obl\<close>: workers that \<open>Stop\<close> or \<open>Force\<close>
  collected and still has to close, one critical section each; \<open>dls\<close>: the deadline of a call of \<open>Next\<close>
  that has read it.
\<close>

record psys =
  pl :: pool
  pc :: "nat \<Rightarrow> wpc"
  seen :: "nat set"
  gone :: "nat set"
  obl :: "nat set"
  dls :: "nat \<Rightarrow> instant option"

definition tcps :: "effect list \<Rightarrow> nat set" where
  "tcps eff = {t. CloseTCP t \<in> set eff}"

definition psys_start :: "psys \<Rightarrow> bool" where
  "psys_start s \<longleftrightarrow> (\<exists>k. pl s = new_pool k) \<and> seen s = {} \<and> obl s = {}"

fun after_idle :: "outcome \<Rightarrow> wpc" where
  "after_idle Ready = PNext"
| "after_idle _ = PQuit"

fun after_top :: "(nat option \<times> outcome) option \<Rightarrow> wpc" where
  "after_top None = PWait"
| "after_top (Some (Some t, _)) = PServe t"
| "after_top (Some (None, _)) = PQuit"

fun after_select :: "(nat option \<times> outcome) option \<Rightarrow> wpc" where
  "after_select None = PNext"
| "after_select (Some (_, Check)) = PBeat"
| "after_select (Some (_, _)) = PQuit"

fun after_dl :: "instant \<Rightarrow> (nat option \<times> outcome) option \<Rightarrow> instant option" where
  "after_dl d None = Some d"
| "after_dl d (Some _) = None"

text \<open>The worker calls \<open>Next\<close> with \<^verbatim>\<open>context.Background()\<close>, which is never done.\<close>

inductive pstep :: "psys \<Rightarrow> psys \<Rightarrow> bool" where
  register: "cid \<notin> (\<lambda>w. ID (wk (pl s) w)) ` {..<nwk (pl s)} \<Longrightarrow>
    Register cid os now r (pl s) = (p', Inr w) \<Longrightarrow>
    pstep s (s\<lparr>pl := p', pc := (pc s)(w := PReg), dls := (dls s)(w := None)\<rparr>)"
| reg_done: "w < nwk (pl s) \<Longrightarrow> pc s w = PReg \<Longrightarrow> c \<in> {PIdle, PQuit} \<Longrightarrow>
    pstep s (s\<lparr>pc := (pc s)(w := c)\<rparr>)"
| idle_call: "w < nwk (pl s) \<Longrightarrow> pc s w = PIdle \<Longrightarrow>
    Idle_locked now lk r w (pl s) = (p', ex, oc) \<Longrightarrow>
    pstep s (s\<lparr>pl := p', pc := (pc s)(w := after_idle oc), gone := gone s \<union> set ex\<rparr>)"
| enter: "w < nwk (pl s) \<Longrightarrow> pc s w = PNext \<Longrightarrow> dls s w = None \<Longrightarrow>
    pstep s (s\<lparr>dls := (dls s)(w := Some (next_deadline w (pl s)))\<rparr>)"
| look: "w < nwk (pl s) \<Longrightarrow> pc s w = PNext \<Longrightarrow> dls s w = Some d \<Longrightarrow> next_top w (pl s) = (p', res) \<Longrightarrow>
    pstep s (s\<lparr>pl := p', pc := (pc s)(w := after_top res), dls := (dls s)(w := after_dl d res)\<rparr>)"
| event: "w < nwk (pl s) \<Longrightarrow> pc s w = PWait \<Longrightarrow> dls s w = Some d \<Longrightarrow> ev \<noteq> CtxDone \<Longrightarrow>
    next_enabled w d (pl s) ev \<Longrightarrow> next_select w ev (pl s) = (p', res) \<Longrightarrow>
    pstep s (s\<lparr>pl := p', pc := (pc s)(w := after_select res), dls := (dls s)(w := after_dl d res)\<rparr>)"
| releasing: "w < nwk (pl s) \<Longrightarrow> pc s w = PServe t \<Longrightarrow> pstep s (s\<lparr>pl := Releasing w (pl s)\<rparr>)"
| hang_up: "w < nwk (pl s) \<Longrightarrow> pc s w = PServe t \<Longrightarrow> pstep s (s\<lparr>gone := insert t (gone s)\<rparr>)"
| served: "w < nwk (pl s) \<Longrightarrow> pc s w = PServe t \<Longrightarrow> c \<in> {PIdle, PQuit} \<Longrightarrow>
    pstep s (s\<lparr>pc := (pc s)(w := c), gone := insert t (gone s)\<rparr>)"
| beat: "w < nwk (pl s) \<Longrightarrow> pc s w = PBeat \<Longrightarrow> c \<in> {PIdle, PQuit} \<Longrightarrow>
    pstep s (s\<lparr>pc := (pc s)(w := c)\<rparr>)"
| quit: "w < nwk (pl s) \<Longrightarrow> pc s w = PQuit \<Longrightarrow> Closed w (pl s) = (p', eff) \<Longrightarrow>
    pstep s (s\<lparr>pl := p', pc := (pc s)(w := PDone), gone := gone s \<union> tcps eff\<rparr>)"
| dispatch: "t \<notin> seen s \<Longrightarrow> Dispatch cerr now t dl (pl s) = (p', eff, err, res) \<Longrightarrow>
    pstep s (s\<lparr>pl := p', seen := insert t (seen s), gone := gone s \<union> tcps eff\<rparr>)"
| cancelled: "v < nwt (pl s) \<Longrightarrow> cancel b v (pl s) = (p', eff) \<Longrightarrow>
    pstep s (s\<lparr>pl := p', gone := gone s \<union> tcps eff\<rparr>)"
| stop: "Stop_locked (pl s) = (p', ts, ws) \<Longrightarrow>
    pstep s (s\<lparr>pl := p', gone := gone s \<union> set ts, obl := obl s \<union> set ws\<rparr>)"
| force: "stopping (pl s) \<Longrightarrow> pstep s (s\<lparr>obl := obl s \<union> set (workers (pl s))\<rparr>)"
| closer: "w \<in> obl s \<Longrightarrow> w < nwk (pl s) \<Longrightarrow> Closed w (pl s) = (p', eff) \<Longrightarrow>
    pstep s (s\<lparr>pl := p', gone := gone s \<union> tcps eff, obl := obl s - {w}\<rparr>)"

abbreviation preach :: "psys \<Rightarrow> bool" where
  "preach \<equiv> reach psys_start pstep"

subsection \<open>The places a visitor can be\<close>

fun mail :: "nat option \<Rightarrow> nat multiset" where
  "mail None = {#}"
| "mail (Some t) = {#t#}"

fun serving :: "wpc \<Rightarrow> nat multiset" where
  "serving (PServe t) = {#t#}"
| "serving _ = {#}"

definition queued :: "pool \<Rightarrow> nat multiset" where
  "queued p = mset (map (\<lambda>v. vtcp (wt p v)) (waiting p))"

text \<open>Every visitor in the queue, in a mailbox or being served, with multiplicity.\<close>

definition held :: "psys \<Rightarrow> nat multiset" where
  "held s = queued (pl s) + (\<Sum>w < nwk (pl s). mail (mailbox (wk (pl s) w)) + serving (pc s w))"

subsection \<open>The invariant\<close>

text \<open>How the state of a worker object agrees with where its goroutine is.\<close>

fun pc_ok :: "wpc \<Rightarrow> worker \<Rightarrow> bool" where
  "pc_ok PReg x = (state x \<in> {w_registering, w_closed} \<and> mailbox x = None)"
| "pc_ok PIdle x = (state x \<noteq> w_idle \<and> mailbox x = None)"
| "pc_ok PNext x = (state x \<in> {w_idle, w_leased, w_closed} \<and> (mailbox x \<noteq> None \<longleftrightarrow> state x = w_leased))"
| "pc_ok PWait x = (state x \<in> {w_idle, w_leased, w_closed} \<and> (mailbox x \<noteq> None \<longleftrightarrow> state x = w_leased)
     \<and> (state x \<noteq> w_idle \<longrightarrow> wake x))"
| "pc_ok (PServe t) x = (state x \<in> {w_leased, w_releasing, w_closed} \<and> mailbox x = None)"
| "pc_ok PBeat x = (state x \<in> {w_checking, w_closed} \<and> mailbox x = None)"
| "pc_ok PQuit x = (mailbox x \<noteq> None \<longrightarrow> state x = w_leased)"
| "pc_ok PDone x = (state x = w_closed)"

definition busy_states :: "wstate set" where
  "busy_states = {w_leased, w_releasing, w_closed}"

text \<open>
  The visitors: none is in two places (\<open>H\<close>, with multiplicity), those held were dispatched, and
  those dispatched are held or closed.
\<close>

definition own_ok :: "nat multiset \<Rightarrow> nat set \<Rightarrow> nat set \<Rightarrow> bool" where
  "own_ok H sn gn \<longleftrightarrow> (\<forall>t. count H t \<le> 1) \<and> set_mset H \<subseteq> sn \<and> sn \<subseteq> gn \<union> set_mset H"

definition psys_inv :: "psys \<Rightarrow> bool" where
  "psys_inv s \<longleftrightarrow>
     pool_inv (pl s)
     \<and> (\<forall>w < nwk (pl s). pc_ok (pc s w) (wk (pl s) w))
     \<and> (stopping (pl s) \<longrightarrow> (\<forall>w < nwk (pl s). state (wk (pl s) w) \<notin> busy_states \<longrightarrow> w \<in> obl s))
     \<and> own_ok (held s) (seen s) (gone s)"

lemma psys_inv_dls [simp]: "psys_inv (s\<lparr>dls := x\<rparr>) \<longleftrightarrow> psys_inv s"
  by (simp add: psys_inv_def held_def)

lemma psys_inv_start: "psys_start s \<Longrightarrow> psys_inv s"
  by (auto simp: psys_start_def psys_inv_def own_ok_def pool_inv_new held_def queued_def)
    (simp_all add: new_pool_def)

lemma own_ok_drop:
  assumes "own_ok (H + C) sn gn" and "gn \<union> set_mset C \<subseteq> gn'"
  shows "own_ok H sn gn'"
proof -
  have "count H t \<le> 1" for t
    using assms(1) by (auto simp: own_ok_def) (metis add_leD1)
  with assms show ?thesis by (auto simp: own_ok_def)
qed

lemma own_ok_add:
  assumes "own_ok H sn gn" and "t \<notin> sn"
  shows "own_ok (add_mset t H) (insert t sn) gn"
proof -
  have "count H t = 0" using assms by (auto simp: own_ok_def count_eq_zero_iff)
  with assms show ?thesis by (auto simp: own_ok_def)
qed

lemma own_ok_refuse: "own_ok H sn gn \<Longrightarrow> own_ok H (insert t sn) (insert t gn)"
  by (auto simp: own_ok_def)

lemma sum_upd_split:
  fixes f :: "nat \<Rightarrow> 'a multiset"
  assumes "w < n"
  shows "(\<Sum>v < n. if v = w then a else f v) + f w = (\<Sum>v < n. f v) + a"
proof -
  have "(\<Sum>v < n. if v = w then a else f v) = a + (\<Sum>v \<in> {..<n} - {w}. f v)"
    using assms by (subst sum.remove [of _ w]) (auto intro: sum.cong)
  moreover have "(\<Sum>v < n. f v) = f w + (\<Sum>v \<in> {..<n} - {w}. f v)"
    using assms by (subst sum.remove [of _ w]) auto
  ultimately show ?thesis by (simp add: ac_simps)
qed

subsection \<open>What each critical section moves\<close>

text \<open>Only worker \<open>w\<close> may differ, and the pool is stopping in \<open>q\<close> as in \<open>p\<close>.\<close>

definition only :: "nat \<Rightarrow> pool \<Rightarrow> pool \<Rightarrow> bool" where
  "only w p q \<longleftrightarrow> nwk q = nwk p \<and> stopping q = stopping p \<and> (\<forall>v. v \<noteq> w \<longrightarrow> wk q v = wk p v)"

lemma only_trans: "only w p q \<Longrightarrow> only w q r \<Longrightarrow> only w p r"
  by (auto simp: only_def)

lemma only_upd [simp]: "only w p (upd_wk w f p)" "only w p (unlinkLocked w p)"
  "only w p (removeLocked v p)" "only w p (dropLocked b p)" "only w p p"
  "only w p (lease_to w t p)" "only w p (pushIdleLocked w p)"
  by (auto simp: only_def pushIdleLocked_def)

lemma queued_sel [simp]:
  "queued (upd_wk w f p) = queued p" "queued (unlinkLocked w p) = queued p"
  "queued (dropLocked b p) = queued p" "queued (lease_to w t p) = queued p"
  "queued (pushIdleLocked w p) = queued p" "queued (p\<lparr>waitCanceled := k\<rparr>) = queued p"
  by (simp_all add: queued_def pushIdleLocked_def)

lemma queued_remove:
  assumes "pool_inv p" and "v \<in> set (waiting p)"
  shows "queued (removeLocked v p) + {#vtcp (wt p v)#} = queued p"
proof -
  have "is_waiting (wt p v)" using assms pool_inv_waiting by blast
  then have "waiting (removeLocked v p) = remove1 v (waiting p)" by (simp add: removeLocked_def)
  moreover have "mset (map f (remove1 v vs)) + {#f v#} = mset (map f vs)" if "v \<in> set vs"
    for f :: "nat \<Rightarrow> nat" and vs
    using that by (induction vs) auto
  ultimately show ?thesis using assms(2) by (simp add: queued_def)
qed

lemma match_moves:
  assumes "pool_inv p" and "w < nwk p" and "state (wk p w) \<notin> {w_closed, w_idle}"
    and "mailbox (wk p w) = None" and "match_loop lk w (waiting p) ex p = (p', ex')"
  shows "only w p p' \<and> (\<exists>d. ex' = ex @ d \<and> queued p' + mail (mailbox (wk p' w)) + mset d = queued p)
    \<and> pc_ok PNext (wk p' w) \<and> state (wk p' w) \<noteq> w_closed"
  using assms
proof (induction "waiting p" arbitrary: p ex)
  case Nil
  then show ?case
    by (auto simp: pushIdleLocked_def simp flip: Nil.hyps intro: exI [of _ "[]"])
      (simp_all add: only_def queued_def flip: Nil.hyps)
next
  case (Cons v vs)
  let ?q = "dropLocked (ctx_err2 (lk v)) p"
  have q: "waiting p = v # vs" using Cons.hyps(2) by simp
  then have vin: "v \<in> set (waiting p)" by simp
  then have v: "v < nwt p" using pool_inv_waiting [OF Cons.prems(1)] by blast
  show ?case
  proof (cases "ctx_err (lk v) \<or> \<not> clock (lk v) < vdeadline (wt p v)")
    case True
    let ?p = "removeLocked v ?q"
    have i: "pool_inv ?p" using Cons.prems(1) v by (intro pool_inv_remove) auto
    have wq: "vs = waiting ?p" using waiting_removeLocked [of ?q v vs] Cons.prems(1) q by simp
    have m: "match_loop lk w (waiting ?p) (ex @ [vtcp (wt p v)]) ?p = (p', ex')"
      using Cons.prems(5) True q wq by simp
    have k: "queued ?p + {#vtcp (wt p v)#} = queued p"
      using queued_remove [of ?q v] Cons.prems(1) vin by simp
    have o: "only w p ?p" by (simp add: only_def)
    from Cons.hyps(1) [OF wq i _ _ _ m] Cons.prems
    obtain d where "ex' = (ex @ [vtcp (wt p v)]) @ d" "only w ?p p'"
      "queued p' + mail (mailbox (wk p' w)) + mset d = queued ?p"
      "pc_ok PNext (wk p' w)" "state (wk p' w) \<noteq> w_closed" by auto
    with k o only_trans show ?thesis
      by (intro conjI exI [of _ "vtcp (wt p v) # d"]) auto
  next
    case False
    have "queued (removeLocked v p) + {#vtcp (wt p v)#} = queued p"
      using queued_remove Cons.prems(1) vin by blast
    moreover have "only w p (lease_to w (vtcp (wt p v)) (removeLocked v p))" by (simp add: only_def)
    ultimately show ?thesis using Cons.prems(5) False by (auto simp: q)
  qed
qed

lemma Idle_locked_moves:
  assumes "pool_inv p" and "w < nwk p" and "pc_ok PIdle (wk p w)"
    and "Idle_locked now lk r w p = (p', ex, oc)"
  shows "only w p p' \<and> queued p' + mail (mailbox (wk p' w)) + mset ex = queued p
    \<and> pc_ok (after_idle oc) (wk p' w) \<and> (stopping p \<longrightarrow> state (wk p' w) = state (wk p w))"
proof (cases "stopping p \<or> state (wk p w) = w_closed \<or> \<not> now < dies (wk p w)")
  case True
  with assms show ?thesis
    by (auto simp: Idle_locked_def Let_def only_def split: if_splits)
next
  case False
  define p1 where "p1 = upd_wk w (\<lambda>x. x\<lparr>business := None\<rparr>) p"
  define p2 where "p2 = (if state (wk p1 w) \<noteq> w_checking
    then upd_wk w (\<lambda>x. x\<lparr>expires := after now (IdleTimeout (opts x)) (IdleJitter (opts x)) r\<rparr>) p1
    else p1)"
  have s: "state (wk p w) \<notin> {w_closed, w_idle}" using assms(3) False by auto
  have i1: "pool_inv p1" using assms s unfolding p1_def by (intro pool_inv_upd) auto
  have s1: "nwk p1 = nwk p" "state (wk p1 w) = state (wk p w)" by (simp_all add: p1_def)
  have i2: "pool_inv p2" using assms(2) i1 s s1 pool_inv_upd [of p1 w] by (auto simp: p2_def)
  have a: "queued p2 = queued p" "mailbox (wk p2 w) = None"
    "state (wk p2 w) = state (wk p w)" "nwk p2 = nwk p" "only w p p2"
    using assms(3) by (auto simp: only_def p2_def p1_def)
  have m: "match_loop lk w (waiting p2) [] p2 = (p', ex)" "oc = Ready"
    using assms(4) False
    by (auto simp: Idle_locked_def Let_def matchLocked_def p2_def p1_def split: prod.splits if_splits)
  have w: "w < nwk p2" "state (wk p2 w) \<notin> {w_closed, w_idle}" using s a assms(2) by auto
  from match_moves [OF i2 w a(2) m(1)] a(1) have
    "only w p2 p'" "queued p' + mail (mailbox (wk p' w)) + mset ex = queued p" "pc_ok PNext (wk p' w)"
    by auto
  then show ?thesis using only_trans [OF a(5)] False m(2) by auto
qed

lemma next_top_moves:
  assumes "next_top w p = (p', res)" and "pc_ok PNext (wk p w)"
  shows "only w p p' \<and> queued p' = queued p
    \<and> mail (mailbox (wk p' w)) + serving (after_top res) = mail (mailbox (wk p w))
    \<and> pc_ok (after_top res) (wk p' w) \<and> state (wk p' w) = state (wk p w)"
  using assms by (auto simp: next_top_def split: if_splits option.splits)

lemma next_select_moves:
  assumes "next_select w ev p = (p', res)" and "pc_ok PWait (wk p w)"
  shows "only w p p' \<and> queued p' = queued p \<and> mailbox (wk p' w) = mailbox (wk p w)
    \<and> pc_ok (after_select res) (wk p' w) \<and> serving (after_select res) = {#}
    \<and> (stopping p \<longrightarrow> state (wk p' w) = state (wk p w))"
  using assms
  by (cases ev) (auto simp: takeIdleLocked_def split: if_splits option.splits prod.splits;
      (auto simp: only_def)[])+

lemma Closed_moves:
  assumes "Closed w p = (p', eff)" and "pool_inv p" and "w < nwk p"
  shows "only w p p' \<and> queued p' = queued p \<and> state (wk p' w) = w_closed
    \<and> mailbox (wk p' w) = None \<and> set_mset (mail (mailbox (wk p w))) \<subseteq> tcps eff
    \<and> (state (wk p w) \<noteq> w_closed \<longrightarrow> wake (wk p' w)) \<and> (state (wk p w) = w_closed \<longrightarrow> p' = p)"
proof (cases "state (wk p w) = w_closed")
  case True
  then have "mailbox (wk p w) = None"
    using assms by (auto simp: pool_inv_def closed_ok_def slots_def)
  with True assms show ?thesis by (auto simp: Closed_def)
next
  case False
  have c: "t \<in> tcps (close_opt (Some t) @ e)" for t e by (simp add: tcps_def)
  from False assms show ?thesis
    by (cases "mailbox (wk p w)") (auto simp: Closed_def Let_def notify_def only_def queued_def tcps_def)
qed

lemma pc_ok_closed: "pc_ok c x \<Longrightarrow> state y = w_closed \<Longrightarrow> mailbox y = None \<Longrightarrow> wake y \<Longrightarrow> pc_ok c y"
  by (cases c) auto

lemma pc_ok_idle_mail: "pc_ok c x \<Longrightarrow> state x = w_idle \<Longrightarrow> mailbox x = None \<and> serving c = {#}"
  by (cases c) auto

lemma pc_ok_leased:
  "pc_ok c x \<Longrightarrow> state x = w_idle \<Longrightarrow> state y = w_leased \<Longrightarrow> mailbox y = Some t \<Longrightarrow> wake y \<Longrightarrow> pc_ok c y"
  by (cases c) auto

lemma Dispatch_cases:
  assumes "pool_inv p" and "Dispatch cerr now t dl p = (p', eff, err, res)"
  obtains "p' = p" "eff = [CloseTCP t]"
  | w where "w < nwk p" "state (wk p w) = w_idle" "\<not> stopping p" "eff = []"
      "p' = lease_to w t (unlinkLocked w p)"
  | "eff = []" "\<not> stopping p" "wk p' = wk p" "nwk p' = nwk p" "stopping p' = stopping p"
      "queued p' = add_mset t (queued p)"
proof -
  have "nwt p \<notin> set (waiting p)" using pool_inv_waiting [OF assms(1)] by blast
  then have q: "queued (p\<lparr>wt := (wt p)(nwt p := \<lparr>vtcp = t, vdeadline = dl, is_waiting = True, armed = True\<rparr>),
      nwt := Suc (nwt p), waiting := waiting p @ [nwt p], pending := pending p + 1\<rparr>)
      = add_mset t (queued p)"
    by (auto simp: queued_def intro!: image_mset_cong)
  show ?thesis
    using assms(2) pool_inv_idle_last [OF assms(1)] q
    by (auto simp: Dispatch_def Let_def split: if_splits intro: that(1,3) that(2) [of "last (idle_list p)"])
qed

subsection \<open>The invariant is inductive\<close>

text \<open>
  First the parts of the invariant; then a step that touches at most one worker \<open>w\<close> and its goroutine: the visitors in \<open>C\<close> leave the
  system, all others stay in one place.
\<close>

lemma psys_inv_worker: "psys_inv s \<Longrightarrow> w < nwk (pl s) \<Longrightarrow> pc_ok (pc s w) (wk (pl s) w)"
  and psys_inv_pool: "psys_inv s \<Longrightarrow> pool_inv (pl s)"
  and psys_inv_own: "psys_inv s \<Longrightarrow> own_ok (held s) (seen s) (gone s)"
  by (auto simp: psys_inv_def)

lemma psys_inv_frame:
  assumes inv: "psys_inv s" and w: "w < nwk (pl s)"
    and o: "only w (pl s) (pl t)" and i: "pool_inv (pl t)"
    and c: "pc t = (pc s)(w := c)" and ok: "pc_ok c (wk (pl t) w)"
    and st: "stopping (pl s) \<Longrightarrow> state (wk (pl t) w) \<in> busy_states
      \<or> state (wk (pl t) w) = state (wk (pl s) w) \<and> (w \<in> obl s \<longrightarrow> w \<in> obl t)"
    and ob: "obl s - {w} \<subseteq> obl t" and sn: "seen t = seen s"
    and m: "queued (pl t) + (mail (mailbox (wk (pl t) w)) + serving c) + C
      = queued (pl s) + (mail (mailbox (wk (pl s) w)) + serving (pc s w))"
    and g: "gone s \<union> set_mset C \<subseteq> gone t"
  shows "psys_inv t"
proof -
  let ?f = "\<lambda>v. mail (mailbox (wk (pl s) v)) + serving (pc s v)"
  let ?a = "mail (mailbox (wk (pl t) w)) + serving c"
  have n: "nwk (pl t) = nwk (pl s)" and k: "\<And>v. v \<noteq> w \<Longrightarrow> wk (pl t) v = wk (pl s) v"
    and stop: "stopping (pl t) = stopping (pl s)"
    using o by (auto simp: only_def)
  have "held t = queued (pl t) + (\<Sum>v < nwk (pl s). if v = w then ?a else ?f v)"
    by (auto simp: held_def n c k intro!: sum.cong)
  then have "held t + C + ?f w = held s + ?f w"
    using sum_upd_split [OF w, of ?a ?f] m by (simp add: held_def ac_simps)
  then have h: "held t + C = held s" by simp
  have "own_ok (held t) (seen t) (gone t)"
    using own_ok_drop [OF psys_inv_own [OF inv, folded h] g] by (simp add: sn)
  moreover have "pc_ok (pc t v) (wk (pl t) v)" if "v < nwk (pl t)" for v
    using inv that ok k n c by (cases "v = w") (auto simp: psys_inv_def)
  moreover have "v \<in> obl t"
    if "stopping (pl t)" "v < nwk (pl t)" "state (wk (pl t) v) \<notin> busy_states" for v
  proof (cases "v = w")
    case True
    then show ?thesis using st inv that n stop by (auto simp: psys_inv_def)
  next
    case False
    then show ?thesis using inv that n stop k ob by (auto simp: psys_inv_def)
  qed
  ultimately show ?thesis using i by (simp add: psys_inv_def)
qed

text \<open>The goroutine moves on by itself.\<close>

lemma psys_inv_goroutine:
  assumes "psys_inv s" and "w < nwk (pl s)" and "pc_ok c (wk (pl s) w)"
    and "serving c + C = serving (pc s w)" and "gone s \<union> set_mset C \<subseteq> g"
  shows "psys_inv (s\<lparr>pc := (pc s)(w := c), gone := g\<rparr>)"
  by (rule psys_inv_frame [OF assms(1,2), where c = c and C = C])
    (use assms in \<open>auto simp: psys_inv_def ac_simps\<close>)

lemma psys_inv_dispatch:
  assumes inv: "psys_inv s" and t: "t \<notin> seen s"
    and d: "Dispatch cerr now t dl (pl s) = (p', eff, err, res)"
  shows "psys_inv (s\<lparr>pl := p', seen := insert t (seen s), gone := gone s \<union> tcps eff\<rparr>)"
  using psys_inv_pool [OF inv] d
proof (cases rule: Dispatch_cases)
  case 1
  then show ?thesis
    using inv own_ok_refuse [of "held s" "seen s" "gone s" t]
    by (auto simp: psys_inv_def tcps_def held_def)
next
  case (2 w)
  let ?s = "s\<lparr>pl := p'\<rparr>"
  have i: "pool_inv p'" using pool_inv_Dispatch [OF psys_inv_pool [OF inv]] d by (metis fst_conv)
  have k: "wk p' w = (wk (pl s) w)\<lparr>elem := False, state := w_leased, mailbox := Some t,
      business := Some t, wake := True\<rparr>" and n: "nwk p' = nwk (pl s)" "stopping p' = stopping (pl s)"
    and k': "\<And>v. v \<noteq> w \<Longrightarrow> wk p' v = wk (pl s) v" and q: "queued p' = queued (pl s)"
    using 2 by auto
  note ok = psys_inv_worker [OF inv 2(1)]
  have m: "mailbox (wk (pl s) w) = None" using pc_ok_idle_mail [OF ok 2(2)] by simp
  let ?f = "\<lambda>v. mail (mailbox (wk (pl s) v)) + serving (pc s v)"
  have "held ?s = queued p' + (\<Sum>v < nwk (pl s). if v = w then add_mset t (?f w) else ?f v)"
    by (auto simp: held_def n k k' m intro!: sum.cong)
  then have "held ?s + ?f w = add_mset t (held s) + ?f w"
    using sum_upd_split [OF 2(1), of "add_mset t (?f w)" ?f] q by (simp add: held_def ac_simps)
  then have h: "held ?s = add_mset t (held s)" by simp
  have "pc_ok (pc s v) (wk p' v)" if "v < nwk p'" for v
    using inv that k' n pc_ok_leased [OF ok 2(2), of "wk p' w" t] k
    by (cases "v = w") (auto simp: psys_inv_def)
  then show ?thesis
    using inv own_ok_add [of "held s" "seen s" "gone s" t] t i h n 2(3,4)
    by (auto simp: psys_inv_def tcps_def held_def)
next
  case 3
  have i: "pool_inv p'" using pool_inv_Dispatch [OF psys_inv_pool [OF inv]] d by (metis fst_conv)
  have "held (s\<lparr>pl := p'\<rparr>) = add_mset t (held s)" using 3 by (simp add: held_def)
  then show ?thesis
    using inv own_ok_add [of "held s" "seen s" "gone s" t] t i 3
    by (auto simp: psys_inv_def tcps_def held_def)
qed

lemma psys_inv_closed:
  assumes inv: "psys_inv s" and w: "w < nwk (pl s)" and cl: "Closed w (pl s) = (p', eff)"
    and c: "c = pc s w \<or> c = PDone \<and> serving (pc s w) = {#}"
  shows "psys_inv (s\<lparr>pl := p', pc := (pc s)(w := c), gone := gone s \<union> tcps eff, obl := obl s - {w}\<rparr>)"
    and "psys_inv (s\<lparr>pl := p', pc := (pc s)(w := c), gone := gone s \<union> tcps eff\<rparr>)"
proof -
  note mv = Closed_moves [OF cl psys_inv_pool [OF inv] w]
  have i: "pool_inv p'" using pool_inv_Closed [OF psys_inv_pool [OF inv] w] cl by (metis fst_conv)
  have ok: "pc_ok c (wk p' w)"
    using c mv pc_ok_closed [OF psys_inv_worker [OF inv w], of "wk p' w"] psys_inv_worker [OF inv w]
    by (cases "state (wk (pl s) w) = w_closed") auto
  have sv: "serving c = serving (pc s w)" using c by auto
  show "psys_inv (s\<lparr>pl := p', pc := (pc s)(w := c), gone := gone s \<union> tcps eff, obl := obl s - {w}\<rparr>)"
    and "psys_inv (s\<lparr>pl := p', pc := (pc s)(w := c), gone := gone s \<union> tcps eff\<rparr>)"
    using mv i ok sv
    by (auto intro!: psys_inv_frame [OF inv w, where c = c and C = "mail (mailbox (wk (pl s) w))"]
        simp: busy_states_def ac_simps)
qed

lemma psys_inv_cancel:
  assumes inv: "psys_inv s" and v: "v < nwt (pl s)" and c: "cancel b v (pl s) = (p', eff)"
  shows "psys_inv (s\<lparr>pl := p', gone := gone s \<union> tcps eff\<rparr>)"
proof (cases "is_waiting (wt (pl s) v)")
  case False
  then show ?thesis using c inv by (auto simp: cancel_def psys_inv_def tcps_def held_def)
next
  case True
  note i = psys_inv_pool [OF inv]
  have p': "p' = removeLocked v (dropLocked b (pl s))" and e: "eff = [CloseTCP (vtcp (wt (pl s) v))]"
    using c True by (auto simp: cancel_def)
  have i': "pool_inv p'" using pool_inv_cancel [OF i v] c by (metis fst_conv)
  have "v \<in> set (waiting (pl s))" using pool_inv_waiting [OF i] True v by blast
  then have "queued p' + {#vtcp (wt (pl s) v)#} = queued (pl s)"
    using queued_remove [of "dropLocked b (pl s)" v] i by (simp add: p')
  then have h: "held (s\<lparr>pl := p'\<rparr>) + {#vtcp (wt (pl s) v)#} = held s"
    by (simp add: held_def p' ac_simps)
  have "own_ok (held (s\<lparr>pl := p'\<rparr>)) (seen s) (gone s \<union> tcps eff)"
    using own_ok_drop [OF psys_inv_own [OF inv, folded h], of "gone s \<union> tcps eff"]
    by (auto simp: tcps_def e)
  then show ?thesis using inv i' by (auto simp: psys_inv_def p' held_def)
qed

lemma psys_inv_stop:
  assumes inv: "psys_inv s" and st: "Stop_locked (pl s) = (p', ts, ws)"
  shows "psys_inv (s\<lparr>pl := p', gone := gone s \<union> set ts, obl := obl s \<union> set ws\<rparr>)"
proof (cases "stopping (pl s)")
  case True
  then show ?thesis using st inv by (auto simp: Stop_locked_def psys_inv_def held_def)
next
  case False
  note i = psys_inv_pool [OF inv]
  have i': "pool_inv p'" using pool_inv_Stop_locked [OF i] st by (metis fst_conv)
  have p': "p' = (stop_waiters (waiting (pl s)) (pl s))\<lparr>stopping := True\<rparr>"
    and ts: "mset ts = queued (pl s)"
    and ws: "ws = filter (\<lambda>w. state (wk (pl s) w) \<in> {w_idle, w_checking, w_registering, w_expiring})
      (workers (pl s))"
    using st False by (auto simp: Stop_locked_def stop_waiters_stopping queued_def)
  have "waiting p' = []" using stop_waiters_inv [OF i] by (simp add: p')
  then have h: "held (s\<lparr>pl := p'\<rparr>) + queued (pl s) = held s"
    by (simp add: held_def p' queued_def ac_simps)
  have "own_ok (held (s\<lparr>pl := p'\<rparr>)) (seen s) (gone s \<union> set ts)"
    using own_ok_drop [OF psys_inv_own [OF inv, folded h], of "gone s \<union> set ts"]
    by (simp flip: ts)
  moreover have "w \<in> set ws" if "w < nwk (pl s)" "state (wk (pl s) w) \<notin> busy_states" for w
    using that pool_inv_workers [OF i, of w] by (cases "state (wk (pl s) w)") (auto simp: ws busy_states_def)
  ultimately show ?thesis using inv i' by (auto simp: psys_inv_def p' held_def)
qed

lemma psys_inv_register:
  assumes inv: "psys_inv s" and r: "Register cid os now r (pl s) = (p', Inr w)"
    and n: "cid \<notin> (\<lambda>w. ID (wk (pl s) w)) ` {..<nwk (pl s)}"
  shows "psys_inv (s\<lparr>pl := p', pc := (pc s)(w := PReg)\<rparr>)"
proof -
  note i = psys_inv_pool [OF inv]
  have i': "pool_inv p'" using pool_inv_Register [OF i n] r by (metis fst_conv)
  have w: "w = nwk (pl s)" "nwk p' = Suc w" "waiting p' = waiting (pl s)" "wt p' = wt (pl s)"
    "\<not> stopping p'" "mailbox (wk p' w) = None" "state (wk p' w) = w_registering"
    and k: "\<And>v. v < w \<Longrightarrow> wk p' v = wk (pl s) v"
    using r by (auto simp: Register_def Let_def split: if_splits)
  have "held (s\<lparr>pl := p', pc := (pc s)(w := PReg)\<rparr>) = held s"
    using w k by (auto simp: held_def queued_def intro!: sum.cong)
  moreover have "pc_ok (((pc s)(w := PReg)) v) (wk p' v)" if "v < nwk p'" for v
    using that inv w k by (cases "v = w") (auto simp: psys_inv_def less_Suc_eq)
  ultimately show ?thesis using inv i' w by (simp add: psys_inv_def)
qed

lemma psys_inv_idle_call:
  assumes inv: "psys_inv s" and w: "w < nwk (pl s)" and c: "pc s w = PIdle"
    and r: "Idle_locked now lk r w (pl s) = (p', ex, oc)"
  shows "psys_inv (s\<lparr>pl := p', pc := (pc s)(w := after_idle oc), gone := gone s \<union> set ex\<rparr>)"
proof -
  have ok: "pc_ok PIdle (wk (pl s) w)" using psys_inv_worker [OF inv w] c by simp
  note mv = Idle_locked_moves [OF psys_inv_pool [OF inv] w ok r]
  have i: "pool_inv p'"
    using pool_inv_Idle_locked [OF psys_inv_pool [OF inv] w, of now lk r] ok r by simp
  have "serving (after_idle oc) = {#}" by (cases oc) auto
  then show ?thesis
    using mv i ok c by (auto intro!: psys_inv_frame [OF inv w, where c = "after_idle oc" and C = "mset ex"])
qed

lemma psys_inv_look:
  assumes inv: "psys_inv s" and w: "w < nwk (pl s)" and c: "pc s w = PNext"
    and r: "next_top w (pl s) = (p', res)"
  shows "psys_inv (s\<lparr>pl := p', pc := (pc s)(w := after_top res)\<rparr>)"
proof -
  have ok: "pc_ok PNext (wk (pl s) w)" using psys_inv_worker [OF inv w] c by simp
  have i: "pool_inv p'" using pool_inv_next_top [OF psys_inv_pool [OF inv] w] r by (metis fst_conv)
  show ?thesis
    using next_top_moves [OF r ok] i c
    by (auto intro!: psys_inv_frame [OF inv w, where c = "after_top res" and C = "{#}"])
qed

lemma psys_inv_event:
  assumes inv: "psys_inv s" and w: "w < nwk (pl s)" and c: "pc s w = PWait"
    and r: "next_select w ev (pl s) = (p', res)"
  shows "psys_inv (s\<lparr>pl := p', pc := (pc s)(w := after_select res)\<rparr>)"
proof -
  have ok: "pc_ok PWait (wk (pl s) w)" using psys_inv_worker [OF inv w] c by simp
  have i: "pool_inv p'" using pool_inv_next_select [OF psys_inv_pool [OF inv] w, of ev] r by simp
  show ?thesis
    using next_select_moves [OF r ok] i c
    by (auto intro!: psys_inv_frame [OF inv w, where c = "after_select res" and C = "{#}"])
qed

lemma psys_inv_releasing:
  assumes inv: "psys_inv s" and w: "w < nwk (pl s)" and c: "pc s w = PServe t"
  shows "psys_inv (s\<lparr>pl := Releasing w (pl s)\<rparr>)"
  using psys_inv_worker [OF inv w] c pool_inv_Releasing [OF psys_inv_pool [OF inv] w]
  by (intro psys_inv_frame [OF inv w, where c = "PServe t" and C = "{#}"])
    (auto simp: Releasing_def busy_states_def)

lemma psys_inv_step: assumes "psys_inv s" and "pstep s t" shows "psys_inv t"
  using assms(2)
proof cases
  case (register cid os now r p' w)
  then show ?thesis using psys_inv_register [OF assms(1)] by simp
next
  case (reg_done w c)
  then show ?thesis
    using psys_inv_goroutine [OF assms(1), of w c "{#}" "gone s"] psys_inv_worker [OF assms(1), of w]
    by auto
next
  case (idle_call w now lk r p' ex oc)
  then show ?thesis using psys_inv_idle_call assms(1) by blast
next
  case (enter w)
  then show ?thesis using assms(1) by simp
next
  case (look w d p' res)
  then show ?thesis using psys_inv_look [OF assms(1)] by simp
next
  case (event w d ev p' res)
  then show ?thesis using psys_inv_event [OF assms(1)] by simp
next
  case (releasing w v)
  then show ?thesis using psys_inv_releasing assms(1) by blast
next
  case (hang_up w v)
  then show ?thesis
    using psys_inv_goroutine [OF assms(1), of w "PServe v" "{#}" "insert v (gone s)"]
      psys_inv_worker [OF assms(1), of w] by (auto simp: fun_upd_idem)
next
  case (served w v c)
  then show ?thesis
    using psys_inv_goroutine [OF assms(1), of w c "{#v#}" "insert v (gone s)"]
      psys_inv_worker [OF assms(1), of w] by auto
next
  case (beat w c)
  then show ?thesis
    using psys_inv_goroutine [OF assms(1), of w c "{#}" "gone s"] psys_inv_worker [OF assms(1), of w]
    by auto
next
  case (quit w p' eff)
  then show ?thesis using psys_inv_closed(2) [OF assms(1), of w p' eff PDone] by simp
next
  case (dispatch v cerr now dl p' eff err res)
  then show ?thesis using psys_inv_dispatch assms(1) by blast
next
  case (cancelled v b p' eff)
  then show ?thesis using psys_inv_cancel assms(1) by blast
next
  case (stop p' ts ws)
  then show ?thesis using psys_inv_stop assms(1) by blast
next
  case force
  then show ?thesis using assms(1) by (auto simp: psys_inv_def held_def)
next
  case (closer w p' eff)
  then show ?thesis using psys_inv_closed(1) [OF assms(1), of w p' eff "pc s w"] by simp
qed

interpretation pool_sys: inv_system psys_start pstep psys_inv
  by unfold_locales (auto intro: psys_inv_start psys_inv_step)

subsection \<open>A concrete run\<close>

text \<open>
  A connection registers and becomes idle, its goroutine blocks in \<open>Next\<close>, visitor 100 is
  dispatched to it, and visitor 101 is queued.
\<close>

definition run0 :: psys where
  "run0 = \<lparr>pl = new_pool 1, pc = (\<lambda>_. PDone), seen = {}, gone = {}, obl = {}, dls = (\<lambda>_. None)\<rparr>"

definition run1 :: psys where
  "run1 = run0\<lparr>pl := fst (Register 9 demo_opts 0 50 (pl run0)), pc := (pc run0)(0 := PReg), dls := (dls run0)(0 := None)\<rparr>"

definition run2 :: psys where "run2 = run1\<lparr>pc := (pc run1)(0 := PIdle)\<rparr>"

definition run3 :: psys where
  "run3 = run2\<lparr>pl := fst (Idle_locked 3 demo_look 11 0 (pl run2)), pc := (pc run2)(0 := PNext),
     gone := gone run2 \<union> set []\<rparr>"

definition run3d :: psys where
  "run3d = run3\<lparr>dls := (dls run3)(0 := Some (next_deadline 0 (pl run3)))\<rparr>"

definition run4 :: psys where
  "run4 = run3d\<lparr>pl := fst (next_top 0 (pl run3)), pc := (pc run3d)(0 := PWait),
     dls := (dls run3d)(0 := after_dl (next_deadline 0 (pl run3)) None)\<rparr>"

definition run5 :: psys where
  "run5 = run4\<lparr>pl := fst (Dispatch None 5 100 50 (pl run4)), seen := insert 100 (seen run4),
     gone := gone run4 \<union> tcps []\<rparr>"

definition run6 :: psys where
  "run6 = run5\<lparr>pl := fst (Dispatch None 6 101 60 (pl run5)), seen := insert 101 (seen run5),
     gone := gone run5 \<union> tcps []\<rparr>"

definition run7 :: psys where
  "run7 = run6\<lparr>pl := fst (Stop_locked (pl run6)),
     gone := gone run6 \<union> set (fst (snd (Stop_locked (pl run6)))),
     obl := obl run6 \<union> set (snd (snd (Stop_locked (pl run6))))\<rparr>"

lemmas run_defs = run0_def run1_def run2_def run3_def run3d_def run4_def run5_def run6_def run7_def

lemma run_pl [code]:
  "pl run1 = fst (Register 9 demo_opts 0 50 (new_pool 1))"
  "pl run2 = pl run1" "pl run3 = fst (Idle_locked 3 demo_look 11 0 (pl run2))"
  "pl run4 = fst (next_top 0 (pl run3))" "pl run5 = fst (Dispatch None 5 100 50 (pl run4))"
  "pl run6 = fst (Dispatch None 6 101 60 (pl run5))"
  by (simp_all add: run_defs)

lemma run_nwk: "nwk (pl run1) = 1" "nwk (pl run2) = 1" "nwk (pl run3) = 1" "nwk (pl run4) = 1"
  unfolding run_pl by code_simp+

lemma run_pc: "pc run1 0 = PReg" "pc run2 0 = PIdle" "pc run3 0 = PNext" "pc run4 = (\<lambda>_. PDone)(0 := PWait)"
  by (simp_all add: run_defs)

lemma run_seen: "seen run4 = {}" "seen run5 = {100}" "gone run4 = {}" "obl run4 = {}"
  by (simp_all add: run_defs)

lemma run_d: "dls run3 0 = None" "pl run3d = pl run3" "pc run3d = pc run3" "dls run3d 0 = Some (next_deadline 0 (pl run3))"
  by (simp_all add: run_defs)

lemma run6_reach: "preach run6"
proof -
  have "preach run0" by (rule reach_start) (auto simp: psys_start_def run0_def)
  moreover have "pstep run0 run1"
    unfolding run1_def by (rule pstep.register) (auto simp: run0_def new_pool_def Register_def Let_def)
  moreover have "pstep run1 run2"
    unfolding run2_def by (rule pstep.reg_done) (simp_all add: run_nwk run_pc)
  moreover have "snd (Idle_locked 3 demo_look 11 0 (pl run2)) = ([], Ready)"
    unfolding run_pl by code_simp
  then have "pstep run2 run3"
    using pstep.idle_call [where w = 0 and s = run2 and now = 3 and lk = demo_look and r = 11
        and ex = "[]" and oc = Ready] run_nwk run_pc
    by (cases "Idle_locked 3 demo_look 11 0 (pl run2)") (simp add: run3_def)
  moreover have "snd (next_top 0 (pl run3)) = None" unfolding run_pl by code_simp
  then have "pstep run3d run4"
    using pstep.look [where w = 0 and s = run3d and res = None and d = "next_deadline 0 (pl run3)"] run_nwk run_pc run_d
    by (cases "next_top 0 (pl run3)") (simp add: run4_def)
  moreover have "pstep run3 run3d"
    using pstep.enter [where w = 0 and s = run3] run_nwk run_pc run_d by (simp add: run3d_def)
  moreover have "snd (Dispatch None 5 100 50 (pl run4)) = ([], None, None)"
    unfolding run_pl by code_simp
  then have "pstep run4 run5"
    using pstep.dispatch [where t = 100 and s = run4 and eff = "[]"] run_seen
    by (cases "Dispatch None 5 100 50 (pl run4)") (auto simp: run5_def)
  moreover have "fst (snd (Dispatch None 6 101 60 (pl run5))) = []"
    unfolding run_pl by code_simp
  then have "pstep run5 run6"
    using pstep.dispatch [where t = 101 and s = run5 and eff = "[]"] run_seen
    by (cases "Dispatch None 6 101 60 (pl run5)") (auto simp: run6_def)
  ultimately show ?thesis by (meson reach_step)
qed

lemma run7_reach: "preach run7"
  unfolding run7_def
  by (rule reach_step [OF run6_reach], rule pstep.stop) simp
subsection \<open>Properties\<close>

lemma sum_two_le:
  fixes f :: "nat \<Rightarrow> nat"
  assumes "v < n" and "w < n" and "v \<noteq> w"
  shows "f v + f w \<le> (\<Sum>i < n. f i)"
  using sum_mono2 [of "{..<n}" "{v, w}" f] assms by auto

lemma held_serving:
  assumes "pc s v = PServe t" and "pc s w = PServe t" and "v < nwk (pl s)" and "w < nwk (pl s)"
    and "count (held s) t \<le> 1"
  shows "v = w"
proof (rule ccontr)
  assume "v \<noteq> w"
  let ?f = "\<lambda>i. count (mail (mailbox (wk (pl s) i)) + serving (pc s i)) t"
  have "2 \<le> ?f v + ?f w" using assms(1,2) by simp
  also have "\<dots> \<le> (\<Sum>i < nwk (pl s). ?f i)"
    using assms(3,4) \<open>v \<noteq> w\<close> by (rule sum_two_le)
  also have "\<dots> \<le> count (held s) t" by (simp add: held_def count_sum)
  finally show False using assms(5) by simp
qed

text \<open>
  C1. No visitor is lost and none is served twice. In every reachable state, under every
  interleaving, a visitor that was dispatched and whose socket has not been closed is in exactly
  one place (the queue, one mailbox, or one serving goroutine); no visitor is ever in two places,
  and no two goroutines serve the same one.
\<close>

theorem visitors_in_one_place:
  assumes "preach s"
  shows "count (held s) t \<le> 1
    \<and> (t \<in> seen s \<and> t \<notin> gone s \<longrightarrow> count (held s) t = 1)
    \<and> (t \<notin> seen s \<longrightarrow> count (held s) t = 0)
    \<and> (\<forall>v w. v < nwk (pl s) \<and> w < nwk (pl s) \<and> pc s v = PServe t \<and> pc s w = PServe t \<longrightarrow> v = w)"
proof -
  have o: "own_ok (held s) (seen s) (gone s)"
    using pool_sys.inv_reach [OF assms] by (rule psys_inv_own)
  then have c: "count (held s) t \<le> 1" by (simp add: own_ok_def)
  moreover have "count (held s) t = 1" if "t \<in> seen s" "t \<notin> gone s"
  proof -
    have "t \<in># held s" using o that by (auto simp: own_ok_def)
    then have "count (held s) t \<noteq> 0" by (simp add: count_eq_zero_iff)
    with c show ?thesis by linarith
  qed
  moreover have "count (held s) t = 0" if "t \<notin> seen s"
    using o that by (auto simp: own_ok_def not_in_iff [symmetric])
  ultimately show ?thesis using held_serving [of s _ t] by blast
qed

theorem visitors_in_one_place_witness:
  "count (held run6) 101 = 1 \<and> count (held run6) 100 = 1 \<and> count (held run6) 102 = 0"
proof -
  have "seen run6 = {101, 100}" "gone run6 = {}" by (simp_all add: run_defs tcps_def)
  with visitors_in_one_place [OF run6_reach, of 101] visitors_in_one_place [OF run6_reach, of 100]
    visitors_in_one_place [OF run6_reach, of 102]
  show ?thesis by simp
qed

text \<open>
  C12. The pool is work conserving and fair in every reachable state: while a visitor is queued no
  connection is idle, the queue never exceeds the configured capacity, the idle list holds exactly
  the idle connections in ascending order of ID (so the last is the newest), and an idle or closed
  connection holds no visitor.
\<close>

theorem reachable_pool:
  assumes "preach s"
  shows "(waiting (pl s) = [] \<or> (\<forall>w < nwk (pl s). state (wk (pl s) w) \<noteq> w_idle))
    \<and> int (length (waiting (pl s))) \<le> max 0 (pendingMax (pl s))
    \<and> set (idle_list (pl s)) = {w. w < nwk (pl s) \<and> state (wk (pl s) w) = w_idle}
    \<and> sorted_wrt (<) (map (\<lambda>w. ID (wk (pl s) w)) (idle_list (pl s)))
    \<and> (\<forall>w < nwk (pl s). state (wk (pl s) w) \<in> {w_idle, w_closed} \<longrightarrow> mailbox (wk (pl s) w) = None)"
proof -
  have inv: "psys_inv s" using assms by (rule pool_sys.inv_reach)
  note i = psys_inv_pool [OF inv]
  have il: "set (idle_list (pl s)) = {w. w < nwk (pl s) \<and> state (wk (pl s) w) = w_idle}"
    and "sorted_wrt (<) (map (\<lambda>w. ID (wk (pl s) w)) (idle_list (pl s)))"
    and "int (length (waiting (pl s))) \<le> max 0 (pendingMax (pl s))"
    and "waiting (pl s) = [] \<or> idle_list (pl s) = []"
    using i by (simp_all add: pool_inv_def idle_ok_def wait_ok_def) blast
  moreover have "mailbox (wk (pl s) w) = None"
    if "w < nwk (pl s)" "state (wk (pl s) w) \<in> {w_idle, w_closed}" for w
    using that i pc_ok_idle_mail [OF psys_inv_worker [OF inv that(1)]]
    by (auto simp: pool_inv_def closed_ok_def slots_def)
  moreover have "state (wk (pl s) w) \<noteq> w_idle" if "idle_list (pl s) = []" "w < nwk (pl s)" for w
    using il that by auto
  ultimately show ?thesis by blast
qed

theorem reachable_pool_witness: "state (wk (pl run6) 0) \<noteq> w_idle \<and> length (waiting (pl run6)) = 1"
proof -
  have e: "nwk (pl run6) = 1" "length (waiting (pl run6)) = 1" unfolding run_pl by code_simp+
  then have "waiting (pl run6) \<noteq> []" by force
  with conjunct1 [OF reachable_pool [OF run6_reach]] e show ?thesis by simp
qed

text \<open>
  C13. Shutdown. In every reachable state in which the pool is stopping: the queue is empty, every
  new visitor is refused and its socket closed, and every registered connection that is not
  carrying a visitor has been collected for closing; once the collected ones are closed, only
  leased and releasing connections are left.
\<close>

theorem shutdown_closes:
  assumes "preach s" and "stopping (pl s)"
  shows "waiting (pl s) = []
    \<and> Dispatch cerr now t dl (pl s) = (pl s, [CloseTCP t], Some ErrStopped, None)
    \<and> (\<forall>w \<in> set (workers (pl s)). state (wk (pl s) w) \<in> {w_leased, w_releasing} \<or> w \<in> obl s)
    \<and> (obl s = {} \<longrightarrow> (\<forall>w \<in> set (workers (pl s)). state (wk (pl s) w) \<in> {w_leased, w_releasing}))"
proof -
  have inv: "psys_inv s" using assms(1) by (rule pool_sys.inv_reach)
  have i: "pool_inv (pl s)" using inv by (rule psys_inv_pool)
  have "waiting (pl s) = []" using i assms(2) by (auto simp: pool_inv_def)
  moreover have "\<forall>w \<in> set (workers (pl s)). state (wk (pl s) w) \<in> {w_leased, w_releasing} \<or> w \<in> obl s"
    using inv assms(2) by (auto simp: pool_inv_workers [OF i] psys_inv_def busy_states_def)
  ultimately show ?thesis using assms(2) by (auto simp: Dispatch_def Let_def)
qed

theorem shutdown_closes_witness:
  "waiting (pl run7) = [] \<and> state (wk (pl run7) 0) = w_leased \<and> 101 \<in> gone run7
    \<and> Dispatch None 9 102 90 (pl run7) = (pl run7, [CloseTCP 102], Some ErrStopped, None)"
proof -
  have e: "stopping (fst (Stop_locked (pl run6)))"
    "state (wk (fst (Stop_locked (pl run6))) 0) = w_leased"
    "fst (snd (Stop_locked (pl run6))) = [101]"
    unfolding run_pl by code_simp+
  have s: "stopping (pl run7)" using e by (simp add: run7_def)
  have "101 \<in> gone run7" "state (wk (pl run7) 0) = w_leased" using e by (simp_all add: run7_def)
  with shutdown_closes [OF run7_reach s] show ?thesis by simp
qed

end
