(* ===== verification/Pool_Live.thy ===== *)
theory Pool_Live
  imports Pool_System
begin

text \<open>
  What wakes a goroutine that is blocked in \<open>Next\<close>: along every run in which the scheduler lets a goroutine
  continue that has something to do, it gets the visitor its worker was handed, or learns that the
  worker was closed. A channel that nobody wrote to gives it nothing to do.
\<close>

subsection \<open>Runs\<close>

text \<open>
  Goroutine \<open>w\<close> has something to do at the top of the loop of \<open>Next\<close>, and in its \<^verbatim>\<open>select\<close> when its wake
  channel is full. Timers are not counted on.
\<close>

definition can_go :: "nat \<Rightarrow> psys \<Rightarrow> bool" where
  "can_go w s \<longleftrightarrow> pc s w = PNext \<or> pc s w = PWait \<and> wake (wk (pl s) w)"

definition place :: "nat \<Rightarrow> psys \<Rightarrow> wpc \<times> instant option" where
  "place w s = (pc s w, dls s w)"

definition fair_run :: "nat \<Rightarrow> (nat \<Rightarrow> psys) \<Rightarrow> bool" where
  "fair_run w r \<longleftrightarrow> preach (r 0) \<and> (\<forall>i. r (Suc i) = r i \<or> pstep (r i) (r (Suc i)))
     \<and> (\<forall>i. can_go w (r i) \<longrightarrow> (\<exists>j \<ge> i. place w (r (Suc j)) \<noteq> place w (r j) \<or> \<not> can_go w (r j)))"

lemma fair_run_reach: "fair_run w r \<Longrightarrow> preach (r i)"
proof (induction i)
  case (Suc i)
  then have "r (Suc i) = r i \<or> pstep (r i) (r (Suc i))" by (simp add: fair_run_def)
  with Suc show ?case by (auto intro: reach_step)
qed (simp add: fair_run_def)

text \<open>A run can be fair: a goroutine that has something to do can take a step of its own.\<close>

definition deadlines_read :: "psys \<Rightarrow> bool" where
  "deadlines_read s \<longleftrightarrow> (\<forall>w < nwk (pl s). pc s w = PWait \<longrightarrow> dls s w \<noteq> None)"

lemma match_loop_nwk: "match_loop lk w vs ex p = (p', ex') \<Longrightarrow> nwk p' = nwk p"
  using nwk_match [of lk w vs ex p] by simp

lemma nwk_stop_waiters: "nwk (stop_waiters vs p) = nwk p"
  by (induction vs arbitrary: p) auto

lemma nwk_keeps:
  "next_top w p = (p', res) \<Longrightarrow> nwk p' = nwk p" "next_select w ev p = (p', res) \<Longrightarrow> nwk p' = nwk p"
  "Closed w p = (p', eff) \<Longrightarrow> nwk p' = nwk p" "Idle_locked now lk r w p = (p', ex, oc) \<Longrightarrow> nwk p' = nwk p"
  "Dispatch cerr now t dl p = (p', eff, err, v) \<Longrightarrow> nwk p' = nwk p" "cancel b v' p = (p', eff) \<Longrightarrow> nwk p' = nwk p"
  "Stop_locked p = (p', ts, ws) \<Longrightarrow> nwk p' = nwk p" "nwk (Releasing w p) = nwk p"
  using nwk_stop_waiters
  by (auto dest!: match_loop_nwk simp: next_top_def Closed_def Idle_locked_def Dispatch_def cancel_def Stop_locked_def Releasing_def Let_def
      takeIdleLocked_def notify_def matchLocked_def split: if_splits option.splits prod.splits elim!: next_select.elims)

lemma register_nwk: "Register cid os now r p = (p', Inr w) \<Longrightarrow> w = nwk p \<and> nwk p' = Suc w"
  by (auto simp: Register_def Let_def split: if_splits)

lemma deadlines_read_step: "pstep s t \<Longrightarrow> deadlines_read s \<Longrightarrow> deadlines_read t"
proof (induction rule: pstep.induct)
  case (look w s d p' res)
  then show ?case using nwk_keeps(1) by (cases res rule: after_top.cases) (auto simp: deadlines_read_def)
next
  case (event w s d ev p' res)
  then show ?case using nwk_keeps(2) by (cases res rule: after_select.cases) (auto simp: deadlines_read_def)
next
  case (idle_call w s now lk r p' ex oc)
  then show ?case using nwk_keeps(4) by (cases oc) (auto simp: deadlines_read_def)
next
  case (register cid s os now r p' w)
  then show ?case using register_nwk by (auto simp: deadlines_read_def less_Suc_eq)
qed (auto simp: deadlines_read_def nwk_keeps(8) dest!: nwk_keeps(1-7))

interpretation deadlines: inv_system psys_start pstep deadlines_read
proof
  show "deadlines_read s" if "psys_start s" for s using that by (auto simp: deadlines_read_def psys_start_def new_pool_def)
  show "deadlines_read t" if "deadlines_read s" "pstep s t" for s t using that(2,1) by (rule deadlines_read_step)
qed

lemma can_go_steps:
  assumes "preach s" and "w < nwk (pl s)" and "can_go w s"
  shows "\<exists>t. pstep s t \<and> place w t \<noteq> place w s"
proof (cases "pc s w = PNext")
  case True
  show ?thesis
  proof (cases "dls s w")
    case None
    from pstep.enter [OF assms(2) True None] None show ?thesis by (intro exI conjI) (auto simp: place_def)
  next
    case (Some d)
    obtain p' res where n: "next_top w (pl s) = (p', res)" by fastforce
    from pstep.look [OF assms(2) True Some n] True show ?thesis
      by (intro exI conjI) (assumption, cases res rule: after_top.cases, auto simp: place_def)
  qed
next
  case False
  then have w: "pc s w = PWait" "wake (wk (pl s) w)" using assms(3) by (auto simp: can_go_def)
  then obtain d where d: "dls s w = Some d"
    using deadlines.inv_reach [OF assms(1)] assms(2) by (auto simp: deadlines_read_def)
  have "next_enabled w d (pl s) Wake" using w by simp
  from pstep.event [OF assms(2) w(1) d _ this] w(1) show ?thesis
    by (intro exI conjI) (auto simp: place_def)
qed

subsection \<open>What is owed to a goroutine\<close>

text \<open>
  In \<open>Next\<close>, with \<open>m\<close> (or nothing, when the worker was closed) to come. A worker that is closed with a
  visitor in its mailbox has closed its socket.
\<close>

definition owed :: "nat \<Rightarrow> nat option \<Rightarrow> psys \<Rightarrow> bool" where
  "owed w m s \<longleftrightarrow> w < nwk (pl s) \<and> pc s w \<in> {PNext, PWait}
     \<and> (state (wk (pl s) w) = w_leased \<and> mailbox (wk (pl s) w) = m \<and> m \<noteq> None
        \<or> state (wk (pl s) w) = w_closed \<and> set_option m \<subseteq> gone s)"

definition paid :: "nat \<Rightarrow> nat option \<Rightarrow> psys \<Rightarrow> bool" where
  "paid w m s \<longleftrightarrow> (\<exists>t. m = Some t \<and> pc s w = PServe t) \<or> pc s w = PQuit \<and> set_option m \<subseteq> gone s"

lemma owed_can_go: "psys_inv s \<Longrightarrow> owed w m s \<Longrightarrow> can_go w s"
  using psys_inv_worker [of s w] by (auto simp: owed_def can_go_def)

lemma only_other: "only v p q \<Longrightarrow> w \<noteq> v \<Longrightarrow> wk q w = wk p w \<and> nwk q = nwk p"
  by (simp add: only_def)

text \<open>A step of anybody else keeps what is owed.\<close>

definition kept :: "nat \<Rightarrow> psys \<Rightarrow> psys \<Rightarrow> bool" where
  "kept w s t \<longleftrightarrow> w < nwk (pl t) \<and> gone s \<subseteq> gone t \<and> (wk (pl t) w = wk (pl s) w
     \<or> state (wk (pl t) w) = w_closed \<and> set_option (mailbox (wk (pl s) w)) \<subseteq> gone t)"

lemma kept_owed: "kept w s t \<Longrightarrow> owed w m s \<Longrightarrow> pc t w \<in> {PNext, PWait} \<Longrightarrow> owed w m t"
  by (auto simp: kept_def owed_def)

lemma kept_same: "w < nwk (pl s) \<Longrightarrow> wk (pl t) w = wk (pl s) w \<Longrightarrow> nwk (pl s) \<le> nwk (pl t) \<Longrightarrow> gone s \<subseteq> gone t \<Longrightarrow> kept w s t"
  by (simp add: kept_def)

lemma kept_Closed:
  assumes "psys_inv s" and "w < nwk (pl s)" and "v < nwk (pl s)" and "Closed v (pl s) = (p', eff)"
    and "pl t = p'" and "gone t = gone s \<union> tcps eff"
  shows "kept w s t"
proof -
  note mv = Closed_moves [OF assms(4) psys_inv_pool [OF assms(1)] assms(3)]
  show ?thesis
  proof (cases "w = v")
    case True
    have "set_option (mailbox (wk (pl s) w)) \<subseteq> tcps eff"
      using mv True by (cases "mailbox (wk (pl s) w)") auto
    with mv True assms show ?thesis by (auto simp: kept_def only_def)
  next
    case False
    with mv assms only_other [of v "pl s" p' w] show ?thesis by (intro kept_same) auto
  qed
qed

lemma step_kept:
  assumes inv: "psys_inv s" and st: "pstep s t" and o: "owed w m s" and same: "place w t = place w s"
  shows "kept w s t"
proof -
  have w: "w < nwk (pl s)" "pc s w \<in> {PNext, PWait}" "state (wk (pl s) w) \<in> {w_leased, w_closed}"
    using o by (auto simp: owed_def)
  have pcs: "pc t w = pc s w" "dls t w = dls s w" using same by (auto simp: place_def)
  from st show ?thesis
  proof cases
    case (register cid os now r p' v)
    then have "wk p' w = wk (pl s) w \<and> nwk (pl s) \<le> nwk p'"
      using w(1) by (auto simp: Register_def Let_def split: if_splits)
    with register w show ?thesis by (intro kept_same) auto
  next
    case (idle_call v now lk r p' ex oc)
    then have "w \<noteq> v" using w(2) by auto
    moreover have "pc_ok PIdle (wk (pl s) v)" using psys_inv_worker [OF inv idle_call(2)] idle_call(3) by simp
    then have "only v (pl s) p'" using Idle_locked_moves [OF psys_inv_pool [OF inv] idle_call(2) _ idle_call(4)] by blast
    ultimately show ?thesis using idle_call w only_other [of v "pl s" p' w] by (intro kept_same) auto
  next
    case (enter v)
    then show ?thesis using w by (intro kept_same) auto
  next
    case (look v d p' res)
    have "w \<noteq> v"
    proof
      assume "w = v"
      with look pcs(1) show False by (cases res rule: after_top.cases) auto
    qed
    moreover have "only v (pl s) p'"
      using next_top_moves [OF look(5)] psys_inv_worker [OF inv look(2)] look(3) by simp
    ultimately show ?thesis using look w only_other [of v "pl s" p' w] by (intro kept_same) auto
  next
    case (event v d ev p' res)
    have "w \<noteq> v"
    proof
      assume "w = v"
      with event pcs(1) show False by (cases res rule: after_select.cases) auto
    qed
    moreover have "only v (pl s) p'"
      using next_select_moves [OF event(7)] psys_inv_worker [OF inv event(2)] event(3) by simp
    ultimately show ?thesis using event w only_other [of v "pl s" p' w] by (intro kept_same) auto
  next
    case (releasing v x)
    then have "w \<noteq> v" using w(2) by auto
    with releasing w show ?thesis by (intro kept_same) (auto simp: Releasing_def)
  next
    case (quit v p' eff)
    then show ?thesis using kept_Closed [OF inv w(1) quit(2) quit(4)] by simp
  next
    case (closer v p' eff)
    then show ?thesis using kept_Closed [OF inv w(1) closer(3) closer(4)] by simp
  next
    case (dispatch x cerr now dl p' eff err res)
    have "wk p' w = wk (pl s) w \<and> nwk p' = nwk (pl s)"
      using psys_inv_pool [OF inv] dispatch(3) w(3) by (cases rule: Dispatch_cases) auto
    with dispatch w show ?thesis by (intro kept_same) auto
  next
    case (cancelled v b p' eff)
    then have "wk p' w = wk (pl s) w \<and> nwk p' = nwk (pl s)" by (auto simp: cancel_def split: if_splits)
    with cancelled w show ?thesis by (intro kept_same) auto
  next
    case (stop p' ts ws)
    have "wk p' = wk (pl s) \<and> nwk p' = nwk (pl s)"
      using stop(2) by (auto simp: Stop_locked_def split: if_splits)
    with stop w show ?thesis by (intro kept_same) auto
  qed (use w in \<open>auto intro!: kept_same\<close>)
qed

text \<open>
  A step of its own brings it nearer: from the \<^verbatim>\<open>select\<close> to the top of the loop, from there (once the deadline
  has been read) out of \<open>Next\<close>.
\<close>

definition to_go :: "wpc \<times> instant option \<Rightarrow> nat" where
  "to_go x = (if fst x = PWait then 2 else if snd x = None then 1 else 0)"

lemma step_own:
  assumes inv: "psys_inv s" and st: "pstep s t" and o: "owed w m s" and moved: "place w t \<noteq> place w s"
  shows "paid w m t \<or> owed w m t \<and> to_go (place w t) < to_go (place w s)"
proof -
  have w: "w < nwk (pl s)" "pc s w \<in> {PNext, PWait}" "state (wk (pl s) w) \<in> {w_leased, w_closed}"
    using o by (auto simp: owed_def)
  have ok: "pc_ok (pc s w) (wk (pl s) w)" using psys_inv_worker [OF inv w(1)] .
  have mv: "pc t w \<noteq> pc s w \<or> dls t w \<noteq> dls s w" using moved by (auto simp: place_def)
  from st show ?thesis
  proof cases
    case (register cid os now r p' v)
    then have "v = nwk (pl s)" by (auto simp: Register_def Let_def split: if_splits)
    with register mv w(1) show ?thesis by auto
  next
    case (enter v)
    with mv have "v = w" by (auto split: if_splits)
    with enter o show ?thesis by (auto simp: owed_def to_go_def place_def)
  next
    case (look v d p' res)
    with mv have v: "v = w" by (auto split: if_splits)
    have "paid w m t"
      using look v o ok by (auto simp: next_top_def owed_def paid_def split: option.splits)
    then show ?thesis ..
  next
    case (event v d ev p' res)
    with mv have v: "v = w" by (auto split: if_splits)
    have "res = None \<and> state (wk p' w) = state (wk (pl s) w) \<and> mailbox (wk p' w) = mailbox (wk (pl s) w) \<and> nwk p' = nwk (pl s)"
      using event v w(3) by (cases ev) (auto simp: takeIdleLocked_def split: if_splits prod.splits)
    with event v o show ?thesis by (auto simp: owed_def to_go_def place_def)
  qed (use mv w(2) in \<open>auto split: if_splits\<close>)
qed

subsection \<open>It is paid\<close>

lemma owed_moves:
  assumes f: "fair_run w r" and o: "owed w m (r i)"
  shows "\<exists>j > i. paid w m (r j) \<or> owed w m (r j) \<and> to_go (place w (r j)) < to_go (place w (r i))"
proof -
  have inv: "psys_inv (r j)" for j using pool_sys.inv_reach [OF fair_run_reach [OF f]] .
  let ?moved = "\<lambda>k. place w (r (Suc (i + k))) \<noteq> place w (r (i + k))"
  have wait: "owed w m (r (i + k)) \<and> place w (r (i + k)) = place w (r i)" if "\<forall>l < k. \<not> ?moved l" for k
    using that
  proof (induction k)
    case (Suc k)
    then have k: "owed w m (r (i + k))" "place w (r (i + k)) = place w (r i)" "\<not> ?moved k" by simp_all
    have "r (Suc (i + k)) = r (i + k) \<or> pstep (r (i + k)) (r (Suc (i + k)))" using f by (simp add: fair_run_def)
    then have "owed w m (r (Suc (i + k)))"
    proof
      assume "pstep (r (i + k)) (r (Suc (i + k)))"
      from step_kept [OF inv this k(1)] k(3) have "kept w (r (i + k)) (r (Suc (i + k)))" by simp
      from kept_owed [OF this k(1)] k(1,3) show ?thesis by (auto simp: owed_def place_def)
    qed (use k(1) in simp)
    with k show ?case by simp
  qed (use o in simp)
  have "\<exists>k. ?moved k"
  proof (rule ccontr)
    assume n: "\<nexists>k. ?moved k"
    have "can_go w (r i)" using owed_can_go [OF inv o] .
    then obtain j where j: "j \<ge> i" "place w (r (Suc j)) \<noteq> place w (r j) \<or> \<not> can_go w (r j)"
      using f unfolding fair_run_def by blast
    then obtain k where k: "j = i + k" using le_Suc_ex by blast
    have "can_go w (r (i + k))" using owed_can_go [OF inv] wait [of k] n by blast
    with j k n show False by auto
  qed
  then obtain k where k: "?moved k" "\<forall>l < k. \<not> ?moved l" using exists_least_iff [of ?moved] by blast
  note o' = wait [OF k(2)]
  have "pstep (r (i + k)) (r (Suc (i + k)))" using f k(1) unfolding fair_run_def by metis
  from step_own [OF inv this conjunct1 [OF o'] k(1)] o' show ?thesis
    by (intro exI [of _ "Suc (i + k)"]) auto
qed

lemma owed_paid: "fair_run w r \<Longrightarrow> owed w m (r i) \<Longrightarrow> \<exists>j \<ge> i. paid w m (r j)"
proof (induction "to_go (place w (r i))" arbitrary: i rule: less_induct)
  case less
  obtain j where "j > i" "paid w m (r j) \<or> owed w m (r j) \<and> to_go (place w (r j)) < to_go (place w (r i))"
    using owed_moves [OF less.prems] by blast
  then show ?case using less.hyps [of j] less.prems(1) by (meson less_imp_le order_trans)
qed

text \<open>
  C7. No wakeup is lost. Take any run of the pool, whatever the workers, visitors, cancellations and the
  shutdown do, in which goroutine \<open>w\<close> continues some time after it has something to do, that is, at the
  top of the loop of \<open>Next\<close> or with its wake channel full; timers need never fire. If \<open>w\<close> is blocked in the
  \<^verbatim>\<open>select\<close> of \<open>Next\<close> and its worker was handed a visitor, then its wake channel is full, and later \<open>w\<close> serves
  that visitor, or leaves because the worker was closed meanwhile together with the visitor's socket.
  If the worker was closed, the wake channel is full and later \<open>w\<close> leaves. Else the worker is idle.
\<close>

theorem no_lost_wakeup:
  assumes "fair_run w r" and "w < nwk (pl (r i))" and "pc (r i) w = PWait"
  shows "case (mailbox (wk (pl (r i)) w), state (wk (pl (r i)) w)) of
      (Some t, _) \<Rightarrow> wake (wk (pl (r i)) w) \<and> (\<exists>j \<ge> i. pc (r j) w = PServe t \<or> pc (r j) w = PQuit \<and> t \<in> gone (r j))
    | (None, w_closed) \<Rightarrow> wake (wk (pl (r i)) w) \<and> (\<exists>j \<ge> i. pc (r j) w = PQuit)
    | (None, st) \<Rightarrow> st = w_idle"
proof -
  let ?x = "wk (pl (r i)) w"
  have ok: "pc_ok PWait ?x"
    using psys_inv_worker [OF pool_sys.inv_reach [OF fair_run_reach [OF assms(1)]] assms(2)] assms(3) by simp
  have paid: "\<exists>j \<ge> i. paid w (mailbox ?x) (r j)" if "state ?x \<noteq> w_idle"
    using owed_paid [OF assms(1), of "mailbox ?x" i] assms(2,3) ok that by (auto simp: owed_def)
  show ?thesis
    using ok paid by (cases "mailbox ?x"; cases "state ?x") (auto simp: paid_def)
qed

text \<open>The run of \<open>run6\<close>: the worker was handed visitor 100; its goroutine wakes up and looks.\<close>

definition run6w :: psys where
  "run6w = run6\<lparr>pl := fst (next_select 0 Wake (pl run6)), pc := (pc run6)(0 := PNext),
     dls := (dls run6)(0 := Some (next_deadline 0 (pl run3)))\<rparr>"

definition run6s :: psys where
  "run6s = run6w\<lparr>pl := fst (next_top 0 (pl run6w)), pc := (pc run6w)(0 := PServe 100), dls := (dls run6w)(0 := None)\<rparr>"

definition wake_run :: "nat \<Rightarrow> psys" where
  "wake_run i = (if i = 0 then run6 else if i = 1 then run6w else run6s)"

lemma wake_run_pc: "pc run6 0 = PWait" "pc run6w 0 = PNext" "pc run6s 0 = PServe 100"
  by (simp_all add: run6_def run5_def run_pc run6w_def run6s_def)

lemma run6w_pl [code]: "pl run6w = fst (next_select 0 Wake (pl run6))"
  by (simp add: run6w_def)

lemma wake_run_fair: "fair_run 0 wake_run"
proof -
  have d: "dls run6 0 = Some (next_deadline 0 (pl run3))" by (simp add: run_defs)
  have n: "nwk (pl run6) = 1" "wake (wk (pl run6) 0)" unfolding run_pl by code_simp+
  have "pstep run6 run6w"
    using pstep.event [where s = run6 and w = 0 and ev = Wake and d = "next_deadline 0 (pl run3)" and res = None
        and p' = "fst (next_select 0 Wake (pl run6))"] d n wake_run_pc by (simp add: run6w_def)
  moreover have "nwk (pl run6w) = 1" "snd (next_top 0 (pl run6w)) = Some (Some 100, Leased)"
    unfolding run6w_pl run_pl by code_simp+
  then have "pstep run6w run6s"
    using pstep.look [where s = run6w and w = 0 and d = "next_deadline 0 (pl run3)" and res = "Some (Some 100, Leased)"] wake_run_pc
    by (cases "next_top 0 (pl run6w)") (simp add: run6s_def, simp add: run6w_def)
  ultimately have "wake_run (Suc i) = wake_run i \<or> pstep (wake_run i) (wake_run (Suc i))" for i
    by (simp add: wake_run_def)
  moreover have "\<exists>j \<ge> i. \<not> can_go 0 (wake_run j)" for i
    by (intro exI [of _ "i + 2"]) (simp add: wake_run_def can_go_def wake_run_pc)
  moreover have "preach (wake_run 0)" using run6_reach by (simp add: wake_run_def)
  ultimately show ?thesis unfolding fair_run_def by blast
qed

theorem no_lost_wakeup_witness: "\<exists>j. pc (wake_run j) 0 = PServe 100"
proof -
  have i: "0 < nwk (pl (wake_run 0))" "mailbox (wk (pl (wake_run 0)) 0) = Some 100" "pc (wake_run 0) 0 = PWait"
    unfolding wake_run_def if_P [OF refl] run_pl by (code_simp, code_simp, rule wake_run_pc)
  have "pc (wake_run j) 0 \<noteq> PQuit" for j by (simp add: wake_run_def wake_run_pc)
  with no_lost_wakeup [OF wake_run_fair i(1,3)] i(2) show ?thesis by auto
qed

end
