(* ===== verification/Config.thy ===== *)
theory Config
  imports Prelude "HOL-Library.Signed_Division"
begin

text \<open>
  The configuration loader of \<^verbatim>\<open>internal/config/config.go\<close>: the raw tables as the TOML decoder fills
  them (an absent optional key is \<open>None\<close>, a Go nil pointer), the checks, and the validated
  configuration. What the loader takes from outside the program is gathered in the record
  \<open>environ\<close>: the files, the TOML decoder, the X.509 parser, and the pure library functions whose
  results are only compared or stored (SHA-256, base64, \<^verbatim>\<open>time.ParseDuration\<close>, path joining). No
  theorem assumes anything of them. A string is a list of bytes, as in Go.
\<close>

subsection \<open>Raw tables\<close>

record raw_service =
  rs_BindAddr :: "string option"
  rs_LocalAddr :: "string option"
  rs_Token :: "string option"

record raw_metrics =
  rm_BindAddr :: "string option"
  rm_Username :: "string option"
  rm_Password :: "string option"

record raw_noise =
  rn_LocalPrivateKey :: string
  rn_RemotePublicKey :: string

record raw_tls =
  rt_CertFile :: "string option"
  rt_KeyFile :: "string option"
  rt_CAFile :: "string option"
  rt_ServerName :: "string option"

record raw_ws =
  rw_Path :: "string option"

record raw_transport =
  rt_Type :: string
  rt_Noise :: "raw_noise option"
  rt_TLS :: "raw_tls option"
  rt_WebSocket :: "raw_ws option"

record raw_server_pool =
  rsp_MaxPending :: "int option"
  rsp_AcquireTimeout :: "string option"

record raw_client_pool =
  rcp_MinIdle :: "int option"
  rcp_MaxIdle :: "int option"
  rcp_Heartbeat :: "string option"
  rcp_IdleTimeout :: "string option"
  rcp_IdleJitter :: "string option"
  rcp_MaxLifetime :: "string option"
  rcp_LifetimeJitter :: "string option"

text \<open>A Go map is the list of its entries in the order the code's \<^verbatim>\<open>range\<close> visits them.\<close>

record raw_server =
  rS_BindAddr :: string
  rS_DefaultToken :: "string option"
  rS_Services :: "(string \<times> raw_service) list"
  rS_Transport :: raw_transport
  rS_Pool :: raw_server_pool
  rS_Metrics :: "raw_metrics option"

record raw_client =
  rC_RemoteAddr :: string
  rC_DialTimeout :: "string option"
  rC_DefaultToken :: "string option"
  rC_Services :: "(string \<times> raw_service) list"
  rC_Transport :: raw_transport
  rC_Pool :: raw_client_pool
  rC_Metrics :: "raw_metrics option"

record raw_config =
  r_Server :: "raw_server option"
  r_Client :: "raw_client option"

subsection \<open>Validated configuration\<close>

record service =
  Addr :: string
  Token :: string
  TokenHash :: bytes

record metrics_conf =
  m_BindAddr :: string
  UsernameHash :: bytes
  PasswordHash :: bytes

record server_pool =
  MaxPending :: int
  AcquireTimeout :: duration

record client_pool =
  cp_MinIdle :: int
  cp_MaxIdle :: int
  cp_Heartbeat :: duration
  cp_IdleTimeout :: duration
  cp_IdleJitter :: duration
  cp_MaxLifetime :: duration
  cp_LifetimeJitter :: duration

text \<open>A loaded certificate and a pool of root certificates are opaque: numbers.\<close>

record server_transport =
  st_Type :: string
  st_PrivateKey :: bytes
  st_PeerKey :: bytes
  st_Certificate :: nat
  st_Path :: string

record client_transport =
  ct_Type :: string
  ct_PrivateKey :: bytes
  ct_PeerKey :: bytes
  ct_RootCAs :: "nat option"
  ct_ServerName :: string
  ct_Path :: string
  ct_RemoteAddr :: string
  ct_DialTimeout :: duration

record server_conf =
  sv_BindAddr :: string
  sv_Services :: "string \<rightharpoonup> service"
  sv_Transport :: server_transport
  sv_Pool :: server_pool
  sv_Metrics :: "metrics_conf option"

record client_conf =
  cl_RemoteAddr :: string
  cl_DialTimeout :: duration
  cl_Services :: "string \<rightharpoonup> service"
  cl_Transport :: client_transport
  cl_Pool :: client_pool
  cl_Metrics :: "metrics_conf option"

record config =
  Server :: "server_conf option"
  Client :: "client_conf option"

subsection \<open>The environment\<close>

text \<open>
  A failed decode: whether the chain of errors holds a \<^verbatim>\<open>StrictMissingError\<close>, and the row, column
  and key of its \<^verbatim>\<open>DecodeError\<close>, if it holds one. A failed open reports its text.
\<close>

record toml_error =
  te_unknown :: bool
  te_decoded :: "(int \<times> int \<times> string list) option"

record environ =
  open_file :: "string \<Rightarrow> string + bytes"
  toml :: "bytes \<Rightarrow> toml_error + raw_config"
  sha256 :: "string \<Rightarrow> bytes"
  base64 :: "string \<Rightarrow> bytes option"
  parse_duration :: "string \<Rightarrow> duration option"
  path_dir :: "string \<Rightarrow> string"
  path_join :: "string \<Rightarrow> string \<Rightarrow> string"
  load_x509 :: "string \<Rightarrow> string \<Rightarrow> nat option"
  read_file :: "string \<Rightarrow> bytes option"
  cert_pool :: "bytes \<Rightarrow> nat option"

subsection \<open>Strings\<close>

definition contains_any :: "string \<Rightarrow> string \<Rightarrow> bool" where
  "contains_any s cs \<longleftrightarrow> list_ex (\<lambda>c. c \<in> set cs) s"

definition has_prefix :: "string \<Rightarrow> string \<Rightarrow> bool" where
  "has_prefix s p \<longleftrightarrow> take (length p) s = p"

text \<open>The text of an error value.\<close>

fun error_text :: "error \<Rightarrow> string" where
  "error_text (Errmsg s) = s"
| "error_text (Wrap s e) = s @ error_text e"
| "error_text EOF = ''EOF''"
| "error_text UnexpectedEOF = ''unexpected EOF''"
| "error_text ErrShortWrite = ''short write''"
| "error_text DeadlineExceeded = ''context deadline exceeded''"
| "error_text Canceled = ''context canceled''"
| "error_text ENOTCONN = ''transport endpoint is not connected''"
| "error_text (NetErr k) = ''network error''"

text \<open>\<^verbatim>\<open>%d\<close>.\<close>

fun show_nat :: "nat \<Rightarrow> string" where
  "show_nat n = (if n < 10 then [char_of (48 + n)] else show_nat (n div 10) @ [char_of (48 + n mod 10)])"

definition show_int :: "int \<Rightarrow> string" where
  "show_int i = (if i < 0 then ''-'' else '''') @ show_nat (nat \<bar>i\<bar>)"

text \<open>\<^verbatim>\<open>filepath.Base\<close> on a system whose separator is a slash.\<close>

definition path_base :: "string \<Rightarrow> string" where
  "path_base p =
     (if p = '''' then ''.''
      else let q = rev (dropWhile (\<lambda>c. c = CHR ''/'') (rev p))
           in if q = '''' then ''/'' else rev (takeWhile (\<lambda>c. c \<noteq> CHR ''/'') (rev q)))"

fun index_byte :: "char \<Rightarrow> string \<Rightarrow> nat option" where
  "index_byte c [] = None"
| "index_byte c (x # xs) = (if x = c then Some 0 else map_option Suc (index_byte c xs))"

fun last_index_byte :: "char \<Rightarrow> string \<Rightarrow> nat option" where
  "last_index_byte c [] = None"
| "last_index_byte c (x # xs) =
     (case last_index_byte c xs of Some i \<Rightarrow> Some (Suc i) | None \<Rightarrow> if x = c then Some 0 else None)"

text \<open>\<^verbatim>\<open>net.SplitHostPort\<close>; its caller only asks whether it failed.\<close>

definition SplitHostPort :: "string \<Rightarrow> (string \<times> string) option" where
  "SplitHostPort s =
     (case last_index_byte CHR '':'' s of
        None \<Rightarrow> None
      | Some i \<Rightarrow>
          (case (if hd s = CHR ''[''
                 then (case index_byte CHR '']'' s of
                         None \<Rightarrow> None
                       | Some j \<Rightarrow>
                           if Suc j = length s then None
                           else if Suc j = i then Some (take (j - 1) (tl s), 1, Suc j)
                           else None)
                 else if CHR '':'' \<in> set (take i s) then None
                 else Some (take i s, 0, 0)) of
             None \<Rightarrow> None
           | Some (host, j, k) \<Rightarrow>
               if CHR ''['' \<in> set (drop j s) then None
               else if CHR '']'' \<in> set (drop k s) then None
               else Some (host, drop (Suc i) s)))"

text \<open>\<^verbatim>\<open>strconv.Atoi\<close> on a non-empty string of digits.\<close>

definition is_digit :: "char \<Rightarrow> bool" where
  "is_digit c \<longleftrightarrow> 48 \<le> (of_char c :: int) \<and> (of_char c :: int) \<le> 57"

definition digits_value :: "string \<Rightarrow> int" where
  "digits_value s = foldl (\<lambda>n c. 10 * n + (of_char c - 48)) 0 s"

definition Atoi :: "string \<Rightarrow> int option" where
  "Atoi s = (if digits_value s < 2 ^ 63 then Some (digits_value s) else None)"

subsection \<open>Addresses, names, services\<close>

text \<open>\<open>None\<close> is Go's nil error.\<close>

definition address :: "string \<Rightarrow> bool \<Rightarrow> error option" where
  "address s requireHost =
     (case SplitHostPort s of
        None \<Rightarrow> Some (Errmsg ''invalid host:port'')
      | Some (host, port) \<Rightarrow>
          if s = '''' then Some (Errmsg ''invalid host:port'')
          else if requireHost \<and> host = '''' then Some (Errmsg ''empty host'')
          else if port = '''' then Some (Errmsg ''invalid port'')
          else if list_ex (\<lambda>c. \<not> is_digit c) port then Some (Errmsg ''invalid port'')
          else case Atoi port of
                 None \<Rightarrow> Some (Errmsg ''invalid port'')
               | Some n \<Rightarrow> if n < 1 \<or> n > 65535 then Some (Errmsg ''invalid port'') else None)"

definition name_char :: "char \<Rightarrow> bool" where
  "name_char c \<longleftrightarrow> (let n = (of_char c :: int) in
     65 \<le> n \<and> n \<le> 90 \<or> 97 \<le> n \<and> n \<le> 122 \<or> is_digit c \<or> c = CHR ''_'' \<or> c = CHR ''-'')"

definition serviceName :: "string \<Rightarrow> bool" where
  "serviceName s \<longleftrightarrow> 1 \<le> length s \<and> length s \<le> 64 \<and> list_all name_char s"

definition parse_service ::
    "environ \<Rightarrow> string option \<Rightarrow> bool \<Rightarrow> string \<Rightarrow> raw_service \<Rightarrow> error + service" where
  "parse_service E df server name s =
     (if \<not> serviceName name then Inl (Errmsg ''services: invalid name'')
      else let field = (if server then ''bind_addr'' else ''local_addr'');
               selected = (if server then rs_BindAddr s else rs_LocalAddr s)
           in if server \<and> rs_LocalAddr s \<noteq> None
              then Inl (Errmsg (''services.'' @ name @ ''.local_addr: not allowed''))
              else if \<not> server \<and> rs_BindAddr s \<noteq> None
              then Inl (Errmsg (''services.'' @ name @ ''.bind_addr: not allowed''))
              else let addr = (case selected of None \<Rightarrow> '''' | Some a \<Rightarrow> a)
                   in case address addr (\<not> server) of
                        Some err \<Rightarrow> Inl (Wrap (''services.'' @ name @ ''.'' @ field @ '': '') err)
                      | None \<Rightarrow>
                          (case (case rs_Token s of Some t \<Rightarrow> Some t | None \<Rightarrow> df) of
                             None \<Rightarrow> Inl (Errmsg (''services.'' @ name @ ''.token: length must be 32..256 bytes''))
                           | Some tok \<Rightarrow>
                               if length tok < 32 \<or> length tok > 256
                               then Inl (Errmsg (''services.'' @ name @ ''.token: length must be 32..256 bytes''))
                               else Inr \<lparr>Addr = addr, Token = tok, TokenHash = sha256 E tok\<rparr>))"

fun services_loop ::
    "environ \<Rightarrow> string option \<Rightarrow> bool \<Rightarrow> (string \<times> raw_service) list \<Rightarrow> (string \<rightharpoonup> service)
     \<Rightarrow> error + (string \<rightharpoonup> service)" where
  "services_loop E df server [] out = Inr out"
| "services_loop E df server ((name, s) # rest) out =
     (case parse_service E df server name s of
        Inl e \<Rightarrow> Inl e
      | Inr x \<Rightarrow> services_loop E df server rest (out(name \<mapsto> x)))"

definition parseServices ::
    "environ \<Rightarrow> (string \<times> raw_service) list \<Rightarrow> string option \<Rightarrow> bool \<Rightarrow> error + (string \<rightharpoonup> service)" where
  "parseServices E raw df server =
     (if raw = [] then Inl (Errmsg ''services: at least one service required'')
      else services_loop E df server raw Map.empty)"

subsection \<open>Pools\<close>

definition ValidatePool :: "client_pool \<Rightarrow> error option" where
  "ValidatePool p =
     (if cp_MinIdle p < 1 \<or> cp_MinIdle p > 1024 then Some (Errmsg ''min_idle: out of range'')
      else if cp_MaxIdle p < cp_MinIdle p \<or> cp_MaxIdle p > 1024
      then Some (Errmsg ''max_idle: must be min_idle..1024'')
      else if cp_Heartbeat p < second \<or> cp_Heartbeat p > 10 * minute
      then Some (Errmsg ''heartbeat: out of range'')
      else if cp_IdleTimeout p < second \<or> cp_IdleTimeout p > 24 * hour
      then Some (Errmsg ''idle_timeout: out of range'')
      else if cp_IdleJitter p < 0 \<or> cp_IdleJitter p > cp_IdleTimeout p
      then Some (Errmsg ''idle_jitter: must be 0..idle_timeout'')
      else if cp_MaxLifetime p < second \<or> cp_MaxLifetime p > 7 * 24 * hour
      then Some (Errmsg ''max_lifetime: out of range'')
      else if cp_LifetimeJitter p < 0 \<or> cp_LifetimeJitter p > cp_MaxLifetime p
      then Some (Errmsg ''lifetime_jitter: must be 0..max_lifetime'')
      else None)"

text \<open>The loop over the five duration fields: name, raw value, assignment.\<close>

fun set_durations ::
    "environ \<Rightarrow> (string \<times> string option \<times> (duration \<Rightarrow> client_pool \<Rightarrow> client_pool)) list
     \<Rightarrow> client_pool \<Rightarrow> error + client_pool" where
  "set_durations E [] p = Inr p"
| "set_durations E ((name, raw, dst) # ds) p =
     (case raw of
        None \<Rightarrow> set_durations E ds p
      | Some s \<Rightarrow>
          (case parse_duration E s of
             None \<Rightarrow> Inl (Errmsg (''client.pool.'' @ name @ '': invalid duration''))
           | Some v \<Rightarrow> set_durations E ds (dst v p)))"

definition default_client_pool :: client_pool where
  "default_client_pool = \<lparr>cp_MinIdle = 2, cp_MaxIdle = 8, cp_Heartbeat = 15 * second,
     cp_IdleTimeout = 5 * minute, cp_IdleJitter = 0, cp_MaxLifetime = hour, cp_LifetimeJitter = 0\<rparr>"

definition clientPool :: "environ \<Rightarrow> raw_client_pool \<Rightarrow> error + client_pool" where
  "clientPool E r =
     (let p0 = default_client_pool;
          p1 = (case rcp_MinIdle r of None \<Rightarrow> p0 | Some n \<Rightarrow> p0\<lparr>cp_MinIdle := n\<rparr>);
          p2 = (case rcp_MaxIdle r of None \<Rightarrow> p1 | Some n \<Rightarrow> p1\<lparr>cp_MaxIdle := n\<rparr>)
      in case set_durations E
               [(''heartbeat'', rcp_Heartbeat r, \<lambda>v p. p\<lparr>cp_Heartbeat := v\<rparr>),
                (''idle_timeout'', rcp_IdleTimeout r, \<lambda>v p. p\<lparr>cp_IdleTimeout := v\<rparr>),
                (''max_lifetime'', rcp_MaxLifetime r, \<lambda>v p. p\<lparr>cp_MaxLifetime := v\<rparr>),
                (''idle_jitter'', rcp_IdleJitter r, \<lambda>v p. p\<lparr>cp_IdleJitter := v\<rparr>),
                (''lifetime_jitter'', rcp_LifetimeJitter r, \<lambda>v p. p\<lparr>cp_LifetimeJitter := v\<rparr>)] p2 of
           Inl e \<Rightarrow> Inl e
         | Inr p3 \<Rightarrow>
             let p4 = (if rcp_IdleJitter r = None
                       then p3\<lparr>cp_IdleJitter := cp_IdleTimeout p3 sdiv 10\<rparr> else p3);
                 p5 = (if rcp_LifetimeJitter r = None
                       then p4\<lparr>cp_LifetimeJitter := cp_MaxLifetime p4 sdiv 10\<rparr> else p4)
             in case ValidatePool p5 of
                  Some e \<Rightarrow> Inl (Wrap ''client.pool.'' e)
                | None \<Rightarrow> Inr p5)"

subsection \<open>Metrics and transports\<close>

definition metricsConfig ::
    "environ \<Rightarrow> raw_metrics option \<Rightarrow> string \<Rightarrow> error + metrics_conf option" where
  "metricsConfig E raw prfx =
     (case raw of
        None \<Rightarrow> Inr None
      | Some r \<Rightarrow>
          (case rm_BindAddr r of
             None \<Rightarrow> Inl (Errmsg (prfx @ ''.bind_addr: required''))
           | Some a \<Rightarrow>
               (case address a False of
                  Some err \<Rightarrow> Inl (Wrap (prfx @ ''.bind_addr: '') err)
                | None \<Rightarrow>
                    (case rm_Username r of
                       None \<Rightarrow> Inl (Errmsg (prfx @ ''.username: required''))
                     | Some u \<Rightarrow>
                         if length u < 1 \<or> length u > 64
                            \<or> contains_any u [CHR '':'', CHR 0x00, CHR 0x0D, CHR 0x0A]
                         then Inl (Errmsg (prfx @
                           ''.username: must be 1..64 bytes without ':' or control characters''))
                         else case rm_Password r of
                                None \<Rightarrow> Inl (Errmsg (prfx @ ''.password: required''))
                              | Some pw \<Rightarrow>
                                  if length pw < 16 \<or> length pw > 256
                                  then Inl (Errmsg (prfx @ ''.password: length must be 16..256 bytes''))
                                  else Inr (Some \<lparr>m_BindAddr = a, UsernameHash = sha256 E u,
                                    PasswordHash = sha256 E pw\<rparr>)))))"

definition key :: "environ \<Rightarrow> string \<Rightarrow> error + bytes" where
  "key E s =
     (case base64 E s of
        None \<Rightarrow> Inl (Errmsg ''invalid base64 X25519 key'')
      | Some b \<Rightarrow> if length b \<noteq> 32 then Inl (Errmsg ''invalid base64 X25519 key'') else Inr b)"

definition noiseKeys :: "environ \<Rightarrow> raw_noise option \<Rightarrow> error + bytes \<times> bytes" where
  "noiseKeys E r =
     (case r of
        None \<Rightarrow> Inl (Errmsg ''transport.noise: required'')
      | Some n \<Rightarrow>
          (case key E (rn_LocalPrivateKey n) of
             Inl e \<Rightarrow> Inl (Wrap ''transport.noise.local_private_key: '' e)
           | Inr a \<Rightarrow>
               (case key E (rn_RemotePublicKey n) of
                  Inl e \<Rightarrow> Inl (Wrap ''transport.noise.remote_public_key: '' e)
                | Inr b \<Rightarrow> Inr (a, b))))"

definition wsPath :: "raw_ws option \<Rightarrow> error + string" where
  "wsPath r =
     (let p = (case r of Some w \<Rightarrow> (case rw_Path w of Some q \<Rightarrow> q | None \<Rightarrow> ''/tunnel'')
               | None \<Rightarrow> ''/tunnel'')
      in if \<not> has_prefix p ''/'' \<or> contains_any p ''?#''
         then Inl (Errmsg ''transport.websocket.path: invalid path'')
         else Inr p)"

definition is_empty_opt :: "string option \<Rightarrow> bool" where
  "is_empty_opt s = (case s of None \<Rightarrow> True | Some t \<Rightarrow> t = '''')"

definition serverTransport :: "environ \<Rightarrow> raw_transport \<Rightarrow> string \<Rightarrow> error + server_transport" where
  "serverTransport E r dir =
     (let t = \<lparr>st_Type = rt_Type r, st_PrivateKey = [], st_PeerKey = [], st_Certificate = 0,
               st_Path = ''''\<rparr>
      in if rt_Type r = ''noise''
         then (if rt_TLS r \<noteq> None \<or> rt_WebSocket r \<noteq> None
               then Inl (Errmsg ''transport: unexpected subtable'')
               else case noiseKeys E (rt_Noise r) of
                      Inl e \<Rightarrow> Inl e
                    | Inr (a, b) \<Rightarrow> Inr (t\<lparr>st_PrivateKey := a, st_PeerKey := b\<rparr>))
         else if rt_Type r = ''wss''
         then (case rt_TLS r of
                 None \<Rightarrow> Inl (Errmsg ''transport: tls required; noise forbidden'')
               | Some s \<Rightarrow>
                   if rt_Noise r \<noteq> None then Inl (Errmsg ''transport: tls required; noise forbidden'')
                   else if rt_CAFile s \<noteq> None \<or> rt_ServerName s \<noteq> None
                   then Inl (Errmsg ''server.transport.tls: client-only field'')
                   else if is_empty_opt (rt_CertFile s) \<or> is_empty_opt (rt_KeyFile s)
                   then Inl (Errmsg ''server.transport.tls: certificate and key required'')
                   else case load_x509 E (path_join E dir (the (rt_CertFile s)))
                               (path_join E dir (the (rt_KeyFile s))) of
                          None \<Rightarrow> Inl (Errmsg ''server.transport.tls: invalid certificate or key'')
                        | Some c \<Rightarrow>
                            (case wsPath (rt_WebSocket r) of
                               Inl e \<Rightarrow> Inl e
                             | Inr p \<Rightarrow> Inr (t\<lparr>st_Certificate := c, st_Path := p\<rparr>)))
         else Inl (Errmsg ''transport.type: expected noise or wss''))"

definition client_tls ::
    "environ \<Rightarrow> raw_tls \<Rightarrow> string \<Rightarrow> client_transport \<Rightarrow> error + client_transport" where
  "client_tls E s dir t =
     (if rt_CertFile s \<noteq> None \<or> rt_KeyFile s \<noteq> None
      then Inl (Errmsg ''client.transport.tls: server-only field'')
      else if rt_ServerName s = Some ''''
      then Inl (Errmsg ''client.transport.tls.server_name: empty value'')
      else let t1 = (case rt_ServerName s of None \<Rightarrow> t | Some n \<Rightarrow> t\<lparr>ct_ServerName := n\<rparr>)
           in case rt_CAFile s of
                None \<Rightarrow> Inr t1
              | Some f \<Rightarrow>
                  if f = '''' then Inl (Errmsg ''client.transport.tls.ca_file: empty value'')
                  else case read_file E (path_join E dir f) of
                         None \<Rightarrow> Inl (Errmsg ''client.transport.tls.ca_file: cannot read'')
                       | Some pem \<Rightarrow>
                           (case cert_pool E pem of
                              None \<Rightarrow> Inl (Errmsg ''client.transport.tls.ca_file: invalid PEM'')
                            | Some roots \<Rightarrow> Inr (t1\<lparr>ct_RootCAs := Some roots\<rparr>)))"

definition clientTransport :: "environ \<Rightarrow> raw_transport \<Rightarrow> string \<Rightarrow> error + client_transport" where
  "clientTransport E r dir =
     (let t = \<lparr>ct_Type = rt_Type r, ct_PrivateKey = [], ct_PeerKey = [], ct_RootCAs = None,
               ct_ServerName = '''', ct_Path = '''', ct_RemoteAddr = '''', ct_DialTimeout = 0\<rparr>
      in if rt_Type r = ''noise''
         then (if rt_TLS r \<noteq> None \<or> rt_WebSocket r \<noteq> None
               then Inl (Errmsg ''transport: unexpected subtable'')
               else case noiseKeys E (rt_Noise r) of
                      Inl e \<Rightarrow> Inl e
                    | Inr (a, b) \<Rightarrow> Inr (t\<lparr>ct_PrivateKey := a, ct_PeerKey := b\<rparr>))
         else if rt_Type r = ''wss''
         then (if rt_Noise r \<noteq> None then Inl (Errmsg ''transport: unexpected noise subtable'')
               else case (case rt_TLS r of None \<Rightarrow> Inr t | Some s \<Rightarrow> client_tls E s dir t) of
                      Inl e \<Rightarrow> Inl e
                    | Inr t1 \<Rightarrow>
                        (case wsPath (rt_WebSocket r) of
                           Inl e \<Rightarrow> Inl e
                         | Inr p \<Rightarrow> Inr (t1\<lparr>ct_Path := p\<rparr>)))
         else Inl (Errmsg ''transport.type: expected noise or wss''))"

subsection \<open>Load\<close>

definition serverPool :: "environ \<Rightarrow> raw_server_pool \<Rightarrow> error + server_pool" where
  "serverPool E r =
     (let p = \<lparr>MaxPending = 64, AcquireTimeout = 5 * second\<rparr>;
          p1 = (case rsp_MaxPending r of None \<Rightarrow> p | Some n \<Rightarrow> p\<lparr>MaxPending := n\<rparr>)
      in case (case rsp_AcquireTimeout r of
                 None \<Rightarrow> Inr p1
               | Some s \<Rightarrow>
                   (case parse_duration E s of
                      None \<Rightarrow> Inl (Errmsg ''server.pool.acquire_timeout: invalid duration'')
                    | Some d \<Rightarrow> Inr (p1\<lparr>AcquireTimeout := d\<rparr>))) of
           Inl e \<Rightarrow> Inl e
         | Inr p2 \<Rightarrow>
             if MaxPending p2 < 1 \<or> MaxPending p2 > 4096 \<or> AcquireTimeout p2 \<le> 0
                \<or> AcquireTimeout p2 > minute
             then Inl (Errmsg ''server.pool: invalid limits'')
             else Inr p2)"

definition dial_timeout :: "environ \<Rightarrow> string option \<Rightarrow> error + duration" where
  "dial_timeout E raw =
     (case (case raw of None \<Rightarrow> Some (5 * second) | Some s \<Rightarrow> parse_duration E s) of
        None \<Rightarrow> Inl (Errmsg ''client.dial_timeout: invalid duration'')
      | Some d \<Rightarrow>
          if d \<le> 0 \<or> d > 5 * second then Inl (Errmsg ''client.dial_timeout: out of range'')
          else Inr d)"

definition load_server :: "environ \<Rightarrow> string \<Rightarrow> raw_server \<Rightarrow> error + config" where
  "load_server E dir r =
     (case address (rS_BindAddr r) False of
        Some err \<Rightarrow> Inl (Wrap ''server.bind_addr: '' err)
      | None \<Rightarrow>
     (case parseServices E (rS_Services r) (rS_DefaultToken r) True of
        Inl e \<Rightarrow> Inl e
      | Inr services \<Rightarrow>
     (case serverTransport E (rS_Transport r) dir of
        Inl e \<Rightarrow> Inl e
      | Inr tr \<Rightarrow>
     (case serverPool E (rS_Pool r) of
        Inl e \<Rightarrow> Inl e
      | Inr p \<Rightarrow>
     (case metricsConfig E (rS_Metrics r) ''server.metrics'' of
        Inl e \<Rightarrow> Inl e
      | Inr m \<Rightarrow>
          Inr \<lparr>Server = Some \<lparr>sv_BindAddr = rS_BindAddr r, sv_Services = services,
                 sv_Transport = tr, sv_Pool = p, sv_Metrics = m\<rparr>,
               Client = None\<rparr>)))))"

definition load_client :: "environ \<Rightarrow> string \<Rightarrow> raw_client \<Rightarrow> error + config" where
  "load_client E dir r =
     (case address (rC_RemoteAddr r) True of
        Some err \<Rightarrow> Inl (Wrap ''client.remote_addr: '' err)
      | None \<Rightarrow>
     (case parseServices E (rC_Services r) (rC_DefaultToken r) False of
        Inl e \<Rightarrow> Inl e
      | Inr services \<Rightarrow>
     (case clientTransport E (rC_Transport r) dir of
        Inl e \<Rightarrow> Inl e
      | Inr tr \<Rightarrow>
     (case dial_timeout E (rC_DialTimeout r) of
        Inl e \<Rightarrow> Inl e
      | Inr timeout \<Rightarrow>
     (case clientPool E (rC_Pool r) of
        Inl e \<Rightarrow> Inl e
      | Inr pool \<Rightarrow>
     (case metricsConfig E (rC_Metrics r) ''client.metrics'' of
        Inl e \<Rightarrow> Inl e
      | Inr m \<Rightarrow>
          Inr \<lparr>Server = None,
               Client = Some \<lparr>cl_RemoteAddr = rC_RemoteAddr r, cl_DialTimeout = timeout,
                 cl_Services = services,
                 cl_Transport = tr\<lparr>ct_RemoteAddr := rC_RemoteAddr r, ct_DialTimeout := timeout\<rparr>,
                 cl_Pool = pool, cl_Metrics = m\<rparr>\<rparr>))))))"

definition decode_failure :: "string \<Rightarrow> toml_error \<Rightarrow> error" where
  "decode_failure path te =
     (let category = (if te_unknown te then ''unknown field'' else ''invalid TOML syntax or value'')
      in case te_decoded te of
           None \<Rightarrow> Errmsg (''configuration '' @ path_base path @ '': '' @ category)
         | Some (row, column, k) \<Rightarrow>
             let field = (if k \<noteq> [] \<and> length (last k) < 32 \<and> serviceName (last k) then last k
                          else ''field'')
             in Errmsg (''configuration '' @ path_base path @ '':'' @ show_int row @ '':''
                  @ show_int column @ '': '' @ field @ '': '' @ category))"

definition load_body :: "environ \<Rightarrow> string \<Rightarrow> error + config" where
  "load_body E path =
     (case open_file E path of
        Inl msg \<Rightarrow> Inl (Wrap ''configuration file: '' (Errmsg msg))
      | Inr f \<Rightarrow>
          (case toml E f of
             Inl te \<Rightarrow> Inl (decode_failure path te)
           | Inr raw \<Rightarrow>
               (case (r_Server raw, r_Client raw) of
                  (Some r, None) \<Rightarrow> load_server E (path_dir E path) r
                | (None, Some r) \<Rightarrow> load_client E (path_dir E path) r
                | _ \<Rightarrow> Inl (Errmsg ''configuration: exactly one of server or client required''))))"

text \<open>The deferred function names the file in every error that does not name it yet.\<close>

definition Load :: "environ \<Rightarrow> string \<Rightarrow> error + config" where
  "Load E path =
     (case load_body E path of
        Inr cfg \<Rightarrow> Inr cfg
      | Inl err \<Rightarrow>
          if \<not> has_prefix (error_text err) (''configuration '' @ path_base path @ '':'')
          then Inl (Wrap (''configuration '' @ path_base path @ '': '') err)
          else Inl err)"

end
