(* ===== verification/Config_Props.thy ===== *)
theory Config_Props
  imports Config "HOL-Library.Multiset"
begin

text \<open>
  What a loaded configuration guarantees to the rest of the program: which addresses are accepted,
  that everything \<open>Load\<close> returns satisfies the documented ranges, that the result does not depend on
  the iteration order of Go's maps, and what an error can disclose.
\<close>

subsection \<open>Addresses\<close>

lemma last_index_None: "last_index_byte c s = None \<longleftrightarrow> c \<notin> set s"
  by (induction s) (auto split: option.splits)

lemma last_index_app: "c \<notin> set b \<Longrightarrow> last_index_byte c (a @ c # b) = Some (length a)"
  by (induction a) (simp_all add: last_index_None [THEN iffD2])

lemma last_index_split:
  assumes "last_index_byte c s = Some i"
  obtains a b where "s = a @ c # b" and "c \<notin> set b" and "length a = i"
proof -
  have "c \<in> set s" using assms last_index_None [of c s] by (cases "c \<in> set s") auto
  then obtain a b where "s = a @ c # b" "c \<notin> set b" by (metis split_list_last)
  with last_index_app [of c b a] assms that show ?thesis by simp
qed

lemma index_None: "index_byte c s = None \<longleftrightarrow> c \<notin> set s"
  by (induction s) auto

lemma index_app: "c \<notin> set a \<Longrightarrow> index_byte c (a @ c # b) = Some (length a)"
  by (induction a) auto

lemma index_split:
  assumes "index_byte c s = Some i"
  obtains a b where "s = a @ c # b" and "c \<notin> set a" and "length a = i"
proof -
  have "c \<in> set s" using assms index_None [of c s] by (cases "c \<in> set s") auto
  then obtain a b where "s = a @ c # b" "c \<notin> set a" by (metis split_list_first)
  with index_app [of c a b] assms that show ?thesis by simp
qed

text \<open>The two forms of an address: \<open>host:port\<close>, and \<open>[host]:port\<close> for a host with colons.\<close>

definition hostport :: "string \<Rightarrow> string \<Rightarrow> string \<Rightarrow> bool" where
  "hostport s host port \<longleftrightarrow>
     set port \<inter> {CHR '':'', CHR ''['', CHR '']''} = {}
     \<and> (s = host @ '':'' @ port \<and> set host \<inter> {CHR '':'', CHR ''['', CHR '']''} = {}
       \<or> s = ''['' @ host @ '']:'' @ port \<and> set host \<inter> {CHR ''['', CHR '']''} = {})"

lemma SplitHostPort_complete: "hostport s host port \<Longrightarrow> SplitHostPort s = Some (host, port)"
proof -
  assume h: "hostport s host port"
  then consider (plain) "s = host @ '':'' @ port" "set host \<inter> {CHR '':'', CHR ''['', CHR '']''} = {}"
    | (br) "s = ''['' @ host @ '']:'' @ port" "set host \<inter> {CHR ''['', CHR '']''} = {}"
    by (auto simp: hostport_def)
  then show ?thesis
  proof cases
    case plain
    have "hd s \<noteq> CHR ''[''" using plain by (cases host) auto
    moreover have "last_index_byte CHR '':'' s = Some (length host)"
      using last_index_app [of "CHR '':''" port host] plain h by (auto simp: hostport_def)
    ultimately show ?thesis using plain h by (auto simp: SplitHostPort_def hostport_def)
  next
    case br
    have "last_index_byte CHR '':'' s = Some (length host + 2)"
      using last_index_app [of "CHR '':''" port "''['' @ host @ '']''"] br h by (auto simp: hostport_def)
    moreover have "index_byte CHR '']'' s = Some (length host + 1)"
      using index_app [of "CHR '']''" "''['' @ host" "'':'' @ port"] br h by (auto simp: hostport_def)
    ultimately show ?thesis using br h by (auto simp: SplitHostPort_def hostport_def)
  qed
qed

lemma SplitHostPort_sound: "SplitHostPort s = Some (host, port) \<Longrightarrow> hostport s host port"
proof -
  assume sp: "SplitHostPort s = Some (host, port)"
  then obtain i where "last_index_byte CHR '':'' s = Some i"
    by (auto simp: SplitHostPort_def split: option.splits)
  then obtain a b where ab: "s = a @ CHR '':'' # b" "CHR '':'' \<notin> set b" "length a = i"
    and li: "last_index_byte CHR '':'' s = Some (length a)"
    using last_index_split by metis
  show ?thesis
  proof (cases "hd s = CHR ''[''")
    case False
    then have "host = a" "port = b" "CHR '':'' \<notin> set a" "CHR ''['' \<notin> set s" "CHR '']'' \<notin> set s"
      using sp ab li by (auto simp: SplitHostPort_def split: if_splits)
    then show ?thesis using ab by (auto simp: hostport_def)
  next
    case True
    then obtain j where j: "index_byte CHR '']'' s = Some j"
      using sp li by (auto simp: SplitHostPort_def split: option.splits)
    then obtain c d where cd: "s = c @ CHR '']'' # d" "CHR '']'' \<notin> set c" "length c = j"
      using index_split by metis
    then have c: "c \<noteq> []" using True by (cases c) auto
    then obtain c' where c': "c = CHR ''['' # c'" using True cd by (cases c) auto
    have k: "Suc j = length a" using sp li j True ab by (auto simp: SplitHostPort_def split: if_splits)
    have "a = c @ '']''" "b = tl d"
      using ab(1) cd(1,3) k by (auto simp: append_eq_append_conv2 append_eq_Cons_conv Cons_eq_append_conv)
    moreover have "take (j - 1) (tl s) = c'" using cd c' by (simp flip: cd(3))
    moreover have "host = take (j - 1) (tl s)" "port = b" "CHR ''['' \<notin> set (drop 1 s)" "CHR '']'' \<notin> set (drop (length a) s)"
      using sp li j True k ab cd c' by (auto simp: SplitHostPort_def split: if_splits)
    ultimately show ?thesis using ab cd c' by (auto simp: hostport_def)
  qed
qed

lemma SplitHostPort_iff: "SplitHostPort s = Some (host, port) \<longleftrightarrow> hostport s host port"
  using SplitHostPort_sound SplitHostPort_complete by blast

text \<open>
  Which addresses the configuration accepts: exactly \<open>host:port\<close> and \<open>[host]:port\<close> with a port
  made of decimal digits only, whose value lies in 1..65535; where a host is required it is not
  empty. (Signs, service names and spaces in the port are rejected, leading zeros are not.)
\<close>

lemma address_accepts_iff:
  "address s requireHost = None \<longleftrightarrow>
    (\<exists>host port. hostport s host port \<and> (if requireHost then host \<noteq> '''' else True)
      \<and> port \<noteq> '''' \<and> set port \<subseteq> {c. is_digit c} \<and> digits_value port \<in> {1..65535})"
proof -
  have "\<not> hostport '''' host port" for host port by (simp add: hostport_def)
  then have ne: "hostport s host port \<Longrightarrow> s \<noteq> ''''" for host port by auto
  show ?thesis
  proof (cases "SplitHostPort s")
    case None
    then have "\<not> hostport s host port" for host port using SplitHostPort_complete by fastforce
    with None show ?thesis by (simp add: address_def)
  next
    case (Some hp)
    obtain host port where hp: "hp = (host, port)" by (cases hp)
    then have h: "hostport s host' port' \<longleftrightarrow> host' = host \<and> port' = port" for host' port'
      using Some SplitHostPort_iff [of s host' port'] by auto
    then have "s \<noteq> ''''" using ne by blast
    then show ?thesis
      by (auto simp: address_def Some hp h list_ex_iff Atoi_def split: if_splits)
  qed
qed

subsection \<open>Everything loaded is in range\<close>

definition client_pool_ok :: "client_pool \<Rightarrow> bool" where
  "client_pool_ok p \<longleftrightarrow>
     cp_MinIdle p \<in> {1..1024} \<and> cp_MaxIdle p \<in> {cp_MinIdle p..1024}
     \<and> cp_Heartbeat p \<in> {second..10 * minute} \<and> cp_IdleTimeout p \<in> {second..24 * hour}
     \<and> cp_IdleJitter p \<in> {0..cp_IdleTimeout p} \<and> cp_MaxLifetime p \<in> {second..7 * 24 * hour}
     \<and> cp_LifetimeJitter p \<in> {0..cp_MaxLifetime p}"

text \<open>
  The limits are stated on their own, not through the checks of the code: \<open>decimal s\<close> is the value of a
  string of digits, place by place; a name has letters, digits, hyphens and underscores.
\<close>

fun decimal :: "string \<Rightarrow> int" where
  "decimal [] = 0"
| "decimal (c # cs) = (of_char c - 48) * 10 ^ length cs + decimal cs"

definition addr_ok :: "string \<Rightarrow> bool \<Rightarrow> bool" where
  "addr_ok s needs_host \<longleftrightarrow> (\<exists>host port. hostport s host port \<and> (needs_host \<longrightarrow> host \<noteq> [])
     \<and> port \<noteq> [] \<and> set port \<subseteq> set ''0123456789'' \<and> 1 \<le> decimal port \<and> decimal port \<le> 65535)"

definition name_ok :: "string \<Rightarrow> bool" where
  "name_ok s \<longleftrightarrow> 1 \<le> length s \<and> length s \<le> 64 \<and> (\<forall>c \<in> set s.
     (of_char c :: int) \<in> {65..90} \<union> {97..122} \<union> {48..57} \<union> {45, 95})"

lemma digits_value_decimal: "digits_value s = decimal s"
proof -
  have "foldl (\<lambda>n c. 10 * n + (of_char c - 48)) a s = a * 10 ^ length s + decimal s" for a :: int
    by (induction s arbitrary: a) (auto simp: algebra_simps)
  then show ?thesis by (simp add: digits_value_def)
qed

lemma digit_in: "is_digit c \<longleftrightarrow> c \<in> set ''0123456789''"
proof
  assume "is_digit c"
  then obtain k where k: "of_char c = (k :: int)" "48 \<le> k" "k \<le> 57" by (simp add: is_digit_def)
  then have "(of_char c :: nat) = nat k" by (metis of_char_of nat_int of_char_def of_nat_of_char)
  then have "c = char_of (nat k)" by (metis char_of_char)
  moreover have "k = 48 \<or> k = 49 \<or> k = 50 \<or> k = 51 \<or> k = 52 \<or> k = 53 \<or> k = 54 \<or> k = 55 \<or> k = 56 \<or> k = 57"
    using k(2,3) by presburger
  ultimately show "c \<in> set ''0123456789''" by (elim disjE) (simp_all add: char_of_def bit_Suc_0_iff)
qed (auto simp: is_digit_def)

lemma address_ok: "address s b = None \<longleftrightarrow> addr_ok s b"
proof -
  have "set port \<subseteq> {c. is_digit c} \<longleftrightarrow> set port \<subseteq> set ''0123456789''" for port
    using digit_in by blast
  then show ?thesis unfolding address_accepts_iff addr_ok_def digits_value_decimal by (cases b) simp_all
qed

lemma name_ok_iff: "serviceName s \<longleftrightarrow> name_ok s"
proof -
  have "name_char c \<longleftrightarrow> (of_char c :: int) \<in> {65..90} \<union> {97..122} \<union> {48..57} \<union> {45, 95}" for c
  proof -
    have "c = CHR ''_'' \<longleftrightarrow> (of_char c :: int) = 95" "c = CHR ''-'' \<longleftrightarrow> (of_char c :: int) = 45"
      using of_char_eq_iff [where 'a = int, of c "CHR ''_''"] of_char_eq_iff [where 'a = int, of c "CHR ''-''"] by simp_all
    then show ?thesis by (auto simp: name_char_def is_digit_def Let_def)
  qed
  then show ?thesis by (simp add: serviceName_def name_ok_def list_all_iff)
qed

definition service_ok :: "environ \<Rightarrow> bool \<Rightarrow> service \<Rightarrow> bool" where
  "service_ok E server x \<longleftrightarrow>
     addr_ok (Addr x) (\<not> server) \<and> length (Token x) \<in> {32..256}
     \<and> TokenHash x = sha256 E (Token x)"

definition services_ok :: "environ \<Rightarrow> bool \<Rightarrow> (string \<rightharpoonup> service) \<Rightarrow> bool" where
  "services_ok E server m \<longleftrightarrow>
     m \<noteq> Map.empty \<and> (\<forall>name x. m name = Some x \<longrightarrow> name_ok name \<and> service_ok E server x)"

definition path_ok :: "string \<Rightarrow> bool" where
  "path_ok p \<longleftrightarrow> p \<noteq> '''' \<and> hd p = CHR ''/'' \<and> set p \<inter> set ''?#'' = {}"

text \<open>A transport is Noise with two 32-byte keys, or WebSocket with a path.\<close>

definition transport_ok :: "string \<Rightarrow> bytes \<Rightarrow> bytes \<Rightarrow> string \<Rightarrow> bool" where
  "transport_ok typ priv peer path \<longleftrightarrow>
     typ = ''noise'' \<and> length priv = 32 \<and> length peer = 32 \<or> typ = ''wss'' \<and> path_ok path"

text \<open>The hashes kept are those of credentials of acceptable length.\<close>

definition creds_ok :: "environ \<Rightarrow> metrics_conf \<Rightarrow> string \<Rightarrow> string \<Rightarrow> bool" where
  "creds_ok E x u pw \<longleftrightarrow> UsernameHash x = sha256 E u \<and> PasswordHash x = sha256 E pw
     \<and> length u \<in> {1..64} \<and> set u \<inter> {CHR '':'', CHR 0x00, CHR 0x0D, CHR 0x0A} = {} \<and> length pw \<in> {16..256}"

definition metrics_ok :: "environ \<Rightarrow> metrics_conf option \<Rightarrow> bool" where
  "metrics_ok E m \<longleftrightarrow> (case m of None \<Rightarrow> True | Some x \<Rightarrow>
     addr_ok (m_BindAddr x) False
     \<and> (\<exists>u pw. creds_ok E x u pw))"

definition server_ok :: "environ \<Rightarrow> server_conf \<Rightarrow> bool" where
  "server_ok E s \<longleftrightarrow>
     addr_ok (sv_BindAddr s) False \<and> services_ok E True (sv_Services s)
     \<and> transport_ok (st_Type (sv_Transport s)) (st_PrivateKey (sv_Transport s))
         (st_PeerKey (sv_Transport s)) (st_Path (sv_Transport s))
     \<and> MaxPending (sv_Pool s) \<in> {1..4096} \<and> AcquireTimeout (sv_Pool s) \<in> {1..minute}
     \<and> metrics_ok E (sv_Metrics s)"

definition client_ok :: "environ \<Rightarrow> client_conf \<Rightarrow> bool" where
  "client_ok E c \<longleftrightarrow>
     addr_ok (cl_RemoteAddr c) True \<and> services_ok E False (cl_Services c)
     \<and> transport_ok (ct_Type (cl_Transport c)) (ct_PrivateKey (cl_Transport c))
         (ct_PeerKey (cl_Transport c)) (ct_Path (cl_Transport c))
     \<and> ct_RemoteAddr (cl_Transport c) = cl_RemoteAddr c \<and> ct_DialTimeout (cl_Transport c) = cl_DialTimeout c
     \<and> cl_DialTimeout c \<in> {1..5 * second} \<and> client_pool_ok (cl_Pool c) \<and> metrics_ok E (cl_Metrics c)"

definition config_ok :: "environ \<Rightarrow> config \<Rightarrow> bool" where
  "config_ok E cfg \<longleftrightarrow>
     (case (Server cfg, Client cfg) of
        (Some s, None) \<Rightarrow> server_ok E s
      | (None, Some c) \<Rightarrow> client_ok E c
      | _ \<Rightarrow> False)"

lemma ValidatePool_iff: "ValidatePool p = None \<longleftrightarrow> client_pool_ok p"
  by (auto simp: ValidatePool_def client_pool_ok_def not_less)

lemma parse_service_ok:
  "parse_service E df server name s = Inr x \<Longrightarrow> name_ok name \<and> service_ok E server x"
  by (auto simp: parse_service_def service_ok_def address_ok name_ok_iff Let_def not_less split: if_splits option.splits)

text \<open>The map a successful loop builds, and the entries it takes.\<close>

definition parsed :: "environ \<Rightarrow> string option \<Rightarrow> bool \<Rightarrow> (string \<times> raw_service) list \<Rightarrow> (string \<times> service) list" where
  "parsed E df server raw = map (\<lambda>(name, s). (name, projr (parse_service E df server name s))) raw"

lemma services_loop_Inr:
  "services_loop E df server raw out = Inr m \<longleftrightarrow>
    (\<forall>(name, s) \<in> set raw. \<exists>x. parse_service E df server name s = Inr x)
    \<and> m = out ++ map_of (rev (parsed E df server raw))"
proof (induction raw arbitrary: out)
  case (Cons e rest)
  then show ?case
    by (cases e; cases "parse_service E df server (fst e) (snd e)")
      (auto simp: parsed_def simp del: fun_upd_apply)
qed (auto simp: parsed_def)

lemma parseServices_ok:
  assumes "parseServices E raw df server = Inr m"
  shows "services_ok E server m"
proof -
  have raw: "raw \<noteq> []" and all: "\<forall>(name, s) \<in> set raw. \<exists>x. parse_service E df server name s = Inr x"
    and m: "m = map_of (rev (parsed E df server raw))"
    using assms services_loop_Inr [of E df server raw Map.empty m]
    by (auto simp: parseServices_def split: if_splits)
  have "name_ok name \<and> service_ok E server x" if "m name = Some x" for name x
    using map_of_SomeD [of _ name x] that all
    by (fastforce simp: m parsed_def dest: parse_service_ok)
  moreover have "m \<noteq> Map.empty"
    using raw by (cases raw) (auto simp: m parsed_def map_of_eq_empty_iff simp del: map_of_append)
  ultimately show ?thesis by (simp add: services_ok_def)
qed

lemma key_ok: "key E s = Inr b \<Longrightarrow> length b = 32"
  by (auto simp: key_def split: option.splits if_splits)

lemma noiseKeys_ok: "noiseKeys E r = Inr (a, b) \<Longrightarrow> length a = 32 \<and> length b = 32"
  by (auto simp: noiseKeys_def key_ok split: option.splits sum.splits)

lemma wsPath_ok: "wsPath r = Inr p \<Longrightarrow> path_ok p"
  by (cases p) (auto simp: wsPath_def Let_def path_ok_def has_prefix_def contains_any_def list_ex_iff
      split: if_splits option.splits)

lemma serverTransport_ok: "serverTransport E r dir = Inr t \<Longrightarrow>
    transport_ok (st_Type t) (st_PrivateKey t) (st_PeerKey t) (st_Path t)"
  by (auto simp: serverTransport_def Let_def transport_ok_def dest: noiseKeys_ok wsPath_ok
      split: if_splits option.splits sum.splits)

lemma client_tls_same: "client_tls E s dir t = Inr t' \<Longrightarrow>
    ct_Type t' = ct_Type t \<and> ct_PrivateKey t' = ct_PrivateKey t \<and> ct_PeerKey t' = ct_PeerKey t"
  by (auto simp: client_tls_def Let_def split: if_splits option.splits)

lemma clientTransport_ok: "clientTransport E r dir = Inr t \<Longrightarrow>
    transport_ok (ct_Type t) (ct_PrivateKey t) (ct_PeerKey t) (ct_Path t)"
  by (auto simp: clientTransport_def Let_def transport_ok_def dest: noiseKeys_ok wsPath_ok client_tls_same
      split: if_splits option.splits sum.splits)

lemma clientPool_ok: "clientPool E r = Inr p \<Longrightarrow> client_pool_ok p"
  by (auto simp: clientPool_def Let_def ValidatePool_iff simp del: set_durations.simps
      split: sum.splits option.splits if_splits)

lemma serverPool_ok:
  "serverPool E r = Inr p \<Longrightarrow> MaxPending p \<in> {1..4096} \<and> AcquireTimeout p \<in> {1..minute}"
  by (auto simp: serverPool_def Let_def not_less split: sum.splits option.splits if_splits)

lemma metricsConfig_ok:
  assumes "metricsConfig E r prfx = Inr m"
  shows "metrics_ok E m"
proof (cases r)
  case None
  with assms show ?thesis by (auto simp: metricsConfig_def metrics_ok_def)
next
  case (Some x)
  with assms obtain a u pw where
    f: "rm_BindAddr x = Some a" "rm_Username x = Some u" "rm_Password x = Some pw"
    by (auto simp: metricsConfig_def split: option.splits if_splits)
  have "address a False = None"
    using assms by (simp add: metricsConfig_def Some f split: option.splits)
  with assms have "\<not> (length u < 1 \<or> length u > 64
      \<or> contains_any u [CHR '':'', CHR 0x00, CHR 0x0D, CHR 0x0A])"
    by (auto simp: metricsConfig_def Some f simp del: One_nat_def)
  moreover from this assms \<open>address a False = None\<close> have "\<not> (length pw < 16 \<or> length pw > 256)"
    by (auto simp: metricsConfig_def Some f simp del: One_nat_def)
  moreover from calculation assms \<open>address a False = None\<close> have
    "m = Some \<lparr>m_BindAddr = a, UsernameHash = sha256 E u, PasswordHash = sha256 E pw\<rparr>"
    by (simp add: metricsConfig_def Some f)
  moreover from calculation(1) have "set u \<inter> {CHR '':'', CHR 0x00, CHR 0x0D, CHR 0x0A} = {}" by (auto simp: contains_any_def list_ex_iff)
  ultimately have "creds_ok E (the m) u pw" "m_BindAddr (the m) = a" "m \<noteq> None"
    by (simp_all add: creds_ok_def Suc_le_eq)
  then show ?thesis using \<open>address a False = None\<close> by (auto simp: metrics_ok_def address_ok) blast
qed

lemma dial_timeout_ok: "dial_timeout E r = Inr d \<Longrightarrow> d \<in> {1..5 * second}"
  by (auto simp: dial_timeout_def split: option.splits if_splits)

lemma load_server_ok: "load_server E dir r = Inr cfg \<Longrightarrow> config_ok E cfg"
  by (auto simp: load_server_def config_ok_def server_ok_def address_ok
      dest!: parseServices_ok serverTransport_ok serverPool_ok metricsConfig_ok
      split: option.splits sum.splits)

lemma load_client_ok: "load_client E dir r = Inr cfg \<Longrightarrow> config_ok E cfg"
  by (auto simp: load_client_def config_ok_def client_ok_def address_ok
      dest!: parseServices_ok clientTransport_ok clientPool_ok metricsConfig_ok dial_timeout_ok
      split: option.splits sum.splits)

text \<open>
  C22. Load returns either a valid configuration or an error that names the file. Valid means:
  exactly one role; every address is \<open>host:port\<close> or \<open>[host]:port\<close> with a decimal port from 1 to 65535, and a host
  where one is dialled; at least one service, each with a name of 1 to 64 letters, digits, hyphens and
  underscores, an address, a token of 32 to 256 bytes and its hash; a Noise transport with two 32-byte
  keys or a WebSocket one with a path that starts with a slash and has no question mark or hash sign;
  every limit of the pool and every timeout in its range; and metrics only with the hashes of a user
  name of 1 to 64 bytes without colon, NUL, CR and LF, and a password of 16 to 256 bytes.
\<close>

theorem Load_sound:
  "case Load E path of
     Inr cfg \<Rightarrow> config_ok E cfg
   | Inl err \<Rightarrow> has_prefix (error_text err) (''configuration '' @ path_base path @ '':'')"
proof -
  have "config_ok E cfg" if "load_body E path = Inr cfg" for cfg
    using that by (auto simp: load_body_def dest: load_server_ok load_client_ok
        split: sum.splits option.splits)
  then show ?thesis by (auto simp: Load_def has_prefix_def split: sum.splits)
qed

subsection \<open>Iteration order\<close>

lemma parsed_distinct: "distinct (map fst (parsed E df server raw)) = distinct (map fst raw)"
  by (simp add: parsed_def comp_def split_beta)

text \<open>
  The services a configuration yields do not depend on the order in which Go iterates over the
  map of raw services: two orders of the same entries are both accepted, with the same result, or
  both rejected.
\<close>

theorem parseServices_order:
  assumes "mset raw = mset raw'" and "distinct (map fst raw)"
  shows "case (parseServices E raw df server, parseServices E raw' df server) of
      (Inr m, Inr m') \<Rightarrow> m = m'
    | (Inl e, Inl e') \<Rightarrow> True
    | _ \<Rightarrow> False"
proof -
  have set: "set raw = set raw'" using assms(1) by (rule mset_eq_setD)
  then have nil: "raw = [] \<longleftrightarrow> raw' = []" by auto
  have "mset (map fst raw) = mset (map fst raw')" using assms(1) by (simp only: mset_map)
  then have "distinct (map fst raw')" using assms(2) mset_eq_imp_distinct_iff by blast
  then have "map_of (parsed E df server raw) = map_of (parsed E df server raw')"
    using assms(2) by (subst map_of_inject_set) (simp_all add: parsed_distinct, simp add: parsed_def set)
  moreover have "map_of (rev (parsed E df server r)) = map_of (parsed E df server r)"
    if "distinct (map fst r)" for r
    using that by (intro map_of_inject_set [THEN iffD2]) (auto simp: parsed_distinct simp flip: rev_map)
  ultimately have m: "map_of (rev (parsed E df server raw)) = map_of (rev (parsed E df server raw'))"
    using assms(2) \<open>distinct (map fst raw')\<close> by simp
  have same: "services_loop E df server raw Map.empty = Inr x
      \<longleftrightarrow> services_loop E df server raw' Map.empty = Inr x" for x
    by (simp only: services_loop_Inr set m)
  show ?thesis
  proof (cases "services_loop E df server raw Map.empty")
    case (Inr x)
    then have "services_loop E df server raw' Map.empty = Inr x" using same by blast
    with Inr show ?thesis by (simp add: parseServices_def nil)
  next
    case (Inl e)
    then have "services_loop E df server raw' Map.empty \<noteq> Inr x" for x using same [of x] by simp
    then obtain e' where "services_loop E df server raw' Map.empty = Inl e'"
      by (cases "services_loop E df server raw' Map.empty") auto
    with Inl show ?thesis by (simp add: parseServices_def nil)
  qed
qed

subsection \<open>The client's pool settings\<close>

text \<open>
  Defaults of the client's pool. With no key set, the pool keeps 2 to 8 idle connections with a
  heartbeat of 15 s, an idle timeout of 5 min and a lifetime of 1 h, and both jitters are a tenth of
  their base. More generally an omitted jitter never makes a pool invalid: the table is accepted
  as soon as the other five values are in range, and the jitter is then a tenth of its base.
\<close>

theorem clientPool_jitters:
  assumes "rcp_IdleJitter r = None" and "rcp_LifetimeJitter r = None"
    and "rcp_Heartbeat r = Some h" and "parse_duration E h = Some hb" and "hb \<in> {second..10 * minute}"
    and "rcp_IdleTimeout r = Some i" and "parse_duration E i = Some it" and "it \<in> {second..24 * hour}"
    and "rcp_MaxLifetime r = Some l" and "parse_duration E l = Some lt" and "lt \<in> {second..7 * 24 * hour}"
    and "rcp_MinIdle r = Some mn" and "rcp_MaxIdle r = Some mx" and "1 \<le> mn" and "mn \<le> mx" and "mx \<le> 1024"
  shows "clientPool E r = Inr \<lparr>cp_MinIdle = mn, cp_MaxIdle = mx, cp_Heartbeat = hb, cp_IdleTimeout = it,
      cp_IdleJitter = it div 10, cp_MaxLifetime = lt, cp_LifetimeJitter = lt div 10\<rparr>
    \<and> clientPool E \<lparr>rcp_MinIdle = None, rcp_MaxIdle = None, rcp_Heartbeat = None, rcp_IdleTimeout = None,
        rcp_IdleJitter = None, rcp_MaxLifetime = None, rcp_LifetimeJitter = None\<rparr>
      = Inr \<lparr>cp_MinIdle = 2, cp_MaxIdle = 8, cp_Heartbeat = 15 * second, cp_IdleTimeout = 5 * minute,
        cp_IdleJitter = 30 * second, cp_MaxLifetime = hour, cp_LifetimeJitter = 6 * minute\<rparr>"
proof -
  have q: "x sdiv 10 = x div 10" if "0 \<le> x" for x :: int
    using that by (cases "x = 0") (auto simp: signed_divide_int_def sgn_if)
  have "0 \<le> it" "0 \<le> lt" using assms by (auto simp: time_consts)
  then show ?thesis
    using assms
    by (auto simp: clientPool_def Let_def default_client_pool_def ValidatePool_def q time_consts)
qed

subsection \<open>What errors disclose\<close>

definition address_errors :: "error set" where
  "address_errors = {Errmsg ''invalid host:port'', Errmsg ''empty host'', Errmsg ''invalid port''}"

lemma address_errors: "address s b = Some e \<Longrightarrow> e \<in> address_errors"
  by (auto simp: address_def address_errors_def split: option.splits if_splits)

text \<open>
  Errors do not disclose secrets. An error of the metrics table is one of seven fixed texts, an
  error of the Noise keys one of three, and an error of a service names at most the service, and
  that only when the name is legal: none depends on a token, a user name, a password or a key.
\<close>

theorem config_errors_fixed:
  "(case metricsConfig E r prfx of Inr m \<Rightarrow> True
     | Inl e \<Rightarrow> e \<in> Wrap (prfx @ ''.bind_addr: '') ` address_errors
         \<union> (\<lambda>m. Errmsg (prfx @ m)) ` {''.bind_addr: required'', ''.username: required'',
             ''.username: must be 1..64 bytes without ':' or control characters'',
             ''.password: required'', ''.password: length must be 16..256 bytes''})
   \<and> (case noiseKeys E n of Inr ks \<Rightarrow> True
     | Inl e \<Rightarrow> e \<in> {Errmsg ''transport.noise: required'',
         Wrap ''transport.noise.local_private_key: '' (Errmsg ''invalid base64 X25519 key''),
         Wrap ''transport.noise.remote_public_key: '' (Errmsg ''invalid base64 X25519 key'')})
   \<and> (case parse_service E df server name s of Inr x \<Rightarrow> True
     | Inl e \<Rightarrow> e = Errmsg ''services: invalid name''
         \<or> serviceName name
           \<and> ((\<exists>m \<in> {''.local_addr: not allowed'', ''.bind_addr: not allowed'',
                   ''.token: length must be 32..256 bytes''}. e = Errmsg (''services.'' @ name @ m))
              \<or> (\<exists>f \<in> {''bind_addr'', ''local_addr''}. \<exists>x \<in> address_errors.
                   e = Wrap (''services.'' @ name @ ''.'' @ f @ '': '') x)))"
proof (intro conjI)
  show "case metricsConfig E r prfx of Inr m \<Rightarrow> True
     | Inl e \<Rightarrow> e \<in> Wrap (prfx @ ''.bind_addr: '') ` address_errors
         \<union> (\<lambda>m. Errmsg (prfx @ m)) ` {''.bind_addr: required'', ''.username: required'',
             ''.username: must be 1..64 bytes without ':' or control characters'',
             ''.password: required'', ''.password: length must be 16..256 bytes''}"
    by (simp add: metricsConfig_def address_errors split: option.split)
  show "case noiseKeys E n of Inr ks \<Rightarrow> True
     | Inl e \<Rightarrow> e \<in> {Errmsg ''transport.noise: required'',
         Wrap ''transport.noise.local_private_key: '' (Errmsg ''invalid base64 X25519 key''),
         Wrap ''transport.noise.remote_public_key: '' (Errmsg ''invalid base64 X25519 key'')}"
    by (auto simp: noiseKeys_def key_def split: option.split)
  show "case parse_service E df server name s of Inr x \<Rightarrow> True
     | Inl e \<Rightarrow> e = Errmsg ''services: invalid name''
         \<or> serviceName name
           \<and> ((\<exists>m \<in> {''.local_addr: not allowed'', ''.bind_addr: not allowed'',
                   ''.token: length must be 32..256 bytes''}. e = Errmsg (''services.'' @ name @ m))
              \<or> (\<exists>f \<in> {''bind_addr'', ''local_addr''}. \<exists>x \<in> address_errors.
                   e = Wrap (''services.'' @ name @ ''.'' @ f @ '': '') x))"
    by (auto simp: parse_service_def Let_def address_errors split: option.splits sum.splits if_splits)
qed

subsection \<open>Concrete configurations\<close>

definition demo_env :: environ where
  "demo_env = \<lparr>open_file = (\<lambda>_. Inr []), toml = (\<lambda>_. Inr \<lparr>r_Server = None, r_Client = None\<rparr>),
     sha256 = (\<lambda>s. [of_nat (length s)]), base64 = (\<lambda>_. None),
     parse_duration = (\<lambda>s. if s = ''20s'' then Some (20 * second) else if s = ''1h'' then Some hour else None),
     path_dir = id, path_join = (@), load_x509 = (\<lambda>_ _. None), read_file = (\<lambda>_. None),
     cert_pool = (\<lambda>_. None)\<rparr>"

text \<open>
  The message for user names excludes control characters; the check excludes NUL, CR and LF only, and
  accepts a tab.
\<close>

lemma username_tab_accepted:
  "case metricsConfig demo_env (Some \<lparr>rm_BindAddr = Some ''localhost:80'', rm_Username = Some [CHR 0x09],
      rm_Password = Some ''0123456789abcdef''\<rparr>) ''server.metrics'' of Inr m \<Rightarrow> m \<noteq> None | Inl e \<Rightarrow> False"
  by code_simp

definition demo_service :: raw_service where
  "demo_service = \<lparr>rs_BindAddr = None, rs_LocalAddr = Some ''localhost:80'',
     rs_Token = Some ''0123456789abcdef0123456789abcdef''\<rparr>"

theorem parseServices_order_witness:
  "case (parseServices demo_env [(''a'', demo_service), (''b'', demo_service)] None False,
      parseServices demo_env [(''b'', demo_service), (''a'', demo_service)] None False) of
    (Inr m, Inr m') \<Rightarrow> m = m' \<and> m' ''b'' \<noteq> None | _ \<Rightarrow> False"
proof -
  let ?xs = "[(''a'', demo_service), (''b'', demo_service)]"
  let ?ys = "[(''b'', demo_service), (''a'', demo_service)]"
  have "case parseServices demo_env ?ys None False of Inr m \<Rightarrow> m ''b'' \<noteq> None | Inl e \<Rightarrow> False"
    by code_simp
  moreover have "case parseServices demo_env ?xs None False of Inr m \<Rightarrow> m ''b'' \<noteq> None | Inl e \<Rightarrow> False"
    by code_simp
  moreover have "mset ?xs = mset ?ys" "distinct (map fst ?xs)" by simp_all
  ultimately show ?thesis
    using parseServices_order [of ?xs ?ys demo_env None False]
    by (cases "parseServices demo_env ?xs None False"; cases "parseServices demo_env ?ys None False")
      (simp_all only: sum.case prod.case)
qed

theorem clientPool_jitters_witness:
  "clientPool demo_env \<lparr>rcp_MinIdle = Some 1, rcp_MaxIdle = Some 4, rcp_Heartbeat = Some ''20s'',
      rcp_IdleTimeout = Some ''1h'', rcp_IdleJitter = None, rcp_MaxLifetime = Some ''1h'',
      rcp_LifetimeJitter = None\<rparr>
    = Inr \<lparr>cp_MinIdle = 1, cp_MaxIdle = 4, cp_Heartbeat = 20 * second, cp_IdleTimeout = hour,
      cp_IdleJitter = hour div 10, cp_MaxLifetime = hour, cp_LifetimeJitter = hour div 10\<rparr>"
proof -
  let ?r = "\<lparr>rcp_MinIdle = Some 1, rcp_MaxIdle = Some 4, rcp_Heartbeat = Some ''20s'',
      rcp_IdleTimeout = Some ''1h'', rcp_IdleJitter = None, rcp_MaxLifetime = Some ''1h'',
      rcp_LifetimeJitter = None\<rparr>"
  have d: "parse_duration demo_env ''20s'' = Some (20 * second)" "parse_duration demo_env ''1h'' = Some hour"
    by code_simp+
  have h: "20 * second \<in> {second..10 * minute}" "hour \<in> {second..24 * hour}"
    "hour \<in> {second..7 * 24 * hour}"
    by (simp_all add: time_consts)
  have r: "rcp_IdleJitter ?r = None" "rcp_LifetimeJitter ?r = None" "rcp_Heartbeat ?r = Some ''20s''"
    "rcp_IdleTimeout ?r = Some ''1h''" "rcp_MaxLifetime ?r = Some ''1h''" "rcp_MinIdle ?r = Some 1"
    "rcp_MaxIdle ?r = Some 4"
    by simp_all
  show ?thesis
    using clientPool_jitters [OF r(1-3) d(1) h(1) r(4) d(2) h(2) r(5) d(2) h(3) r(6,7)] by simp
qed

end
