(* ===== verification/Noise.thy ===== *)
theory Noise
  imports Protocol
begin

text \<open>
  The Noise transport of \<^verbatim>\<open>internal/transport/noise.go\<close>: the KK handshake over a connection, and
  the packet layer of \<open>noiseConn\<close>. Keys, the cipher and the handshake state machine come from the
  library \<^verbatim>\<open>flynn/noise\<close>: a cipher state has an abstract type \<open>'k\<close>, and \<open>Encrypt\<close>, \<open>Decrypt\<close>,
  \<open>WriteMessage\<close> and \<open>ReadMessage\<close> are arguments. What is assumed of them is stated where it is
  used. The packet format is a second instance of \<open>prefix_codec\<close>; the plaintext side of a
  connection is a second instance of the reader and writer interfaces, so that frames travel over
  it by the same lemmas.

  Read and write deadlines are not part of the state: a deadline that passes shows as the error
  with which the network ends a read or a write, which is arbitrary here.
\<close>

subsection \<open>Connections\<close>

abbreviation chunk :: nat where "chunk \<equiv> 32768"

text \<open>The package has its own \<^verbatim>\<open>fullWrite\<close>, the loop of \<open>write_full\<close>, and calls \<open>read_full\<close> through \<open>readFull\<close>.\<close>

abbreviation fullWrite :: "'s writer \<Rightarrow> 's \<Rightarrow> bytes \<Rightarrow> 's \<times> error option" where
  "fullWrite \<equiv> write_full"

abbreviation readFull :: "'s reader \<Rightarrow> 's \<Rightarrow> nat \<Rightarrow> ('s \<times> bytes \<times> error option) option" where
  "readFull rd s n \<equiv> read_full rd s n []"

type_synonym 'k crypt = "'k \<Rightarrow> bytes \<Rightarrow> bytes \<Rightarrow> 'k \<times> (error + bytes)"

record 'k noise_conn =
  raw :: net_conn
  send_key :: 'k
  recv_key :: 'k
  leftover :: bytes
  close_once :: bool

text \<open>
  \<open>Close\<close> runs the close of the connection once and then answers nil: the result is the new state
  and the error, \<open>closing\<close> being what the network reports on closing.
\<close>

definition noise_Close :: "error option \<Rightarrow> 'k noise_conn \<Rightarrow> 'k noise_conn \<times> error option" where
  "noise_Close closing c =
     (if close_once c then (c, None)
      else (c\<lparr>raw := net_close (raw c), close_once := True\<rparr>, closing))"

text \<open>
  \<open>Read\<close> and \<open>Write\<close> ignore that error. Closing a connection that is closed changes nothing, so for
  them the close needs no case distinction.
\<close>

definition noise_close :: "'k noise_conn \<Rightarrow> 'k noise_conn" where
  "noise_close c = c\<lparr>raw := net_close (raw c), close_once := True\<rparr>"

lemma noise_close_Close: "close_once c \<longrightarrow> shut (raw c) \<Longrightarrow> fst (noise_Close e c) = noise_close c"
  by (auto simp: noise_Close_def noise_close_def net_close_def)

text \<open>\<open>copy(p, c.pending)\<close> and the slice after it.\<close>

definition deliver :: "'k noise_conn \<Rightarrow> nat \<Rightarrow> 'k noise_conn \<times> bytes \<times> error option" where
  "deliver c n = (c\<lparr>leftover := drop n (leftover c)\<rparr>, take n (leftover c), None)"

definition noise_read ::
    "'k crypt \<Rightarrow> 'k noise_conn \<Rightarrow> nat \<Rightarrow> ('k noise_conn \<times> bytes \<times> error option) option" where
  "noise_read decr c n =
     (if n = 0 then Some (c, [], None)
      else if leftover c \<noteq> [] then Some (deliver c n)
      else case readFull net_read (raw c) 2 of
             None \<Rightarrow> None
           | Some (s1, h, Some e) \<Rightarrow> Some (noise_close (c\<lparr>raw := s1\<rparr>), [], Some e)
           | Some (s1, h, None) \<Rightarrow>
               (let m = unat (get_be h :: u16)
                in if m < 17 \<or> m > chunk + 16
                   then Some (noise_close (c\<lparr>raw := s1\<rparr>), [], Some (Errmsg ''invalid ciphertext length''))
                   else case readFull net_read s1 m of
                          None \<Rightarrow> None
                        | Some (s2, ct, Some e) \<Rightarrow> Some (noise_close (c\<lparr>raw := s2\<rparr>), [], Some e)
                        | Some (s2, ct, None) \<Rightarrow>
                            (case decr (recv_key c) h ct of
                               (k, Inl e) \<Rightarrow>
                                 Some (noise_close (c\<lparr>raw := s2, recv_key := k\<rparr>), [], Some e)
                             | (k, Inr decoded) \<Rightarrow>
                                 Some (deliver (c\<lparr>raw := s2, recv_key := k, leftover := decoded\<rparr>) n))))"

text \<open>
  \<open>Encrypt\<close> appends to \<^verbatim>\<open>c.outbound[2:2]\<close>, whose capacity is \<open>chunk + 16\<close>: the packet is the header
  followed by the ciphertext.
\<close>

function noise_write_loop ::
    "'k crypt \<Rightarrow> 'k noise_conn \<Rightarrow> bytes \<Rightarrow> nat \<Rightarrow> 'k noise_conn \<times> nat \<times> error option" where
  "noise_write_loop encr c p sent =
     (if p = [] then (c, sent, None)
      else let n = min (length p) chunk; h = put_be 2 (of_nat (n + 16) :: u16)
           in case encr (send_key c) h (take n p) of
                (k, Inl e) \<Rightarrow> (noise_close (c\<lparr>send_key := k\<rparr>), sent, Some e)
              | (k, Inr ct) \<Rightarrow>
                  (case fullWrite net_write (raw c) (h @ ct) of
                     (s, Some e) \<Rightarrow> (noise_close (c\<lparr>send_key := k, raw := s\<rparr>), sent, Some e)
                   | (s, None) \<Rightarrow>
                       noise_write_loop encr (c\<lparr>send_key := k, raw := s\<rparr>) (drop n p) (sent + n)))"
  by pat_completeness auto
termination
  by (relation "measure (\<lambda>(encr, c, p, sent). length p)") (auto simp: min_def split: if_splits)

declare noise_write_loop.simps [simp del]

definition noise_write :: "'k crypt \<Rightarrow> 'k noise_conn writer" where
  "noise_write encr c p = (if p = [] then (c, 0, None) else noise_write_loop encr c p 0)"

subsection \<open>The handshake\<close>

text \<open>
  A handshake step yields a message or payload and, with the last message, the two cipher states
  (nil before that).
\<close>

record ('h, 'k) handshake =
  hs_write :: "'h \<Rightarrow> 'h \<times> (error + bytes \<times> 'k option \<times> 'k option)"
  hs_read :: "'h \<Rightarrow> bytes \<Rightarrow> 'h \<times> (error + bytes \<times> 'k option \<times> 'k option)"

record ('h, 'k) hs_state =
  hs :: 'h
  key1 :: "'k option"
  key2 :: "'k option"
  hraw :: net_conn

definition keep :: "'k option \<Rightarrow> 'k option \<Rightarrow> ('h, 'k) hs_state \<Rightarrow> ('h, 'k) hs_state" where
  "keep a b st = (if a \<noteq> None then st\<lparr>key1 := a, key2 := b\<rparr> else st)"

definition hs_send :: "('h, 'k) handshake \<Rightarrow> ('h, 'k) hs_state \<Rightarrow> ('h, 'k) hs_state \<times> error option" where
  "hs_send H st =
     (case hs_write H (hs st) of
        (x, Inl e) \<Rightarrow> (st\<lparr>hs := x\<rparr>, Some e)
      | (x, Inr (msg, a, b)) \<Rightarrow>
          if length msg \<noteq> 48 then (st\<lparr>hs := x\<rparr>, Some (Errmsg ''invalid KK message''))
          else case fullWrite net_write (hraw st) (put_be 2 (of_nat (length msg) :: u16)) of
                 (s1, Some e) \<Rightarrow> (st\<lparr>hs := x, hraw := s1\<rparr>, Some e)
               | (s1, None) \<Rightarrow>
                   (case fullWrite net_write s1 msg of
                      (s2, Some e) \<Rightarrow> (st\<lparr>hs := x, hraw := s2\<rparr>, Some e)
                    | (s2, None) \<Rightarrow> (keep a b (st\<lparr>hs := x, hraw := s2\<rparr>), None)))"

definition hs_recv ::
    "('h, 'k) handshake \<Rightarrow> ('h, 'k) hs_state \<Rightarrow> (('h, 'k) hs_state \<times> error option) option" where
  "hs_recv H st =
     (case readFull net_read (hraw st) 2 of
        None \<Rightarrow> None
      | Some (s1, h, Some e) \<Rightarrow> Some (st\<lparr>hraw := s1\<rparr>, Some e)
      | Some (s1, h, None) \<Rightarrow>
          if (get_be h :: u16) \<noteq> 48 then Some (st\<lparr>hraw := s1\<rparr>, Some (Errmsg ''invalid KK message length''))
          else case readFull net_read s1 48 of
                 None \<Rightarrow> None
               | Some (s2, msg, Some e) \<Rightarrow> Some (st\<lparr>hraw := s2\<rparr>, Some e)
               | Some (s2, msg, None) \<Rightarrow>
                   (case hs_read H (hs st) msg of
                      (x, Inl e) \<Rightarrow> Some (st\<lparr>hs := x, hraw := s2\<rparr>, Some e)
                    | (x, Inr (payload, a, b)) \<Rightarrow>
                        if payload \<noteq> []
                        then Some (st\<lparr>hs := x, hraw := s2\<rparr>, Some (Errmsg ''unexpected handshake payload''))
                        else Some (keep a b (st\<lparr>hs := x, hraw := s2\<rparr>), None)))"

text \<open>
  \<open>init\<close> is what \<^verbatim>\<open>ecdh.NewPrivateKey\<close> and \<^verbatim>\<open>noise.NewHandshakeState\<close> answer. The result holds
  the connection as the handshake left it and the wrapped connection or the error.
\<close>

definition hs_exchange ::
    "('h, 'k) handshake \<Rightarrow> bool \<Rightarrow> ('h, 'k) hs_state \<Rightarrow> (('h, 'k) hs_state \<times> error option) option" where
  "hs_exchange H initiator st =
     (if initiator
      then (case hs_send H st of
              (st1, Some e) \<Rightarrow> Some (st1, Some e)
            | (st1, None) \<Rightarrow> hs_recv H st1)
      else (case hs_recv H st of
              None \<Rightarrow> None
            | Some (st1, Some e) \<Rightarrow> Some (st1, Some e)
            | Some (st1, None) \<Rightarrow> Some (hs_send H st1)))"

definition handshakeNoise ::
    "('h, 'k) handshake \<Rightarrow> error + 'h \<Rightarrow> net_conn \<Rightarrow> bool \<Rightarrow> (net_conn \<times> (error + 'k noise_conn)) option" where
  "handshakeNoise H init rw initiator =
     (case init of
        Inl e \<Rightarrow> Some (rw, Inl e)
      | Inr x \<Rightarrow>
          (case hs_exchange H initiator \<lparr>hs = x, key1 = None, key2 = None, hraw = rw\<rparr> of
             None \<Rightarrow> None
           | Some (st, Some e) \<Rightarrow> Some (hraw st, Inl e)
           | Some (st, None) \<Rightarrow>
               (case (key1 st, key2 st) of
                  (Some a, Some b) \<Rightarrow>
                    Some (hraw st, Inr \<lparr>raw = hraw st,
                      send_key = (if initiator then a else b), recv_key = (if initiator then b else a),
                      leftover = [], close_once = False\<rparr>)
                | _ \<Rightarrow> Some (hraw st, Inl (Errmsg ''incomplete handshake'')))))"

text \<open>\<open>dialled\<close> is what the TCP dialer answers; on a failed handshake the connection is closed.\<close>

definition dialNoise ::
    "('h, 'k) handshake \<Rightarrow> error + 'h \<Rightarrow> error + net_conn \<Rightarrow> (net_conn option \<times> (error + 'k noise_conn)) option" where
  "dialNoise H init dialled =
     (case dialled of
        Inl e \<Rightarrow> Some (None, Inl e)
      | Inr rw \<Rightarrow>
          (case handshakeNoise H init rw True of
             None \<Rightarrow> None
           | Some (s, Inl e) \<Rightarrow> Some (Some (net_close s), Inl e)
           | Some (s, Inr c) \<Rightarrow> Some (Some s, Inr c)))"

subsection \<open>The packet format\<close>

definition packet_ok :: "bytes \<Rightarrow> bool" where
  "packet_ok ct \<longleftrightarrow> 17 \<le> length ct \<and> length ct \<le> chunk + 16"

definition packet :: "bytes \<Rightarrow> bytes" where
  "packet ct = put_be 2 (of_nat (length ct) :: u16) @ ct"

definition parse_packet :: "error \<Rightarrow> bytes \<Rightarrow> error + (bytes \<times> bytes)" where
  "parse_packet e bs =
     (if length bs < 2 then Inl (short_error bs e)
      else let m = unat (get_be (take 2 bs) :: u16); b = drop 2 bs
           in if m < 17 \<or> m > chunk + 16 then Inl (Errmsg ''invalid ciphertext length'')
              else if length b < m then Inl (short_error b e)
              else Inr (take m b, drop m b))"

lemma parse_packet_packet: "packet_ok ct \<Longrightarrow> parse_packet e (packet ct @ r) = Inr (ct, r)"
  by (simp add: parse_packet_def packet_def packet_ok_def Let_def wire_simps unat_of_nat)

lemma parse_packet_sound:
  assumes "parse_packet e bs = Inr (ct, r)"
  shows "packet_ok ct \<and> bs = packet ct @ r"
proof -
  let ?m = "unat (get_be (take 2 bs) :: u16)"
  have len: "2 \<le> length bs" and m: "17 \<le> ?m" "?m \<le> chunk + 16" "?m \<le> length (drop 2 bs)"
    and ct: "ct = take ?m (drop 2 bs)" and r: "r = drop ?m (drop 2 bs)"
    using assms by (auto simp: parse_packet_def Let_def split: if_splits)
  have "put_be 2 (of_nat ?m :: u16) = take 2 bs"
    using len put_get_be [where 'a = 16, of "take 2 bs"] by simp
  moreover have "length ct = ?m" using m ct by simp
  moreover have "bs = take 2 bs @ ct @ r" by (simp only: ct r append_take_drop_id)
  ultimately show ?thesis using m by (simp add: packet_ok_def packet_def)
qed

interpretation packets: prefix_codec packet_ok packet "parse_packet e" for e
  by unfold_locales (simp_all add: parse_packet_packet parse_packet_sound, auto simp: packet_def packet_ok_def)

lemma parse_packet_Nil [simp]: "parse_packet e [] = Inl e"
  by (simp add: parse_packet_def short_error_def)

subsection \<open>The plaintext of a stream\<close>

text \<open>
  What a receiver in key state \<open>k\<close> gets out of the bytes \<open>bs\<close>, followed by \<open>e\<close>: the plaintext, and
  the error that ends it. The guard on the rest always holds (a packet is not empty).
\<close>

function plain_stream :: "'k crypt \<Rightarrow> 'k \<Rightarrow> error \<Rightarrow> bytes \<Rightarrow> bytes \<times> error" where
  "plain_stream decr k e bs =
     (case parse_packet e bs of
        Inl x \<Rightarrow> ([], x)
      | Inr (ct, rest) \<Rightarrow>
          (case decr k (take 2 bs) ct of
             (k', Inl x) \<Rightarrow> ([], x)
           | (k', Inr pl) \<Rightarrow>
               if length rest < length bs
               then (case plain_stream decr k' e rest of (ps, x) \<Rightarrow> (pl @ ps, x))
               else (pl, e)))"
  by pat_completeness auto
termination
  by (relation "measure (\<lambda>(decr, k, e, bs). length bs)") auto

declare plain_stream.simps [simp del]

lemma plain_stream_Inl: "parse_packet e bs = Inl x \<Longrightarrow> plain_stream decr k e bs = ([], x)"
  by (subst plain_stream.simps) simp

lemma take2_packet [simp]: "take 2 (packet ct @ r) = put_be 2 (of_nat (length ct) :: u16)"
  by (simp add: packet_def)

lemma plain_stream_packet:
  assumes "packet_ok ct"
  shows "plain_stream decr k e (packet ct @ r) =
    (case decr k (put_be 2 (of_nat (length ct) :: u16)) ct of
       (k', Inl x) \<Rightarrow> ([], x)
     | (k', Inr pl) \<Rightarrow> (pl @ fst (plain_stream decr k' e r), snd (plain_stream decr k' e r)))"
  using assms packets.enc_nonempty [OF assms]
  by (subst plain_stream.simps)
    (auto simp: packets.dec_enc split_beta simp del: take_append split: sum.splits prod.splits)

definition noise_content :: "'k crypt \<Rightarrow> 'k noise_conn \<Rightarrow> bytes" where
  "noise_content decr c = leftover c
     @ fst (plain_stream decr (recv_key c) (net_ending (raw c)) (net_content (raw c)))"

definition noise_ending :: "'k crypt \<Rightarrow> 'k noise_conn \<Rightarrow> error" where
  "noise_ending decr c =
     snd (plain_stream decr (recv_key c) (net_ending (raw c)) (net_content (raw c)))"

text \<open>How one read with nothing left over goes, by the first packet of what the network holds.\<close>

lemma net_content_close [simp]: "net_content (net_close s) = []"
  by (simp add: net_content_def net_close_def)

lemma noise_read_bad:
  assumes "parse_packet (net_ending (raw c)) (net_content (raw c)) = Inl x"
    and "leftover c = []" and "0 < n"
  shows "\<exists>s. noise_read decr c n = Some (noise_close (c\<lparr>raw := s\<rparr>), [], Some x)"
proof (cases "length (net_content (raw c)) < 2")
  case True
  then obtain s' where "read_full net_read (raw c) 2 []
      = Some (s', net_content (raw c), Some (short_error (net_content (raw c)) (net_ending (raw c))))"
    using net_rd.read_full_short by blast
  with True assms show ?thesis by (auto simp: noise_read_def parse_packet_def)
next
  case False
  let ?m = "unat (get_be (take 2 (net_content (raw c))) :: u16)"
  obtain s1 where s1: "read_full net_read (raw c) 2 [] = Some (s1, take 2 (net_content (raw c)), None)"
    "net_content s1 = drop 2 (net_content (raw c))" "net_ending s1 = net_ending (raw c)"
    using False net_rd.read_full_some [of 2 "raw c"] by auto
  show ?thesis
  proof (cases "?m < 17 \<or> ?m > chunk + 16")
    case True
    with False s1 assms show ?thesis by (auto simp: noise_read_def parse_packet_def Let_def)
  next
    case ok: False
    with assms False s1 have "length (net_content s1) < ?m"
      and x: "x = short_error (net_content s1) (net_ending s1)"
      by (auto simp: parse_packet_def Let_def split: if_splits)
    then obtain s2 where "read_full net_read s1 ?m []
        = Some (s2, net_content s1, Some (short_error (net_content s1) (net_ending s1)))"
      using net_rd.read_full_short by blast
    with ok s1 assms x show ?thesis by (auto simp: noise_read_def Let_def)
  qed
qed

lemma noise_read_packet:
  assumes "parse_packet (net_ending (raw c)) (net_content (raw c)) = Inr (ct, r)"
    and "leftover c = []" and "0 < n"
  shows "\<exists>s. net_content s = r \<and> net_ending s = net_ending (raw c)
    \<and> noise_read decr c n = Some (case decr (recv_key c) (take 2 (net_content (raw c))) ct of
        (k, Inl e) \<Rightarrow> (noise_close (c\<lparr>raw := s, recv_key := k\<rparr>), [], Some e)
      | (k, Inr pl) \<Rightarrow> deliver (c\<lparr>raw := s, recv_key := k, leftover := pl\<rparr>) n)"
proof -
  let ?b = "net_content (raw c)" and ?m = "unat (get_be (take 2 (net_content (raw c))) :: u16)"
  have p: "2 \<le> length ?b" "\<not> (?m < 17 \<or> ?m > chunk + 16)" "?m \<le> length (drop 2 ?b)"
    "ct = take ?m (drop 2 ?b)" "r = drop ?m (drop 2 ?b)"
    using assms(1) by (auto simp: parse_packet_def Let_def split: if_splits)
  obtain s1 where s1: "read_full net_read (raw c) 2 [] = Some (s1, take 2 ?b, None)"
    "net_content s1 = drop 2 ?b" "net_ending s1 = net_ending (raw c)"
    using p(1) net_rd.read_full_some [of 2 "raw c"] by auto
  obtain s2 where s2: "read_full net_read s1 ?m [] = Some (s2, take ?m (net_content s1), None)"
    "net_content s2 = drop ?m (net_content s1)" "net_ending s2 = net_ending s1"
    using p(3) s1 net_rd.read_full_some [of ?m s1] by metis
  show ?thesis
    using s1 s2 p assms(2,3)
    by (intro exI [of _ s2]) (auto simp: noise_read_def Let_def split: sum.splits prod.splits)
qed

text \<open>\<open>Read\<close> always returns, whatever arrives.\<close>

lemma noise_read_returns: "\<exists>r. noise_read decr c n = Some r"
proof (cases "n = 0 \<or> leftover c \<noteq> []")
  case True
  then show ?thesis by (auto simp: noise_read_def deliver_def)
next
  case False
  then have l: "leftover c = []" "0 < n" by auto
  show ?thesis
  proof (cases "parse_packet (net_ending (raw c)) (net_content (raw c))")
    case (Inl x)
    from noise_read_bad [OF Inl l] show ?thesis by blast
  next
    case (Inr a)
    then show ?thesis using noise_read_packet [of c _ _ n decr] l by (cases a) blast
  qed
qed

definition noise_reader :: "'k crypt \<Rightarrow> 'k noise_conn reader" where
  "noise_reader decr c n = the (noise_read decr c n)"

lemma noise_read_reader: "noise_read decr c n = Some (noise_reader decr c n)"
  using noise_read_returns [of decr c n] by (auto simp: noise_reader_def)

subsection \<open>The connection as a reader and a writer\<close>

text \<open>
  The only thing a reader of plaintext relies on is that \<open>Decrypt\<close> yields as many bytes as the
  ciphertext has without its 16-byte tag.
\<close>

definition tag16 :: "'k crypt \<Rightarrow> bool" where
  "tag16 decr \<longleftrightarrow> (\<forall>k h ct k' pl. decr k h ct = (k', Inr pl) \<longrightarrow> length ct = length pl + 16)"

lemma noise_close_sel [simp]:
  "recv_key (noise_close c) = recv_key c" "leftover (noise_close c) = leftover c"
  "send_key (noise_close c) = send_key c"
  by (auto simp: noise_close_def)

lemma deliver_content:
  "deliver c n = (c', bs, e) \<Longrightarrow> noise_content decr c = bs @ noise_content decr c'
    \<and> length bs \<le> n \<and> noise_ending decr c' = noise_ending decr c \<and> e = None"
  by (auto simp: deliver_def noise_content_def noise_ending_def)

lemma noise_read_stream:
  assumes "leftover c = []" and "0 < n"
  shows "case parse_packet (net_ending (raw c)) (net_content (raw c)) of
      Inl x \<Rightarrow> \<exists>s. noise_reader decr c n = (noise_close (c\<lparr>raw := s\<rparr>), [], Some x)
    | Inr (ct, r) \<Rightarrow> \<exists>s. net_content s = r \<and> net_ending s = net_ending (raw c)
        \<and> noise_reader decr c n = (case decr (recv_key c) (put_be 2 (of_nat (length ct) :: u16)) ct of
            (k, Inl e) \<Rightarrow> (noise_close (c\<lparr>raw := s, recv_key := k\<rparr>), [], Some e)
          | (k, Inr pl) \<Rightarrow> deliver (c\<lparr>raw := s, recv_key := k, leftover := pl\<rparr>) n)"
proof (cases "parse_packet (net_ending (raw c)) (net_content (raw c))")
  case (Inl x)
  then show ?thesis using noise_read_bad [OF Inl assms, of decr] by (auto simp: noise_read_reader)
next
  case (Inr a)
  obtain ct r where a: "a = (ct, r)" by (cases a)
  have "take 2 (net_content (raw c)) = put_be 2 (of_nat (length ct) :: u16)"
    using parse_packet_sound [OF Inr [unfolded a]] by (simp del: take_append)
  then show ?thesis
    using noise_read_packet [OF Inr [unfolded a] assms, of decr] by (simp add: noise_read_reader Inr a)
qed

lemma noise_read_ok:
  assumes "tag16 decr" and "noise_reader decr c n = (c', bs, None)"
  shows "noise_content decr c = bs @ noise_content decr c' \<and> length bs \<le> n
    \<and> noise_ending decr c' = noise_ending decr c \<and> (0 < n \<longrightarrow> bs \<noteq> [])"
proof (cases "n = 0 \<or> leftover c \<noteq> []")
  case True
  then have "noise_reader decr c n = (if n = 0 then (c, [], None) else deliver c n)"
    by (cases "n = 0") (simp_all add: noise_reader_def noise_read_def)
  with True assms show ?thesis by (auto simp: deliver_def noise_content_def noise_ending_def split: if_splits)
next
  case False
  then have l: "leftover c = []" "0 < n" by auto
  then obtain ct r where p: "parse_packet (net_ending (raw c)) (net_content (raw c)) = Inr (ct, r)"
    using noise_read_stream [OF l, of decr] assms(2)
    by (cases "parse_packet (net_ending (raw c)) (net_content (raw c))") auto
  let ?d = "decr (recv_key c) (put_be 2 (of_nat (length ct) :: u16)) ct"
  obtain s where s: "net_content s = r" "net_ending s = net_ending (raw c)"
    "noise_reader decr c n = (case ?d of
       (k, Inl e) \<Rightarrow> (noise_close (c\<lparr>raw := s, recv_key := k\<rparr>), [], Some e)
     | (k, Inr pl) \<Rightarrow> deliver (c\<lparr>raw := s, recv_key := k, leftover := pl\<rparr>) n)"
    using noise_read_stream [OF l, of decr] p by auto
  then obtain k pl where d: "?d = (k, Inr pl)"
    using assms(2) by (auto split: prod.splits sum.splits)
  have ok: "packet_ok ct" and b: "net_content (raw c) = packet ct @ r"
    using parse_packet_sound [OF p] by auto
  have "length ct = length pl + 16" using assms(1) d by (auto simp: tag16_def)
  then have "pl \<noteq> []" using ok by (auto simp: packet_ok_def)
  moreover have "deliver (c\<lparr>raw := s, recv_key := k, leftover := pl\<rparr>) n = (c', bs, None)"
    using s(3) d assms(2) by simp
  moreover have "plain_stream decr (recv_key c) (net_ending (raw c)) (net_content (raw c))
      = (pl @ fst (plain_stream decr k (net_ending (raw c)) r), snd (plain_stream decr k (net_ending (raw c)) r))"
    by (simp add: b plain_stream_packet [OF ok] d)
  ultimately show ?thesis
    using l s(1,2) by (auto simp: deliver_def noise_content_def noise_ending_def)
qed

lemma noise_read_err:
  assumes "noise_reader decr c n = (c', bs, Some x)"
  shows "bs = [] \<and> noise_content decr c = [] \<and> x = noise_ending decr c \<and> noise_content decr c' = []
    \<and> shut (raw c')"
proof -
  have l: "leftover c = []" "0 < n"
    using assms by (auto simp: noise_reader_def noise_read_def deliver_def split: if_splits)
  have cl: "noise_content decr (noise_close d) = leftover d" for d :: "'a noise_conn"
    by (simp add: noise_content_def noise_close_def plain_stream_Inl)
  show ?thesis
  proof (cases "parse_packet (net_ending (raw c)) (net_content (raw c))")
    case (Inl y)
    then show ?thesis
      using noise_read_stream [OF l, of decr] assms l
      by (auto simp: cl) (auto simp: noise_content_def noise_ending_def plain_stream_Inl
          noise_close_def net_close_def)
  next
    case (Inr a)
    obtain ct r where a: "a = (ct, r)" by (cases a)
    have ok: "packet_ok ct" and b: "net_content (raw c) = packet ct @ r"
      using parse_packet_sound [OF Inr [unfolded a]] by auto
    let ?d = "decr (recv_key c) (put_be 2 (of_nat (length ct) :: u16)) ct"
    obtain s where s: "noise_reader decr c n = (case ?d of
        (k, Inl e) \<Rightarrow> (noise_close (c\<lparr>raw := s, recv_key := k\<rparr>), [], Some e)
      | (k, Inr pl) \<Rightarrow> deliver (c\<lparr>raw := s, recv_key := k, leftover := pl\<rparr>) n)"
      using noise_read_stream [OF l, of decr] Inr a by auto
    then obtain k where d: "?d = (k, Inl x)" and bs: "bs = []"
      and c': "c' = noise_close (c\<lparr>raw := s, recv_key := k\<rparr>)"
      using assms by (auto simp: deliver_def split: prod.splits sum.splits)
    have "noise_content decr c' = []" using l by (simp add: c' cl)
    moreover have "shut (raw c')" by (simp add: c' noise_close_def net_close_def)
    moreover have "plain_stream decr (recv_key c) (net_ending (raw c)) (net_content (raw c)) = ([], x)"
      by (simp add: b plain_stream_packet [OF ok] d)
    ultimately show ?thesis using l bs by (simp add: noise_content_def noise_ending_def)
  qed
qed

lemma noise_is_reader:
  "tag16 decr \<Longrightarrow> byte_reader (noise_reader decr) (noise_content decr) (noise_ending decr)"
  using noise_read_ok noise_read_err by unfold_locales blast+

lemma noise_write_loop_count:
  "noise_write_loop encr c p k = (c', n, e) \<Longrightarrow>
    k \<le> n \<and> n \<le> k + length p \<and> (e = None \<longrightarrow> n = k + length p) \<and> (e \<noteq> None \<longrightarrow> n < k + length p)"
proof (induction encr c p k rule: noise_write_loop.induct)
  case (1 encr c p k)
  show ?case
  proof (cases "p = []")
    case True
    with "1.prems" show ?thesis by (subst (asm) noise_write_loop.simps) simp
  next
    case False
    let ?n = "min (length p) chunk"
    have n: "0 < ?n" using False by simp
    show ?thesis
    proof (cases "encr (send_key c) (put_be 2 (of_nat (?n + 16) :: u16)) (take ?n p)")
      case (Pair k1 r)
      show ?thesis
      proof (cases r)
        case (Inl x)
        with "1.prems" Pair False show ?thesis by (subst (asm) noise_write_loop.simps) (auto simp: Let_def)
      next
        case (Inr ct)
        obtain s x where w: "write_full net_write (raw c) (put_be 2 (of_nat (?n + 16) :: u16) @ ct) = (s, x)"
          by (cases "write_full net_write (raw c) (put_be 2 (of_nat (?n + 16) :: u16) @ ct)")
        show ?thesis
        proof (cases x)
          case None
          with "1.prems" Pair Inr False w have
            l: "noise_write_loop encr (c\<lparr>send_key := k1, raw := s\<rparr>) (drop ?n p) (k + ?n) = (c', n, e)"
            by (subst (asm) noise_write_loop.simps) (auto simp: Let_def)
          from "1.IH" [OF False refl refl Pair [symmetric] Inr w [symmetric] None l] n
          show ?thesis by auto
        next
          case (Some y)
          with "1.prems" Pair Inr False w show ?thesis
            by (subst (asm) noise_write_loop.simps) (auto simp: Let_def)
        qed
      qed
    qed
  qed
qed

lemma noise_write_count:
  "noise_write encr c p = (c', n, e) \<Longrightarrow>
    n \<le> length p \<and> (e = None \<longleftrightarrow> n = length p)"
  using noise_write_loop_count [of encr c p 0 c' n e] by (auto simp: noise_write_def split: if_splits)

interpretation noise_wr: io_writer "noise_write encr" for encr
  using noise_write_count [of encr] by unfold_locales blast+

subsection \<open>What a successful write puts on the wire\<close>

text \<open>\<open>Encrypt\<close> adds its 16-byte tag.\<close>

definition adds16 :: "'k crypt \<Rightarrow> bool" where
  "adds16 encr \<longleftrightarrow> (\<forall>k h p k' ct. encr k h p = (k', Inr ct) \<longrightarrow> length ct = length p + 16)"

text \<open>The packets of a plaintext, with the key state after each.\<close>

fun seal :: "'k crypt \<Rightarrow> 'k \<Rightarrow> bytes list \<Rightarrow> ('k \<times> bytes list) option" where
  "seal encr k [] = Some (k, [])"
| "seal encr k (p # ps) =
     (case encr k (put_be 2 (of_nat (length p + 16) :: u16)) p of
        (k1, Inl e) \<Rightarrow> None
      | (k1, Inr ct) \<Rightarrow> map_option (\<lambda>(k2, cts). (k2, ct # cts)) (seal encr k1 ps))"

function chunks :: "bytes \<Rightarrow> bytes list" where
  "chunks p = (if p = [] then [] else take chunk p # chunks (drop chunk p))"
  by pat_completeness auto
termination
  by (relation "measure length") auto

declare chunks.simps [simp del]

lemma chunks_Nil [simp]: "chunks [] = []"
  by (subst chunks.simps) simp

lemma concat_chunks [simp]: "concat (chunks p) = p"
proof (induction p rule: chunks.induct)
  case (1 p)
  then show ?case by (subst chunks.simps) simp
qed

lemma chunks_bounds: "q \<in> set (chunks p) \<Longrightarrow> 0 < length q \<and> length q \<le> chunk"
proof (induction p rule: chunks.induct)
  case (1 p)
  then show ?case by (subst (asm) chunks.simps) (auto split: if_splits)
qed

lemma length_chunks: "length (chunks p) = (length p + 32767) div 32768"
proof (induction p rule: chunks.induct)
  case (1 p)
  show ?case
  proof (cases "p = []")
    case False
    with 1 have "length (chunks p) = Suc ((length p - 32768 + 32767) div 32768)"
      by (subst chunks.simps) simp
    also have "\<dots> = (length p + 32767) div 32768"
    proof -
      obtain m where m: "length p = Suc m" using False by (cases p) auto
      then have "(length p + 32767) div 32768 = Suc (m div 32768)" by (simp add: m)
      moreover have "(length p - 32768 + 32767) div 32768 = m div 32768"
        by (cases "32768 \<le> length p") (simp_all add: m)
      ultimately show ?thesis by simp
    qed
    finally show ?thesis .
  qed simp
qed

lemma noise_write_loop_ok:
  assumes "noise_write_loop encr c p j = (c', n, None)" and "adds16 encr"
  shows "\<exists>cts. seal encr (send_key c) (chunks p) = Some (send_key c', cts)
    \<and> tx (raw c') = tx (raw c) @ concat (map packet cts)"
  using assms
proof (induction encr c p j rule: noise_write_loop.induct)
  case (1 encr c p k)
  show ?case
  proof (cases "p = []")
    case True
    with "1.prems" show ?thesis by (subst (asm) noise_write_loop.simps) simp
  next
    case False
    let ?n = "min (length p) chunk"
    let ?h = "put_be 2 (of_nat (?n + 16) :: u16)"
    have t: "take ?n p = take chunk p" "drop ?n p = drop chunk p" by (auto simp: min_def)
    obtain k1 ct where e: "encr (send_key c) ?h (take ?n p) = (k1, Inr ct)"
      using "1.prems"(1) False
      by (subst (asm) noise_write_loop.simps) (auto simp: Let_def split: prod.splits sum.splits)
    obtain s where w: "write_full net_write (raw c) (?h @ ct) = (s, None)"
      using "1.prems"(1) False e
      by (subst (asm) noise_write_loop.simps) (auto simp: Let_def split: prod.splits option.splits)
    have l: "noise_write_loop encr (c\<lparr>send_key := k1, raw := s\<rparr>) (drop ?n p) (k + ?n) = (c', n, None)"
      using "1.prems"(1) False e w by (subst (asm) noise_write_loop.simps) (auto simp: Let_def)
    have len: "length ct = ?n + 16"
      using adds16_def [THEN iffD1, rule_format, OF "1.prems"(2) e] by (simp del: min_less_iff_conj)
    have "\<exists>cts. seal encr k1 (chunks (drop ?n p)) = Some (send_key c', cts)
        \<and> tx (raw c') = tx s @ concat (map packet cts)"
      using "1.IH" [OF False refl refl e [symmetric] refl w [symmetric] refl l "1.prems"(2)]
      by simp
    then obtain cts where "seal encr k1 (chunks (drop chunk p)) = Some (send_key c', cts)"
      "tx (raw c') = tx s @ concat (map packet cts)" unfolding t by blast
    moreover have "tx s = tx (raw c) @ packet ct"
      using net_wr.write_full_ok [OF w] by (simp add: packet_def len)
    ultimately show ?thesis
      using e False by (subst chunks.simps) (auto simp: t min.commute)
  qed
qed

subsection \<open>The channel\<close>

text \<open>
  The documented behaviour of an AEAD pair with synchronised states: what \<open>Encrypt\<close> produced in
  state \<open>k\<close>, \<open>Decrypt\<close> opens in the corresponding state of the peer, and both move on together.
\<close>

definition aead :: "'k crypt \<Rightarrow> 'k crypt \<Rightarrow> ('k \<Rightarrow> 'k \<Rightarrow> bool) \<Rightarrow> bool" where
  "aead encr decr sync \<longleftrightarrow> adds16 encr \<and> tag16 decr
     \<and> (\<forall>k k' h p k1 ct. sync k k' \<longrightarrow> encr k h p = (k1, Inr ct) \<longrightarrow>
          (\<exists>k1'. decr k' h ct = (k1', Inr p) \<and> sync k1 k1'))"

lemma aead_open:
  assumes "aead encr decr sync" and "sync k k'" and "encr k h p = (k1, Inr ct)"
  obtains k1' where "decr k' h ct = (k1', Inr p)" and "sync k1 k1'" and "length ct = length p + 16"
  using assms unfolding aead_def adds16_def by metis

lemma plain_stream_seal:
  assumes a: "aead encr decr sync" and "seal encr k ps = Some (k1, cts)" and "sync k k'"
    and "\<forall>p \<in> set ps. 0 < length p \<and> length p \<le> chunk"
  shows "(\<forall>ct \<in> set cts. packet_ok ct) \<and> length cts = length ps
    \<and> (\<exists>k1'. sync k1 k1' \<and> (\<forall>e r. plain_stream decr k' e (concat (map packet cts) @ r)
        = (concat ps @ fst (plain_stream decr k1' e r), snd (plain_stream decr k1' e r))))"
  using assms(2-)
proof (induction ps arbitrary: k k' cts)
  case Nil
  then show ?case by auto
next
  case (Cons p ps)
  then obtain k2 ct cts' where e: "encr k (put_be 2 (of_nat (length p + 16) :: u16)) p = (k2, Inr ct)"
    and s: "seal encr k2 ps = Some (k1, cts')" and cts: "cts = ct # cts'"
    by (auto split: prod.splits sum.splits)
  obtain k2' where d: "decr k' (put_be 2 (of_nat (length p + 16) :: u16)) ct = (k2', Inr p)"
    and sy: "sync k2 k2'" and len: "length ct = length p + 16"
    using aead_open [OF a Cons.prems(2) e] .
  have ok: "packet_ok ct" using Cons.prems(3) len by (auto simp: packet_ok_def Suc_le_eq)
  have d': "decr k' (put_be 2 (of_nat (length ct) :: u16)) ct = (k2', Inr p)" using d by (simp add: len)
  from Cons.IH [OF s sy] Cons.prems(3) obtain k1' where ih: "\<forall>ct \<in> set cts'. packet_ok ct"
    "length cts' = length ps" "sync k1 k1'"
    "\<forall>e r. plain_stream decr k2' e (concat (map packet cts') @ r)
        = (concat ps @ fst (plain_stream decr k1' e r), snd (plain_stream decr k1' e r))" by auto
  then show ?case by (auto simp: cts ok plain_stream_packet [OF ok] d' intro: exI [of _ k1'])
qed

text \<open>
  \<open>carries c c' p\<close>: between \<open>c\<close> and \<open>c'\<close> the sender put on the wire exactly what a synchronised
  receiver turns into the plaintext \<open>p\<close>.
\<close>

definition carries ::
    "'k crypt \<Rightarrow> ('k \<Rightarrow> 'k \<Rightarrow> bool) \<Rightarrow> 'k noise_conn \<Rightarrow> 'k noise_conn \<Rightarrow> bytes \<Rightarrow> bool" where
  "carries decr sync c c' p \<longleftrightarrow> (\<forall>k. sync (send_key c) k \<longrightarrow>
     (\<exists>w k'. tx (raw c') = tx (raw c) @ w \<and> sync (send_key c') k'
       \<and> (\<forall>e r. plain_stream decr k e (w @ r)
            = (p @ fst (plain_stream decr k' e r), snd (plain_stream decr k' e r)))))"

lemma carries_Nil [simp]: "carries decr sync c c []"
  by (auto simp: carries_def intro!: exI [of _ "[]"])

lemma carries_append:
  assumes "carries decr sync c c1 p" and "carries decr sync c1 c2 q"
  shows "carries decr sync c c2 (p @ q)"
  unfolding carries_def
proof (intro allI impI)
  fix k
  assume "sync (send_key c) k"
  with assms(1) obtain w k1 where 1: "tx (raw c1) = tx (raw c) @ w" "sync (send_key c1) k1"
    "\<forall>e r. plain_stream decr k e (w @ r)
            = (p @ fst (plain_stream decr k1 e r), snd (plain_stream decr k1 e r))"
    unfolding carries_def by blast
  with assms(2) obtain w' k2 where 2: "tx (raw c2) = tx (raw c1) @ w'" "sync (send_key c2) k2"
    "\<forall>e r. plain_stream decr k1 e (w' @ r)
            = (q @ fst (plain_stream decr k2 e r), snd (plain_stream decr k2 e r))"
    unfolding carries_def by blast
  show "\<exists>w k'. tx (raw c2) = tx (raw c) @ w \<and> sync (send_key c2) k'
       \<and> (\<forall>e r. plain_stream decr k e (w @ r)
            = ((p @ q) @ fst (plain_stream decr k' e r), snd (plain_stream decr k' e r)))"
    using 1 2 by (intro exI [of _ "w @ w'"] exI [of _ k2]) auto
qed

lemma noise_write_carries:
  assumes "aead encr decr sync" and "noise_write encr c p = (c', n, None)"
  shows "carries decr sync c c' p"
proof (cases "p = []")
  case True
  with assms show ?thesis by (simp add: noise_write_def)
next
  case False
  with assms obtain cts where cts: "seal encr (send_key c) (chunks p) = Some (send_key c', cts)"
    and tx: "tx (raw c') = tx (raw c) @ concat (map packet cts)"
    using noise_write_loop_ok [of encr c p 0 c' n] by (auto simp: noise_write_def aead_def)
  have b: "\<forall>q \<in> set (chunks p). 0 < length q \<and> length q \<le> chunk"
    using chunks_bounds by blast
  show ?thesis
    unfolding carries_def
    using plain_stream_seal [OF assms(1) cts _ b] tx by fastforce
qed

lemma write_full_carries:
  assumes "aead encr decr sync" and "write_full (noise_write encr) c b = (c', None)"
  shows "carries decr sync c c' b"
proof (cases "b = []")
  case True
  with assms show ?thesis by simp
next
  case False
  with assms noise_wr.write_full_once [of b encr c] obtain n where "noise_write encr c b = (c', n, None)"
    by (cases "noise_write encr c b") auto
  with assms(1) show ?thesis by (rule noise_write_carries)
qed

lemma noise_is_sender: "aead encr decr sync \<Longrightarrow> sender (noise_write encr) (carries decr sync)"
  using carries_append write_full_carries by unfold_locales (simp_all, blast+)

text \<open>A receiver that has the sender's bytes, followed by \<open>g\<close>.\<close>

lemma carries_content:
  assumes "carries decr sync c c' p" and "tx (raw c) = []" and "sync (send_key c) (recv_key d)"
    and "net_content (raw d) = tx (raw c') @ g" and "leftover d = []"
  shows "\<exists>k'. sync (send_key c') k'
    \<and> noise_content decr d = p @ fst (plain_stream decr k' (net_ending (raw d)) g)
    \<and> noise_ending decr d = snd (plain_stream decr k' (net_ending (raw d)) g)"
proof -
  obtain w k' where "tx (raw c') = w" "sync (send_key c') k'"
    "\<forall>e r. plain_stream decr (recv_key d) e (w @ r)
       = (p @ fst (plain_stream decr k' e r), snd (plain_stream decr k' e r))"
    using assms(1,2,3) unfolding carries_def by auto
  then show ?thesis using assms(4,5) by (intro exI [of _ k']) (simp add: noise_content_def noise_ending_def)
qed

lemma noise_write_loop_shut:
  "noise_write_loop encr c p j = (c', n, Some x) \<Longrightarrow> shut (raw c')"
proof (induction encr c p j rule: noise_write_loop.induct)
  case (1 encr c p k)
  show ?case
    using "1.prems" "1.IH" unfolding noise_write_loop.simps [of encr c p k]
    by (auto simp: Let_def noise_close_def net_close_def split: if_splits prod.splits sum.splits option.splits)
qed

lemma seal_packets:
  "seal encr k ps = Some (k1, cts) \<Longrightarrow> adds16 encr \<Longrightarrow> \<forall>p \<in> set ps. 0 < length p \<and> length p \<le> chunk \<Longrightarrow>
    length cts = length ps \<and> (\<forall>ct \<in> set cts. packet_ok ct)"
proof (induction ps arbitrary: k cts)
  case (Cons p ps)
  then obtain k2 ct cts' where e: "encr k (put_be 2 (of_nat (length p + 16) :: u16)) p = (k2, Inr ct)"
    and s: "seal encr k2 ps = Some (k1, cts')" and cts: "cts = ct # cts'"
    by (auto split: prod.splits sum.splits)
  have "length ct = length p + 16" using Cons.prems(2) e unfolding adds16_def by blast
  with Cons.IH [OF s] Cons.prems cts show ?case by (auto simp: packet_ok_def Suc_le_eq)
qed simp

end
