(* ===== verification/Noise_Props.thy ===== *)
theory Noise_Props
  imports Noise
begin

text \<open>
  Properties of the Noise transport: packet bounds, fail-closed reads, the handshake, and frames
  travelling through the encrypted channel. The witnesses use a transparent cipher with a nonce.
\<close>

subsection \<open>A concrete cipher\<close>

text \<open>The tag is the low byte of a packet counter, sixteen times.\<close>

definition demo_encr :: "nat crypt" where
  "demo_encr k h p = (Suc k, Inr (p @ replicate 16 (of_nat k)))"

definition demo_decr :: "nat crypt" where
  "demo_decr k h ct =
     (if 16 \<le> length ct \<and> drop (length ct - 16) ct = replicate 16 (of_nat k)
      then (Suc k, Inr (take (length ct - 16) ct))
      else (k, Inl (Errmsg ''message authentication failed'')))"

lemma demo_aead: "aead demo_encr demo_decr (=)" and demo_tag16: "tag16 demo_decr"
  and demo_adds16: "adds16 demo_encr"
  by (auto simp: aead_def adds16_def tag16_def demo_encr_def demo_decr_def split: if_splits)

definition demo_conn :: "nat noise_conn" where
  "demo_conn = \<lparr>raw = \<lparr>rx = [], rx_end = EOF, tx = [], tx_plan = [], shut = False\<rparr>,
     send_key = 0, recv_key = 0, leftover = [], close_once = False\<rparr>"

subsection \<open>Packets\<close>

text \<open>
  What a write puts on the wire. If \<open>Encrypt\<close> adds a 16-byte tag, a write that succeeds reports
  every byte and sends them in packets of at most 32768 plaintext bytes, the number of packets
  being the length divided by 32768, rounded up; every packet has a length the reader accepts and
  that its 16-bit header holds without wrap-around. A write that fails closes the connection and
  reports fewer bytes than it was given.
\<close>

theorem noise_write_packets:
  assumes "adds16 encr" and "noise_write encr c p = (c', n, e)"
  shows "case e of
      None \<Rightarrow> n = length p \<and> (\<exists>cts. tx (raw c') = tx (raw c) @ concat (map packet cts)
        \<and> length cts = (length p + 32767) div 32768
        \<and> (\<forall>ct \<in> set cts. packet_ok ct \<and> unat (of_nat (length ct) :: u16) = length ct))
    | Some x \<Rightarrow> n < length p \<and> shut (raw c')"
proof (cases e)
  case None
  show ?thesis
  proof (cases "p = []")
    case True
    then show ?thesis using assms None by (auto simp: noise_write_def intro: exI [of _ "[]"])
  next
    case False
    then have "noise_write_loop encr c p 0 = (c', n, None)" using assms None by (simp add: noise_write_def)
    from noise_write_loop_ok [OF this assms(1)] obtain cts where
      s: "seal encr (send_key c) (chunks p) = Some (send_key c', cts)"
      and tx: "tx (raw c') = tx (raw c) @ concat (map packet cts)" by blast
    have "\<forall>q \<in> set (chunks p). 0 < length q \<and> length q \<le> chunk" using chunks_bounds by blast
    from seal_packets [OF s assms(1) this] tx show ?thesis
      using None noise_write_count [OF assms(2)]
      by (auto simp: length_chunks packet_ok_def unat_of_nat intro!: exI [of _ cts])
  qed
next
  case (Some x)
  then show ?thesis
    using noise_write_count [OF assms(2)] noise_write_loop_shut [of encr c p 0 c' n x] assms(2)
    by (auto simp: noise_write_def split: if_splits)
qed

theorem noise_write_packets_witness:
  "\<exists>c' cts. noise_write demo_encr demo_conn [7, 8, 9] = (c', 3, None)
    \<and> length cts = 1 \<and> tx (raw c') = concat (map packet cts)"
proof -
  have w: "snd (noise_write demo_encr demo_conn [7, 8, 9]) = (3, None)"
    by (simp add: noise_write_def noise_write_loop.simps demo_conn_def demo_encr_def Let_def
        write_full_clean)
  obtain c' n e where d: "noise_write demo_encr demo_conn [7, 8, 9] = (c', n, e)"
    by (cases "noise_write demo_encr demo_conn [7, 8, 9]") auto
  with noise_write_packets [OF demo_adds16 d] w show ?thesis by (auto simp: demo_conn_def)
qed

text \<open>
  C34. Reads fail closed. A read of the plaintext always returns; if it returns an error (end of
  stream, a length outside 17..32784, a truncated packet, a packet that does not authenticate) it
  delivers no byte and the connection is closed, so that every later read fails without data too.
\<close>

theorem noise_read_fails_closed:
  "case noise_read decr c n of
     None \<Rightarrow> False
   | Some (c', bs, None) \<Rightarrow> length bs \<le> n
   | Some (c', bs, Some x) \<Rightarrow> bs = [] \<and> shut (raw c')
       \<and> (case noise_read decr c' (Suc m) of Some (c'', bs', Some y) \<Rightarrow> bs' = [] | _ \<Rightarrow> False)"
proof -
  have r: "noise_read decr c n = Some (noise_reader decr c n)" by (rule noise_read_reader)
  obtain c' bs e where d: "noise_reader decr c n = (c', bs, e)" by (cases "noise_reader decr c n")
  show ?thesis
  proof (cases e)
    case None
    then have "length bs \<le> n"
      using r d by (auto simp: noise_read_def Let_def deliver_def split: if_splits option.splits prod.splits sum.splits)
    then show ?thesis using r d None by simp
  next
    case (Some x)
    have "noise_content decr c' = []" "shut (raw c')" "bs = []" using noise_read_err d Some by blast+
    then have l: "leftover c' = []" "net_content (raw c') = []"
      by (auto simp: noise_content_def net_content_def)
    then have "noise_reader decr c' (Suc m) = (case noise_reader decr c' (Suc m) of (c'', bs', y) \<Rightarrow> (c'', [], Some (net_ending (raw c'))))"
      using noise_read_stream [OF l(1), of "Suc m" decr] by auto
    then show ?thesis
      using noise_read_reader [of decr c' "Suc m"] d Some r \<open>bs = []\<close> \<open>shut (raw c')\<close>
      by (cases "noise_reader decr c' (Suc m)") auto
  qed
qed

subsection \<open>Frames over the channel\<close>

text \<open>
  C24. The encrypted channel is transparent to the protocol. With an AEAD cipher in synchronised
  states, frames written without error on one Noise connection are exactly the frames the peer
  reads from its Noise connection, in order, however the network cuts the packets into segments;
  after them the peer sees the end of the stream.
\<close>

theorem frames_over_noise:
  assumes "aead encr decr sync" and "sync (send_key c) (recv_key d)"
    and "write_frames (noise_write encr) c fs = (c', None)" and "tx (raw c) = []"
    and "concat (rx (raw d)) = tx (raw c')" and "\<not> shut (raw d)" and "leftover d = []"
  shows "read_frames (noise_reader decr) (Suc (length fs)) d = Some (fs, Some (rx_end (raw d)))"
proof -
  have rd: "byte_reader (noise_reader decr) (noise_content decr) (noise_ending decr)"
    using assms(1) noise_is_reader by (auto simp: aead_def)
  have w: "\<forall>f \<in> set fs. frame_ok f" "carries decr sync c c' (concat (map encode_frame fs))"
    using sender.write_frames_sends [OF noise_is_sender [OF assms(1)] assms(3)] by auto
  have "net_content (raw d) = tx (raw c') @ []" using assms(5,6) by (simp add: net_content_def)
  from carries_content [OF w(2) assms(4,2) this assms(7)]
  have "noise_content decr d = concat (map encode_frame fs)" "noise_ending decr d = net_ending (raw d)"
    by (auto simp: plain_stream_Inl)
  with byte_reader.read_frames_content [OF rd w(1)] assms(6) show ?thesis by (simp add: net_ending_def)
qed

text \<open>
  C23. Nothing forged is ever delivered. Whatever bytes \<open>g\<close> an attacker lets follow the genuine
  ones, if the first packet of \<open>g\<close> is malformed, cut short, or rejected by \<open>Decrypt\<close>, the plaintext
  the peer can read is exactly what the sender wrote, and then the error.
\<close>

theorem noise_tampering:
  assumes "aead encr decr sync" and "sync (send_key c) (recv_key d)"
    and "noise_write encr c p = (c', n, None)" and "tx (raw c) = []"
    and "net_content (raw d) = tx (raw c') @ g" and "leftover d = []"
    and "\<forall>k. sync (send_key c') k \<longrightarrow> (case parse_packet (net_ending (raw d)) g of
        Inl x \<Rightarrow> True
      | Inr (ct, r) \<Rightarrow> \<exists>x. snd (decr k (take 2 g) ct) = Inl x)"
    and "read_full (noise_reader decr) d m [] = Some (d', bs, e)"
  shows "bs = take m p \<and> (e = None \<longleftrightarrow> m \<le> length p)"
proof -
  obtain k' where k: "sync (send_key c') k'"
    "noise_content decr d = p @ fst (plain_stream decr k' (net_ending (raw d)) g)"
    using carries_content [OF noise_write_carries [OF assms(1,3)] assms(4,2,5,6)] by blast
  have "fst (plain_stream decr k' (net_ending (raw d)) g) = []"
    using assms(7) [rule_format, OF k(1)]
    by (subst plain_stream.simps) (auto split: sum.splits prod.splits)
  then have c: "noise_content decr d = p" using k(2) by simp
  have rd: "byte_reader (noise_reader decr) (noise_content decr) (noise_ending decr)"
    using assms(1) noise_is_reader by (auto simp: aead_def)
  show ?thesis
  proof (cases "m \<le> length p")
    case True
    then show ?thesis using byte_reader.read_full_some [OF rd, of m d] assms(8) c by auto
  next
    case False
    then show ?thesis using byte_reader.read_full_short [OF rd, of d m] assms(8) c by auto
  qed
qed

subsection \<open>The handshake\<close>

text \<open>
  The documented end of a handshake: the step that finishes it yields the pair of cipher states,
  the first for the direction from initiator to responder.
\<close>

definition yields :: "('h, 'k) handshake \<Rightarrow> 'k \<Rightarrow> 'k \<Rightarrow> bool" where
  "yields H a b \<longleftrightarrow>
     (\<forall>x y m p q. hs_write H x = (y, Inr (m, p, q)) \<longrightarrow> p = None \<or> p = Some a \<and> q = Some b)
     \<and> (\<forall>x y z m p q. hs_read H x z = (y, Inr (m, p, q)) \<longrightarrow> p = None \<or> p = Some a \<and> q = Some b)"

definition keys_ok :: "'k \<Rightarrow> 'k \<Rightarrow> ('h, 'k) hs_state \<Rightarrow> bool" where
  "keys_ok a b st \<longleftrightarrow> key1 st = None \<and> key2 st = None \<or> key1 st = Some a \<and> key2 st = Some b"

lemma keep_ok: "keys_ok a b st \<Longrightarrow> p = None \<or> p = Some a \<and> q = Some b \<Longrightarrow> keys_ok a b (keep p q st)"
  by (auto simp: keep_def keys_ok_def)

lemma keep_sel [simp]: "hraw (keep p q st) = hraw st"
  by (simp add: keep_def)

lemma hs_send_ok:
  assumes "hs_send H st = (st', None)" and "yields H a b" and "keys_ok a b st"
  shows "\<exists>msg. length msg = 48 \<and> tx (hraw st') = tx (hraw st) @ put_be 2 (48 :: u16) @ msg
    \<and> net_content (hraw st') = net_content (hraw st) \<and> keys_ok a b st'"
proof -
  obtain x msg p q where w: "hs_write H (hs st) = (x, Inr (msg, p, q))" and len: "length msg = 48"
    using assms(1) by (auto simp: hs_send_def split: prod.splits sum.splits if_splits)
  then obtain s1 where 1: "write_full net_write (hraw st) (put_be 2 (48 :: u16)) = (s1, None)"
    using assms(1) by (auto simp: hs_send_def split: prod.splits option.splits)
  then obtain s2 where 2: "write_full net_write s1 msg = (s2, None)"
    using assms(1) w len by (auto simp: hs_send_def split: prod.splits option.splits)
  have st': "st' = keep p q (st\<lparr>hs := x, hraw := s2\<rparr>)"
    using assms(1) w len 1 2 by (simp add: hs_send_def)
  have "p = None \<or> p = Some a \<and> q = Some b" using assms(2) w by (auto simp: yields_def)
  moreover have "keys_ok a b (st\<lparr>hs := x, hraw := s2\<rparr>)" using assms(3) by (simp add: keys_ok_def)
  ultimately show ?thesis
    using net_wr.write_full_ok [OF 1] net_wr.write_full_ok [OF 2] write_full_rx [OF 1]
      write_full_rx [OF 2] len keep_ok [of a b "st\<lparr>hs := x, hraw := s2\<rparr>" p q] by (auto simp: st')
qed

lemma hs_recv_ok:
  assumes "hs_recv H st = Some (st', None)" and "yields H a b" and "keys_ok a b st"
  shows "\<exists>msg. length msg = 48 \<and> net_content (hraw st) = put_be 2 (48 :: u16) @ msg @ net_content (hraw st')
    \<and> tx (hraw st') = tx (hraw st) \<and> keys_ok a b st'"
proof -
  obtain s1 h where 1: "read_full net_read (hraw st) 2 [] = Some (s1, h, None)" and h: "get_be h = (48 :: u16)"
    using assms(1) by (auto simp: hs_recv_def split: option.splits if_splits)
  then obtain s2 msg where 2: "read_full net_read s1 48 [] = Some (s2, msg, None)"
    using assms(1) by (auto simp: hs_recv_def split: option.splits)
  then obtain x p q where r: "hs_read H (hs st) msg = (x, Inr ([], p, q))"
    and st': "st' = keep p q (st\<lparr>hs := x, hraw := s2\<rparr>)"
    using assms(1) 1 h by (auto simp: hs_recv_def split: prod.splits sum.splits if_splits)
  note c1 = net_rd.read_full_exact [OF 1] and c2 = net_rd.read_full_exact [OF 2]
  have "h = put_be 2 (48 :: u16)"
    using put_get_be [where 'a = 16, of h] c1 h by simp
  moreover have "p = None \<or> p = Some a \<and> q = Some b" using assms(2) r by (auto simp: yields_def)
  moreover have "keys_ok a b (st\<lparr>hs := x, hraw := s2\<rparr>)" using assms(3) by (simp add: keys_ok_def)
  ultimately show ?thesis
    using c1 c2 keep_ok [of a b "st\<lparr>hs := x, hraw := s2\<rparr>" p q] read_full_tx [OF 1] read_full_tx [OF 2] by (auto simp: st')
qed

lemma hs_exchange_ok:
  assumes "hs_exchange H initiator st = Some (st', None)" and "yields H a b" and "keys_ok a b st"
  shows "\<exists>out inn. length out = 48 \<and> length inn = 48
    \<and> tx (hraw st') = tx (hraw st) @ put_be 2 (48 :: u16) @ out
    \<and> net_content (hraw st) = put_be 2 (48 :: u16) @ inn @ net_content (hraw st') \<and> keys_ok a b st'"
proof (cases initiator)
  case True
  then obtain st1 where 1: "hs_send H st = (st1, None)" and 2: "hs_recv H st1 = Some (st', None)"
    using assms(1) by (auto simp: hs_exchange_def split: prod.splits option.splits)
  obtain out where "length out = 48" "tx (hraw st1) = tx (hraw st) @ put_be 2 (48 :: u16) @ out"
    "net_content (hraw st1) = net_content (hraw st)" "keys_ok a b st1"
    using hs_send_ok [OF 1 assms(2,3)] by blast
  with hs_recv_ok [OF 2 assms(2)] show ?thesis by metis
next
  case False
  then obtain st1 where 1: "hs_recv H st = Some (st1, None)" and 2: "hs_send H st1 = (st', None)"
    using assms(1) by (auto simp: hs_exchange_def split: prod.splits option.splits)
  obtain inn where "length inn = 48" "net_content (hraw st) = put_be 2 (48 :: u16) @ inn @ net_content (hraw st1)"
    "tx (hraw st1) = tx (hraw st)" "keys_ok a b st1"
    using hs_recv_ok [OF 1 assms(2,3)] by blast
  with hs_send_ok [OF 2 assms(2)] show ?thesis by metis
qed

text \<open>
  C33. A successful handshake sends one 48-byte message and consumes one, each behind its 2-byte
  length, leaves every byte after it to the packet layer, and directs the two ciphers: what the
  initiator sends with, the responder receives with, and the other way round.
\<close>

theorem handshake_effect:
  assumes "yields H a b" and "handshakeNoise H init rw initiator = Some (rw', Inr c)"
  shows "(\<exists>out inn. length out = 48 \<and> length inn = 48
      \<and> tx rw' = tx rw @ put_be 2 (48 :: u16) @ out
      \<and> net_content rw = put_be 2 (48 :: u16) @ inn @ net_content rw')
    \<and> (send_key c, recv_key c) = (if initiator then (a, b) else (b, a))
    \<and> raw c = rw' \<and> leftover c = []"
proof -
  obtain x st where e: "hs_exchange H initiator \<lparr>hs = x, key1 = None, key2 = None, hraw = rw\<rparr> = Some (st, None)"
    and r: "rw' = hraw st"
    and k: "\<exists>k1 k2. key1 st = Some k1 \<and> key2 st = Some k2 \<and> c = \<lparr>raw = hraw st,
      send_key = (if initiator then k1 else k2), recv_key = (if initiator then k2 else k1),
      leftover = [], close_once = False\<rparr>"
    using assms(2) by (auto simp: handshakeNoise_def split: sum.splits option.splits)
  from hs_exchange_ok [OF e assms(1)] obtain out inn where
    w: "length out = 48" "length inn = 48" "tx (hraw st) = tx rw @ put_be 2 (48 :: u16) @ out"
      "net_content rw = put_be 2 (48 :: u16) @ inn @ net_content (hraw st)" and ko: "keys_ok a b st"
    by (auto simp: keys_ok_def)
  from k ko have "(send_key c, recv_key c) = (if initiator then (a, b) else (b, a))"
    "raw c = rw'" "leftover c = []" by (auto simp: keys_ok_def r)
  moreover have "\<exists>out inn. length out = 48 \<and> length inn = 48
      \<and> tx rw' = tx rw @ put_be 2 (48 :: u16) @ out
      \<and> net_content rw = put_be 2 (48 :: u16) @ inn @ net_content rw'"
    using w unfolding r by blast
  ultimately show ?thesis by simp
qed

subsection \<open>Concrete exchanges\<close>

lemma demo_noise_write:
  assumes "tx_plan (raw c) = []" and "\<not> shut (raw c)" and "p \<noteq> []" and "length p \<le> chunk"
  shows "noise_write demo_encr c p = (c\<lparr>send_key := Suc (send_key c),
      raw := (raw c)\<lparr>tx := tx (raw c) @ packet (p @ replicate 16 (of_nat (send_key c)))\<rparr>\<rparr>, length p, None)"
proof -
  have "min (length p) chunk = length p" using assms(4) by simp
  then show ?thesis
    using assms by (simp add: noise_write_def noise_write_loop.simps [of _ c] noise_write_loop.simps [of _ _ "[]"]
        demo_encr_def Let_def write_full_clean packet_def)
qed

lemma demo_noise_write_full:
  assumes "tx_plan (raw c) = []" and "\<not> shut (raw c)" and "length p \<le> chunk"
  shows "write_full (noise_write demo_encr) c p = (if p = [] then c else c\<lparr>send_key := Suc (send_key c),
      raw := (raw c)\<lparr>tx := tx (raw c) @ packet (p @ replicate 16 (of_nat (send_key c)))\<rparr>\<rparr>, None)"
  using demo_noise_write [of c p] assms noise_wr.write_full_once [of p demo_encr c] by auto

theorem frames_over_noise_witness:
  "\<exists>d. read_frames (noise_reader demo_decr) 3 d = Some ([demo_fin, demo_pong], Some EOF)
    \<and> concat (rx (raw d)) \<noteq> []"
proof -
  let ?r = "write_frames (noise_write demo_encr) demo_conn [demo_fin, demo_pong]"
  have ne: "frame_header f \<noteq> []" for f using length_frame_header [of f] by force
  have p: "Payload demo_fin = []" "Payload demo_pong \<noteq> []" "length (Payload demo_pong) = 8"
    "valid (Typ demo_fin) 0 = None" "valid (Typ demo_pong) 8 = None"
    by (simp_all add: demo_fin_def demo_pong_def valid_def)
  have w: "\<exists>c'. ?r = (c', None) \<and> tx (raw c') \<noteq> []"
    using p ne by (simp add: write_frame_def demo_noise_write_full demo_conn_def packet_def)
  then obtain c' where w: "?r = (c', None)" "tx (raw c') \<noteq> []" by blast
  define d where "d = demo_conn\<lparr>raw := (raw demo_conn)\<lparr>rx := [take 3 (tx (raw c')), drop 3 (tx (raw c'))]\<rparr>\<rparr>"
  have "read_frames (noise_reader demo_decr) (Suc (length [demo_fin, demo_pong])) d
      = Some ([demo_fin, demo_pong], Some (rx_end (raw d)))"
    by (rule frames_over_noise [OF demo_aead _ w(1)]) (simp_all add: d_def demo_conn_def)
  moreover have "rx_end (raw d) = EOF" "concat (rx (raw d)) \<noteq> []"
    using w(2) by (simp_all add: d_def demo_conn_def)
  ultimately show ?thesis by (auto simp: numeral_3_eq_3)
qed

theorem noise_tampering_witness:
  "\<exists>d d' e. net_content (raw d) \<noteq> [] \<and> read_full (noise_reader demo_decr) d 5 [] = Some (d', [7, 8, 9], e)"
proof -
  define c' where "c' = demo_conn\<lparr>send_key := Suc (send_key demo_conn), raw := (raw demo_conn)
      \<lparr>tx := tx (raw demo_conn) @ packet ([7, 8, 9] @ replicate 16 (of_nat (send_key demo_conn)))\<rparr>\<rparr>"
  have w: "noise_write demo_encr demo_conn [7, 8, 9] = (c', length [7, 8, 9 :: byte], None)"
    unfolding c'_def by (rule demo_noise_write) (simp_all add: demo_conn_def)
  let ?g = "packet (replicate 17 0)"
  define d where "d = demo_conn\<lparr>raw := (raw demo_conn)\<lparr>rx := [tx (raw c') @ ?g]\<rparr>\<rparr>"
  have rd: "byte_reader (noise_reader demo_decr) (noise_content demo_decr) (noise_ending demo_decr)"
    using demo_tag16 by (rule noise_is_reader)
  obtain d' bs e where r: "read_full (noise_reader demo_decr) d 5 [] = Some (d', bs, e)"
    using byte_reader.read_full_returns [OF rd, of d 5] by auto
  have g: "parse_packet (net_ending (raw d)) ?g = Inr (replicate 17 0, [])"
    using parse_packet_packet [of "replicate 17 0" "net_ending (raw d)" "[]"] by (simp add: packet_ok_def)
  have bad: "snd (demo_decr k h (replicate 17 0)) = Inl (Errmsg ''message authentication failed'')"
    if "k = 1" for k h using that by (simp add: demo_decr_def numeral_eq_Suc)
  have s: "send_key c' = 1" "tx (raw demo_conn) = []" "leftover demo_conn = []" "send_key demo_conn = recv_key d"
    "leftover d = []" "net_content (raw d) = tx (raw c') @ ?g"
    by (simp_all add: c'_def d_def demo_conn_def net_content_def)
  have h: "\<forall>k. send_key c' = k \<longrightarrow> (case parse_packet (net_ending (raw d)) ?g of Inl x \<Rightarrow> True
      | Inr (ct, r) \<Rightarrow> \<exists>x. snd (demo_decr k (take 2 ?g) ct) = Inl x)"
    using g bad s(1) by auto
  have "bs = take 5 [7, 8, 9]"
    using noise_tampering [OF demo_aead s(4) w s(2) s(6) s(5) h r] by blast
  moreover have "net_content (raw d) \<noteq> []" by (simp add: s(6) packet_def)
  ultimately show ?thesis using r by auto
qed

definition demo_hs :: "(nat, nat) handshake" where
  "demo_hs = \<lparr>hs_write = (\<lambda>x. (Suc x, Inr (replicate 48 0, if x = 0 then (None, None) else (Some 5, Some 6)))),
     hs_read = (\<lambda>x m. (Suc x, Inr ([], if x = 0 then (None, None) else (Some 5, Some 6))))\<rparr>"

definition demo_peer :: net_conn where
  "demo_peer = \<lparr>rx = [put_be 2 (48 :: u16), replicate 48 1], rx_end = EOF, tx = [], tx_plan = [], shut = False\<rparr>"

theorem handshake_effect_witness:
  "\<exists>rw' c. handshakeNoise demo_hs (Inr 0) demo_peer True = Some (rw', Inr c)
    \<and> send_key c = 5 \<and> recv_key c = 6 \<and> length (tx rw') = 50"
proof -
  have y: "yields demo_hs 5 6" by (auto simp: yields_def demo_hs_def split: if_splits)
  have "case handshakeNoise demo_hs (Inr 0) demo_peer True of Some (rw', Inr c) \<Rightarrow> True | _ \<Rightarrow> False"
    by code_simp
  then obtain rw' c where h: "handshakeNoise demo_hs (Inr 0) demo_peer True = Some (rw', Inr c)"
    by (auto split: option.splits sum.splits) (metis sum.exhaust)
  from handshake_effect [OF y h] h show ?thesis
    by (intro exI [of _ rw'] exI [of _ c]) (auto simp: demo_peer_def)
qed

end
