(* ===== verification/Transport.thy ===== *)
theory Transport
  imports Noise Config
begin

text \<open>
  The accept path of \<^verbatim>\<open>internal/transport/transport.go\<close>: the guard that bounds the life of a
  connection until it is authenticated, the listener with its 64 slots, \<open>Dial\<close> and \<open>Serve\<close>, and the
  decisions of the WebSocket handler and dialer in \<^verbatim>\<open>internal/transport/websocket.go\<close>. Each
  critical section under \<^verbatim>\<open>g.mu\<close> or \<^verbatim>\<open>l.mu\<close> is a function; the readings of the clock are
  arguments. TLS, HTTP and the WebSocket library are outside: their results are arguments.
\<close>

subsection \<open>The guard\<close>

text \<open>
  \<open>timer\<close>: when the timer that fails the guard is due, if it runs; \<open>conn_deadline\<close>: the deadline last
  set on the connection (\<open>None\<close> is the zero time, no deadline).
\<close>

record guard =
  g_until :: instant
  g_phase :: instant
  g_timer :: "instant option"
  g_done :: bool
  conn_deadline :: "instant option"

definition earlier :: "instant \<Rightarrow> instant \<Rightarrow> instant" where
  "earlier a b = (if a < b then a else b)"

definition newGuard :: "instant \<Rightarrow> instant \<Rightarrow> guard" where
  "newGuard t1 t2 =
     (let u = t1 + 20 * second; ph = earlier (t2 + 10 * second) u
      in \<lparr>g_until = u, g_phase = ph, g_timer = Some ph, g_done = False, conn_deadline = Some ph\<rparr>)"

text \<open>The locked parts; the flag says whether the guard went on (\<open>next\<close>, \<open>complete\<close>) or was failed now.\<close>

definition next_locked :: "instant \<Rightarrow> instant \<Rightarrow> instant \<Rightarrow> guard \<Rightarrow> guard \<times> bool" where
  "next_locked t1 t2 t3 g =
     (if g_done g \<or> \<not> t1 < g_phase g \<or> \<not> t2 < g_until g then (g, False)
      else let ph = earlier (t3 + 10 * second) (g_until g)
           in (g\<lparr>g_phase := ph, conn_deadline := Some ph, g_timer := Some ph\<rparr>, True))"

definition complete_locked :: "instant \<Rightarrow> instant \<Rightarrow> guard \<Rightarrow> guard \<times> bool" where
  "complete_locked t1 t2 g =
     (if g_done g \<or> \<not> t1 < g_until g \<or> \<not> t2 < g_phase g then (g, False)
      else (g\<lparr>g_done := True, g_timer := None, conn_deadline := None\<rparr>, True))"

definition fail_locked :: "guard \<Rightarrow> guard \<times> bool" where
  "fail_locked g = (if g_done g then (g, False) else (g\<lparr>g_done := True, g_timer := None\<rparr>, True))"

text \<open>What a caller's deadline becomes; \<open>deadline\<close> passes it to the connection.\<close>

definition clamp :: "instant option \<Rightarrow> guard \<Rightarrow> instant option" where
  "clamp t g =
     (if \<not> g_done g \<and> (case t of None \<Rightarrow> True | Some x \<Rightarrow> x > g_phase g) then Some (g_phase g) else t)"

definition deadline :: "instant option \<Rightarrow> guard \<Rightarrow> guard" where
  "deadline t g = g\<lparr>conn_deadline := clamp t g\<rparr>"

subsection \<open>The listener\<close>

text \<open>
  A guard is known by a number. Setting \<open>done\<close> makes one goroutine responsible for the rest: closing
  the connection (not after \<open>complete\<close>), then \<open>onDone\<close>, which deletes the guard from \<open>active\<close> under
  \<^verbatim>\<open>l.mu\<close> and then frees the slot. \<open>gph\<close> is how far that goroutine is.
\<close>

datatype gphase = GLive | GClosing | GDeleting | GReleasing | GFreed

text \<open>
  \<open>taken\<close>: \<open>Accept\<close> has taken a slot and not yet made the guard; \<open>won\<close>: guards that \<open>complete\<close>
  finished; \<open>gone_conn\<close>: guards whose connection was closed; \<open>l_obl\<close>: guards that \<open>stop\<close> collected
  and has still to fail.
\<close>

record listener =
  l_slots :: nat
  l_active :: "nat set"
  l_stopping :: bool
  l_wg :: nat
  gd :: "nat \<Rightarrow> guard"
  ng :: nat
  gph :: "nat \<Rightarrow> gphase"
  taken :: bool
  won :: "nat set"
  gone_conn :: "nat set"
  l_obl :: "nat set"

definition newListener :: listener where
  "newListener = \<lparr>l_slots = 0, l_active = {}, l_stopping = False, l_wg = 0, gd = (\<lambda>_. newGuard 0 0),
     ng = 0, gph = (\<lambda>_. GFreed), taken = False, won = {}, gone_conn = {}, l_obl = {}\<rparr>"

text \<open>\<open>Accept\<close> with a connection in hand: take a slot, or (False) close the connection and go on.\<close>

definition accept_slot :: "listener \<Rightarrow> listener \<times> bool" where
  "accept_slot l = (if l_slots l < 64 then (l\<lparr>l_slots := l_slots l + 1, taken := True\<rparr>, True) else (l, False))"

definition accept_guard :: "instant \<Rightarrow> instant \<Rightarrow> listener \<Rightarrow> listener" where
  "accept_guard t1 t2 l =
     l\<lparr>gd := (gd l)(ng l := newGuard t1 t2), gph := (gph l)(ng l := GLive),
       l_active := insert (ng l) (l_active l), ng := Suc (ng l), taken := False\<rparr>"

definition beginHandler :: "listener \<Rightarrow> listener \<times> bool" where
  "beginHandler l = (if l_stopping l then (l, False) else (l\<lparr>l_wg := l_wg l + 1\<rparr>, True))"

text \<open>\<open>onDone\<close> in its two parts.\<close>

definition on_done_delete :: "nat \<Rightarrow> listener \<Rightarrow> listener" where
  "on_done_delete g l = l\<lparr>l_active := l_active l - {g}, gph := (gph l)(g := GReleasing)\<rparr>"

definition on_done_release :: "nat \<Rightarrow> listener \<Rightarrow> listener" where
  "on_done_release g l = l\<lparr>l_slots := l_slots l - 1, gph := (gph l)(g := GFreed)\<rparr>"

definition l_next :: "instant \<Rightarrow> instant \<Rightarrow> instant \<Rightarrow> nat \<Rightarrow> listener \<Rightarrow> listener \<times> bool" where
  "l_next t1 t2 t3 g l =
     (case next_locked t1 t2 t3 (gd l g) of (x, ok) \<Rightarrow> (l\<lparr>gd := (gd l)(g := x)\<rparr>, ok))"

definition l_complete :: "instant \<Rightarrow> instant \<Rightarrow> nat \<Rightarrow> listener \<Rightarrow> listener \<times> bool" where
  "l_complete t1 t2 g l =
     (case complete_locked t1 t2 (gd l g) of
        (x, False) \<Rightarrow> (l, False)
      | (x, True) \<Rightarrow>
          (l\<lparr>gd := (gd l)(g := x), gph := (gph l)(g := GDeleting), won := insert g (won l)\<rparr>, True))"

definition l_fail :: "nat \<Rightarrow> listener \<Rightarrow> listener" where
  "l_fail g l =
     (case fail_locked (gd l g) of
        (x, False) \<Rightarrow> l
      | (x, True) \<Rightarrow> l\<lparr>gd := (gd l)(g := x), gph := (gph l)(g := GClosing)\<rparr>)"

definition fail_close :: "nat \<Rightarrow> listener \<Rightarrow> listener" where
  "fail_close g l = l\<lparr>gone_conn := insert g (gone_conn l), gph := (gph l)(g := GDeleting)\<rparr>"

definition stop_locked :: "listener \<Rightarrow> listener" where
  "stop_locked l = l\<lparr>l_stopping := True, l_obl := l_obl l \<union> l_active l\<rparr>"

text \<open>
  The listener under concurrency. \<open>Accept\<close> runs in one goroutine, and \<open>Serve\<close> runs \<open>stop\<close> after it
  has returned, so no connection is accepted once \<open>stopping\<close> is set.
\<close>

inductive lstep :: "listener \<Rightarrow> listener \<Rightarrow> bool" where
  l_accept: "\<not> l_stopping l \<Longrightarrow> \<not> taken l \<Longrightarrow> accept_slot l = (l', True) \<Longrightarrow> lstep l l'"
| l_guard: "taken l \<Longrightarrow> lstep l (accept_guard t1 t2 l)"
| l_phase: "g < ng l \<Longrightarrow> l_next t1 t2 t3 g l = (l', ok) \<Longrightarrow> lstep l l'"
| l_auth: "g < ng l \<Longrightarrow> l_complete t1 t2 g l = (l', ok) \<Longrightarrow> lstep l l'"
| l_expire: "g < ng l \<Longrightarrow> lstep l (l_fail g l)"
| l_close: "g < ng l \<Longrightarrow> gph l g = GClosing \<Longrightarrow> lstep l (fail_close g l)"
| l_delete: "g < ng l \<Longrightarrow> gph l g = GDeleting \<Longrightarrow> lstep l (on_done_delete g l)"
| l_release: "g < ng l \<Longrightarrow> gph l g = GReleasing \<Longrightarrow> lstep l (on_done_release g l)"
| l_deadline: "g < ng l \<Longrightarrow> lstep l (l\<lparr>gd := (gd l)(g := deadline t (gd l g))\<rparr>)"
| l_stop: "\<not> taken l \<Longrightarrow> lstep l (stop_locked l)"
| l_stop_fail: "g \<in> l_obl l \<Longrightarrow> g < ng l \<Longrightarrow> lstep l ((l_fail g l)\<lparr>l_obl := l_obl l - {g}\<rparr>)"
| l_begin: "beginHandler l = (l', ok) \<Longrightarrow> lstep l l'"
| l_go: "lstep l (l\<lparr>l_wg := l_wg l + 1\<rparr>)"
| l_end: "0 < l_wg l \<Longrightarrow> lstep l (l\<lparr>l_wg := l_wg l - 1\<rparr>)"

abbreviation lreach :: "listener \<Rightarrow> bool" where
  "lreach \<equiv> reach (\<lambda>l. l = newListener) lstep"

subsection \<open>The invariant\<close>

text \<open>One guard: its deadlines, and how its fields agree with the goroutine that finished it.\<close>

definition guard_ok :: "guard \<Rightarrow> gphase \<Rightarrow> bool \<Rightarrow> bool \<Rightarrow> bool" where
  "guard_ok x ph w cl \<longleftrightarrow>
     g_phase x \<le> g_until x
     \<and> (g_done x \<longleftrightarrow> ph \<noteq> GLive)
     \<and> g_timer x = (if g_done x then None else Some (g_phase x))
     \<and> (\<not> g_done x \<longrightarrow> (\<exists>d. conn_deadline x = Some d \<and> d \<le> g_phase x))
     \<and> (w \<longrightarrow> g_done x \<and> ph \<noteq> GClosing \<and> \<not> cl)
     \<and> (cl \<longrightarrow> g_done x \<and> ph \<noteq> GClosing)
     \<and> (ph \<in> {GDeleting, GReleasing, GFreed} \<longrightarrow> w \<noteq> cl)"

definition held_slots :: "nat \<Rightarrow> (nat \<Rightarrow> gphase) \<Rightarrow> nat" where
  "held_slots n ph = card {g. g < n \<and> ph g \<noteq> GFreed}"

definition linv :: "listener \<Rightarrow> bool" where
  "linv l \<longleftrightarrow>
     (\<forall>g < ng l. guard_ok (gd l g) (gph l g) (g \<in> won l) (g \<in> gone_conn l))
     \<and> l_active l = {g. g < ng l \<and> gph l g \<in> {GLive, GClosing, GDeleting}}
     \<and> won l \<union> gone_conn l \<subseteq> {..<ng l}
     \<and> l_slots l = held_slots (ng l) (gph l) + (if taken l then 1 else 0) \<and> l_slots l \<le> 64
     \<and> (l_stopping l \<longrightarrow> \<not> taken l \<and> (\<forall>g < ng l. gph l g = GLive \<longrightarrow> g \<in> l_obl l))"

lemma held_slots_Suc: "ph n \<noteq> GFreed \<Longrightarrow> held_slots (Suc n) ph = Suc (held_slots n ph)"
proof -
  assume "ph n \<noteq> GFreed"
  then have "{g. g < Suc n \<and> ph g \<noteq> GFreed} = insert n {g. g < n \<and> ph g \<noteq> GFreed}"
    by (auto simp: less_Suc_eq)
  then show ?thesis by (simp add: held_slots_def)
qed

lemma held_slots_cong: "(\<And>g. g < n \<Longrightarrow> (ph g = GFreed) = (ph' g = GFreed)) \<Longrightarrow> held_slots n ph = held_slots n ph'"
  unfolding held_slots_def by (rule arg_cong [where f = card]) auto

lemma held_slots_free: "g < n \<Longrightarrow> ph g \<noteq> GFreed \<Longrightarrow> held_slots n (ph(g := GFreed)) = held_slots n ph - 1"
proof -
  assume "g < n" "ph g \<noteq> GFreed"
  then have "{h. h < n \<and> (ph(g := GFreed)) h \<noteq> GFreed} = {h. h < n \<and> ph h \<noteq> GFreed} - {g}" by auto
  then show ?thesis using \<open>g < n\<close> \<open>ph g \<noteq> GFreed\<close> by (simp add: held_slots_def)
qed

lemma held_slots_pos: "g < n \<Longrightarrow> ph g \<noteq> GFreed \<Longrightarrow> 0 < held_slots n ph"
  by (auto simp: held_slots_def card_gt_0_iff)

text \<open>A step at one guard \<open>g\<close> that keeps its slot.\<close>

lemma linv_upd:
  assumes inv: "linv l" and g: "g < ng l"
    and ok: "guard_ok x ph (g \<in> won l') (g \<in> gone_conn l')"
    and l': "gd l' = (gd l)(g := x)" "gph l' = (gph l)(g := ph)" "ng l' = ng l" "taken l' = taken l"
      "l_slots l' = l_slots l" "l_stopping l' = l_stopping l"
    and w: "won l' = won l \<or> won l' = insert g (won l)"
    and c: "gone_conn l' = gone_conn l \<or> gone_conn l' = insert g (gone_conn l)"
    and fr: "ph \<noteq> GFreed" "gph l g \<noteq> GFreed"
    and act: "l_active l' = (if ph = GReleasing then l_active l - {g} else l_active l)"
    and mono: "gph l g \<noteq> GReleasing"
    and live: "ph = GLive \<longrightarrow> gph l g = GLive"
    and ob: "l_obl l' = l_obl l \<or> ph \<noteq> GLive \<and> l_obl l' = l_obl l - {g}"
  shows "linv l'"
proof -
  have "held_slots (ng l) ((gph l)(g := ph)) = held_slots (ng l) (gph l)"
    using fr by (intro held_slots_cong) auto
  moreover have "guard_ok (gd l' h) (gph l' h) (h \<in> won l') (h \<in> gone_conn l')" if "h < ng l'" for h
    using inv ok l' w c that by (cases "h = g") (auto simp: linv_def)
  moreover have "l_active l' = {h. h < ng l' \<and> gph l' h \<in> {GLive, GClosing, GDeleting}}"
    using inv g l' act fr mono by (cases ph; cases "gph l g") (auto simp: linv_def)
  moreover have "h \<in> l_obl l'" if "l_stopping l'" "h < ng l'" "gph l' h = GLive" for h
    using inv that l' ob live by (cases "h = g") (auto simp: linv_def)
  ultimately show ?thesis using inv l' w c g by (auto simp: linv_def)
qed

lemma linv_guard: "linv l \<Longrightarrow> g < ng l \<Longrightarrow> guard_ok (gd l g) (gph l g) (g \<in> won l) (g \<in> gone_conn l)"
  by (auto simp: linv_def)

lemma linv_live: "linv l \<Longrightarrow> g < ng l \<Longrightarrow> gph l g = GLive \<longleftrightarrow> \<not> g_done (gd l g)"
  by (drule (1) linv_guard) (auto simp: guard_ok_def)

lemma newGuard_ok: "guard_ok (newGuard t1 t2) GLive False False"
  by (simp add: guard_ok_def newGuard_def Let_def earlier_def)

lemma linv_new: "linv newListener"
  by (simp add: linv_def newListener_def held_slots_def)

lemma linv_accept: "linv l \<Longrightarrow> \<not> l_stopping l \<Longrightarrow> \<not> taken l \<Longrightarrow> accept_slot l = (l', True) \<Longrightarrow> linv l'"
  by (auto simp: accept_slot_def linv_def split: if_splits)

lemma linv_accept_guard:
  assumes "linv l" and "taken l"
  shows "linv (accept_guard t1 t2 l)"
proof -
  have "held_slots (Suc (ng l)) ((gph l)(ng l := GLive)) = Suc (held_slots (ng l) (gph l))"
    using held_slots_Suc [of "(gph l)(ng l := GLive)" "ng l"]
      held_slots_cong [of "ng l" "(gph l)(ng l := GLive)" "gph l"] by auto
  moreover have "ng l \<notin> won l" "ng l \<notin> gone_conn l" using assms by (auto simp: linv_def)
  ultimately show ?thesis
    using assms newGuard_ok [of t1 t2]
    by (auto simp: linv_def accept_guard_def less_Suc_eq)
qed

lemma linv_next:
  assumes "linv l" and "g < ng l" and "l_next t1 t2 t3 g l = (l', ok)"
  shows "linv l'"
proof (cases ok)
  case False
  with assms show ?thesis by (auto simp: l_next_def next_locked_def Let_def split: if_splits)
next
  case True
  with assms linv_guard [OF assms(1,2)] show ?thesis
    by (intro linv_upd [OF assms(1,2), of "fst (next_locked t1 t2 t3 (gd l g))" GLive])
      (auto simp: l_next_def next_locked_def Let_def guard_ok_def earlier_def fun_upd_idem split: if_splits)
qed

lemma linv_complete:
  assumes "linv l" and "g < ng l" and "l_complete t1 t2 g l = (l', ok)"
  shows "linv l'"
proof (cases ok)
  case False
  with assms show ?thesis by (auto simp: l_complete_def complete_locked_def split: if_splits)
next
  case True
  with assms linv_guard [OF assms(1,2)] show ?thesis
    by (intro linv_upd [OF assms(1,2), of "fst (complete_locked t1 t2 (gd l g))" GDeleting])
      (auto simp: l_complete_def complete_locked_def guard_ok_def split: if_splits)
qed

lemma linv_fail:
  assumes "linv l" and "g < ng l"
  shows "linv (l_fail g l)" and "linv ((l_fail g l)\<lparr>l_obl := l_obl l - {g}\<rparr>)"
proof -
  have "linv (l_fail g l) \<and> linv ((l_fail g l)\<lparr>l_obl := l_obl l - {g}\<rparr>)"
  proof (cases "g_done (gd l g)")
    case True
    then have "gph l g \<noteq> GLive" using linv_live [OF assms] by simp
    then have "linv (l\<lparr>l_obl := l_obl l - {g}\<rparr>)" using assms by (auto simp: linv_def)
    with True assms(1) show ?thesis by (simp add: l_fail_def fail_locked_def)
  next
    case False
    let ?x = "(gd l g)\<lparr>g_done := True, g_timer := None\<rparr>"
    have "l_fail g l = l\<lparr>gd := (gd l)(g := ?x), gph := (gph l)(g := GClosing)\<rparr>"
      using False by (simp add: l_fail_def fail_locked_def)
    moreover have "guard_ok ?x GClosing (g \<in> won l) (g \<in> gone_conn l)" "gph l g = GLive"
      using linv_guard [OF assms] False by (auto simp: guard_ok_def)
    ultimately show ?thesis
      by (intro conjI linv_upd [OF assms, of ?x GClosing]) simp_all
  qed
  then show "linv (l_fail g l)" and "linv ((l_fail g l)\<lparr>l_obl := l_obl l - {g}\<rparr>)" by simp_all
qed

lemma linv_close:
  assumes "linv l" and "g < ng l" and "gph l g = GClosing"
  shows "linv (fail_close g l)"
  using assms linv_guard [OF assms(1,2)]
  by (intro linv_upd [OF assms(1,2), of "gd l g" GDeleting]) (auto simp: fail_close_def guard_ok_def)

lemma linv_delete:
  assumes "linv l" and "g < ng l" and "gph l g = GDeleting"
  shows "linv (on_done_delete g l)"
  using assms linv_guard [OF assms(1,2)]
  by (intro linv_upd [OF assms(1,2), of "gd l g" GReleasing]) (auto simp: on_done_delete_def guard_ok_def)

lemma linv_release:
  assumes "linv l" and "g < ng l" and "gph l g = GReleasing"
  shows "linv (on_done_release g l)"
proof -
  let ?l = "on_done_release g l"
  have "held_slots (ng l) ((gph l)(g := GFreed)) = held_slots (ng l) (gph l) - 1" "0 < held_slots (ng l) (gph l)"
    using held_slots_free [of g "ng l" "gph l"] held_slots_pos [of g "ng l" "gph l"] assms by auto
  then have "l_slots ?l = held_slots (ng ?l) (gph ?l) + (if taken ?l then 1 else 0) \<and> l_slots ?l \<le> 64"
    using assms(1) by (auto simp: linv_def on_done_release_def)
  moreover have "guard_ok (gd ?l h) (gph ?l h) (h \<in> won ?l) (h \<in> gone_conn ?l)" if "h < ng ?l" for h
    using that assms(3) linv_guard [OF assms(1), of h]
    by (cases "h = g") (auto simp: on_done_release_def guard_ok_def)
  moreover have "l_active ?l = {h. h < ng ?l \<and> gph ?l h \<in> {GLive, GClosing, GDeleting}}"
    using assms by (auto simp: linv_def on_done_release_def)
  moreover have "won ?l \<union> gone_conn ?l \<subseteq> {..<ng ?l}"
    "l_stopping ?l \<longrightarrow> \<not> taken ?l \<and> (\<forall>h < ng ?l. gph ?l h = GLive \<longrightarrow> h \<in> l_obl ?l)"
    using assms(1) by (auto simp: linv_def on_done_release_def)
  ultimately show ?thesis by (simp add: linv_def)
qed

lemma linv_deadline:
  assumes "linv l" and "g < ng l"
  shows "linv (l\<lparr>gd := (gd l)(g := deadline t (gd l g))\<rparr>)"
  using assms linv_guard [OF assms]
  by (auto simp: linv_def deadline_def clamp_def guard_ok_def split: option.split)

lemma linv_stop: "linv l \<Longrightarrow> \<not> taken l \<Longrightarrow> linv (stop_locked l)"
  by (auto simp: linv_def stop_locked_def)

lemma linv_wg: "linv l \<Longrightarrow> linv (l\<lparr>l_wg := k\<rparr>)"
  by (simp add: linv_def)

lemma linv_begin: "linv l \<Longrightarrow> beginHandler l = (l', ok) \<Longrightarrow> linv l'"
  by (auto simp: beginHandler_def linv_wg split: if_splits)

lemmas linv_steps = linv_accept linv_accept_guard linv_next linv_complete linv_fail linv_close
  linv_delete linv_release linv_deadline linv_stop linv_begin linv_wg

lemma linv_step: assumes "linv l" and "lstep l l'" shows "linv l'"
  using assms(2,1) by (induction rule: lstep.induct) (rule linv_steps; assumption?)+

interpretation guard_sys: inv_system "\<lambda>l. l = newListener" lstep linv
  by unfold_locales (auto intro: linv_new linv_step)

subsection \<open>Serve and Dial\<close>

text \<open>
  What the goroutine of one accepted Noise connection does: \<open>hs\<close> is the error of the handshake,
  \<open>ok\<close> the answer of \<open>next\<close>, \<open>fin\<close> whether the guard was done when \<open>accept\<close> returned.
\<close>

datatype serve_act = CloseGuarded | CloseRaw | CallAccept | CloseIn

definition serve_conn :: "error option \<Rightarrow> bool \<Rightarrow> bool \<Rightarrow> serve_act list" where
  "serve_conn hse ok fin =
     (if hse \<noteq> None then [CloseGuarded]
      else if \<not> ok then [CloseRaw]
      else CallAccept # (if fin then [] else [CloseIn]))"

text \<open>
  The accept loop: each answer of \<open>Accept\<close> with \<^verbatim>\<open>ctx.Err() != nil\<close> at that time. The result is the
  number of goroutines started and what \<open>Serve\<close> returns; \<open>None\<close> means it is still accepting.
\<close>

fun serve_loop :: "(error option \<times> bool) list \<Rightarrow> nat \<Rightarrow> (nat \<times> error option) option" where
  "serve_loop [] k = None"
| "serve_loop ((e, ctx) # rest) k =
     (case e of
        Some x \<Rightarrow> Some (k, if ctx then None else Some x)
      | None \<Rightarrow> serve_loop rest (k + 1))"

definition Serve ::
    "string \<Rightarrow> (nat \<times> error option) option \<Rightarrow> (error option \<times> bool) list \<Rightarrow> (nat \<times> error option) option" where
  "Serve typ ws accepts =
     (if typ = ''wss'' then ws
      else if typ \<noteq> ''noise'' then Some (0, Some (Errmsg ''unsupported transport''))
      else serve_loop accepts 0)"

definition Dial :: "string \<Rightarrow> error + 'c \<Rightarrow> error + 'c \<Rightarrow> error + 'c" where
  "Dial typ by_noise by_ws =
     (if typ = ''noise'' then by_noise else if typ = ''wss'' then by_ws
      else Inl (Errmsg ''unsupported transport''))"

subsection \<open>WebSocket\<close>

definition subprotocol :: string where "subprotocol = ''compress-proxy.v1''"

record http_request =
  ProtoMajor :: int
  Method :: string
  URL_Path :: string
  RawQuery :: string

text \<open>
  One request, in the order of the handler. \<open>started\<close>: the answer of \<open>beginHandler\<close>; \<open>guarded\<close>:
  the request context carries a guard; \<open>upgrade\<close>: the negotiated subprotocol, or \<open>None\<close> when
  \<^verbatim>\<open>websocket.Accept\<close> failed; \<open>ok\<close>: the answer of \<open>next\<close>; \<open>fin\<close>: the guard is done after \<open>accept\<close>.
\<close>

datatype ws_act = HttpError nat | SetConnClose | CloseNow | Fail | WAccept | WCloseIn | WgDone

definition ws_handler ::
    "string \<Rightarrow> bool \<Rightarrow> http_request \<Rightarrow> bool \<Rightarrow> string option \<Rightarrow> bool \<Rightarrow> bool \<Rightarrow> ws_act list" where
  "ws_handler path started r guarded upgrade ok fin =
     (if \<not> started then [HttpError 503]
      else SetConnClose #
        (if ProtoMajor r \<noteq> 1 \<or> Method r \<noteq> ''GET'' \<or> URL_Path r \<noteq> path \<or> RawQuery r \<noteq> ''''
         then [HttpError 404]
         else if \<not> guarded then [HttpError 503]
         else case upgrade of
                None \<Rightarrow> [Fail]
              | Some sub \<Rightarrow>
                  if sub \<noteq> subprotocol then [CloseNow, Fail]
                  else if \<not> ok then [CloseNow]
                  else WAccept # (if fin then [] else [WCloseIn, Fail]))
        @ [WgDone])"

text \<open>\<open>dial\<close> is the TLS and WebSocket dialer: given the server name and the URL, the negotiated subprotocol.\<close>

definition dialWS ::
    "client_transport \<Rightarrow> (string \<Rightarrow> string \<Rightarrow> error + ('w \<times> string)) \<Rightarrow> string \<times> (error + 'w) \<times> 'w option" where
  "dialWS c dial =
     (let host0 = (case SplitHostPort (ct_RemoteAddr c) of None \<Rightarrow> '''' | Some (h, p) \<Rightarrow> h);
          host = (if ct_ServerName c \<noteq> '''' then ct_ServerName c else host0)
      in case dial host (''wss://'' @ ct_RemoteAddr c @ ct_Path c) of
           Inl e \<Rightarrow> (host, Inl e, None)
         | Inr (ws, sub) \<Rightarrow>
             if sub \<noteq> subprotocol then (host, Inl (Errmsg ''subprotocol mismatch''), Some ws)
             else (host, Inr ws, None))"

fun has_substring :: "string \<Rightarrow> string \<Rightarrow> bool" where
  "has_substring [] t = (t = [])"
| "has_substring (c # s) t = (has_prefix (c # s) t \<or> has_substring s t)"

definition ErrServerClosed :: error where "ErrServerClosed = Errmsg ''http: Server closed''"

definition serveWS_result :: "bool \<Rightarrow> error \<Rightarrow> error option" where
  "serveWS_result ctx_err e =
     (if ctx_err \<or> errors_Is e ErrServerClosed \<or> has_substring (error_text e) ''closed network connection''
      then None else Some e)"

subsection \<open>Properties\<close>

text \<open>
  C20. Unauthenticated connections are bounded. In every reachable state at most 64 slots are taken;
  the slots taken are exactly those of the connections whose guard has not finished (plus the one
  \<open>Accept\<close> is setting up), so no slot leaks and none is freed twice; and \<open>active\<close> holds exactly the
  guards that have not run \<open>onDone\<close>.
\<close>

theorem listener_slots:
  assumes "lreach l"
  shows "l_slots l \<le> 64 \<and> l_slots l = held_slots (ng l) (gph l) + (if taken l then 1 else 0)
    \<and> l_active l = {g. g < ng l \<and> gph l g \<in> {GLive, GClosing, GDeleting}}"
  using guard_sys.inv_reach [OF assms] by (simp add: linv_def)

text \<open>
  C21. Each connection is either authenticated or closed, never both. In every reachable state: a
  guard that is not done has its timer running and a deadline on the connection, both at most its
  phase, which never exceeds its overall limit, whatever deadlines the caller sets; and once a guard
  has finished, the connection was closed by it exactly if \<open>complete\<close> did not succeed.
\<close>

theorem guard_exclusive:
  assumes "lreach l" and "g < ng l"
  shows "if g_done (gd l g)
    then g_timer (gd l g) = None
      \<and> (if gph l g \<in> {GDeleting, GReleasing, GFreed} then (g \<in> won l) \<noteq> (g \<in> gone_conn l)
         else g \<notin> won l)
    else g_timer (gd l g) = Some (g_phase (gd l g)) \<and> g_phase (gd l g) \<le> g_until (gd l g)
      \<and> (\<exists>d \<le> g_phase (gd l g). conn_deadline (gd l g) = Some d)
      \<and> g \<notin> won l \<and> g \<notin> gone_conn l"
  using linv_guard [OF guard_sys.inv_reach [OF assms(1)] assms(2)]
  by (cases "gph l g") (auto simp: guard_ok_def)

text \<open>
  C32. Shutdown of the listener. Once \<open>stop\<close> has begun, no connection is being accepted and every
  live guard has been collected; when \<open>stop\<close> has failed those it collected, no guard is live, so
  every connection that is not authenticated is closed or being closed.
\<close>

theorem listener_stop:
  assumes "lreach l" and "l_stopping l"
  shows "\<not> taken l \<and> (\<forall>g < ng l. g_done (gd l g) \<or> g \<in> l_obl l)
    \<and> beginHandler l = (l, False)
    \<and> (if l_obl l = {} then \<forall>g < ng l. g_done (gd l g) \<and> (g \<in> won l \<or> g \<in> gone_conn l \<or> gph l g = GClosing)
       else True)"
proof -
  have inv: "linv l" using assms(1) by (rule guard_sys.inv_reach)
  have "g_done (gd l g) \<or> g \<in> l_obl l" if "g < ng l" for g
    using inv that assms(2) linv_live [OF inv that] by (auto simp: linv_def)
  moreover have "g \<in> won l \<or> g \<in> gone_conn l \<or> gph l g = GClosing" if "g < ng l" "g_done (gd l g)" for g
    using linv_guard [OF inv that(1)] that(2) by (cases "gph l g") (auto simp: guard_ok_def)
  moreover have "\<not> taken l" "beginHandler l = (l, False)"
    using inv assms(2) by (simp_all add: linv_def beginHandler_def)
  ultimately show ?thesis by auto
qed

text \<open>
  The time limits. A new guard allows 10 s for the first phase and 20 s in all; \<open>next\<close> starts
  another phase of at most 10 s that never goes past the overall limit, and fails when the current
  phase or the limit has passed; \<open>complete\<close> succeeds exactly when neither has passed and the guard
  is not done, and then removes the deadline.
\<close>

theorem guard_times:
  "g_until (newGuard t1 t2) = t1 + 20 * second
    \<and> g_phase (newGuard t1 t2) = min (t2 + 10 * second) (t1 + 20 * second)
    \<and> (case next_locked n1 n2 n3 g of (g', ok) \<Rightarrow>
        ok = (\<not> g_done g \<and> n1 < g_phase g \<and> n2 < g_until g) \<and> g_until g' = g_until g
        \<and> g_phase g' = (if ok then min (n3 + 10 * second) (g_until g) else g_phase g))
    \<and> (case complete_locked m1 m2 g of (g', ok) \<Rightarrow>
        ok = (\<not> g_done g \<and> m1 < g_until g \<and> m2 < g_phase g)
        \<and> (if ok then g_done g' \<and> conn_deadline g' = None \<and> g_timer g' = None else g' = g))"
  by (auto simp: newGuard_def Let_def earlier_def next_locked_def complete_locked_def min_def)

text \<open>
  The handlers never leave a guard behind. A Noise or WebSocket connection is handed to
  \<open>accept\<close> only after its handshake (and a valid upgrade request: HTTP/1, GET, the configured path,
  no query, the subprotocol) and a successful \<open>next\<close>; otherwise it is closed or refused. After
  \<open>accept\<close> it is closed unless the guard is done, and each started handler ends with \<^verbatim>\<open>wg.Done\<close>.
\<close>

theorem handlers_close:
  "(if CallAccept \<in> set (serve_conn hse ok fin)
    then hse = None \<and> ok \<and> (fin \<or> last (serve_conn hse ok fin) = CloseIn)
    else serve_conn hse ok fin \<in> {[CloseGuarded], [CloseRaw]})
   \<and> (let a = ws_handler path started r guarded upgrade ok fin in
      (WAccept \<in> set a \<longleftrightarrow> started \<and> ProtoMajor r = 1 \<and> Method r = ''GET'' \<and> URL_Path r = path
         \<and> RawQuery r = '''' \<and> guarded \<and> upgrade = Some subprotocol \<and> ok)
      \<and> (WgDone \<in> set a \<longleftrightarrow> started)
      \<and> (if started \<and> guarded \<and> upgrade \<noteq> None \<and> HttpError 404 \<notin> set a
         then (WAccept \<in> set a \<and> fin) \<or> Fail \<in> set a \<or> CloseNow \<in> set a else True))"
  by (auto simp: serve_conn_def ws_handler_def Let_def split: option.splits)

subsection \<open>A concrete run\<close>

text \<open>One connection is accepted and authenticates after a second; a second one is there when \<open>stop\<close> runs.\<close>

definition lrun2 :: listener where
  "lrun2 = accept_guard 5 5 (fst (accept_slot (accept_guard 0 0 (fst (accept_slot newListener)))))"

definition lrun3 :: listener where
  "lrun3 = fst (l_complete second second 0 lrun2)"

definition lrun4 :: listener where
  "lrun4 = (l_fail 1 (stop_locked lrun3))\<lparr>l_obl := l_obl (stop_locked lrun3) - {1}\<rparr>"

lemma lrun_reach: "lreach lrun2" "lreach lrun3" "lreach lrun4"
proof -
  let ?a = "fst (accept_slot newListener)"
  let ?b = "accept_guard 0 0 ?a"
  let ?c = "fst (accept_slot ?b)"
  have "lreach newListener" by (rule reach_start) simp
  moreover have "lstep newListener ?a" by (rule l_accept) (simp_all add: newListener_def accept_slot_def)
  moreover have "lstep ?a ?b" by (rule l_guard) (simp add: newListener_def accept_slot_def)
  moreover have "lstep ?b ?c"
    by (rule l_accept) (simp_all add: newListener_def accept_slot_def accept_guard_def)
  moreover have "lstep ?c lrun2"
    unfolding lrun2_def by (rule l_guard) (simp add: newListener_def accept_slot_def accept_guard_def)
  ultimately show 2: "lreach lrun2" by (meson reach_step)
  have n: "ng lrun2 = 2" by (simp add: lrun2_def newListener_def accept_slot_def accept_guard_def)
  have "lstep lrun2 lrun3"
    unfolding lrun3_def by (rule l_auth [of 0 _ second second _ "snd (l_complete second second 0 lrun2)"])
      (simp_all add: n)
  with 2 show 3: "lreach lrun3" by (rule reach_step)
  have "ng lrun3 = 2" "\<not> taken lrun3" "1 \<in> l_active lrun3"
    by (auto simp: lrun3_def lrun2_def l_complete_def complete_locked_def newListener_def accept_slot_def
        accept_guard_def newGuard_def Let_def earlier_def time_consts)
  then have "1 < ng (stop_locked lrun3)" "1 \<in> l_obl (stop_locked lrun3)"
    by (simp_all add: stop_locked_def)
  then have "lstep (stop_locked lrun3) lrun4" unfolding lrun4_def by (intro l_stop_fail)
  moreover have "lstep lrun3 (stop_locked lrun3)" using \<open>\<not> taken lrun3\<close> by (rule l_stop)
  ultimately show "lreach lrun4" using 3 by (meson reach_step)
qed

lemmas lrun_defs = lrun4_def lrun3_def lrun2_def l_complete_def complete_locked_def newListener_def
  accept_slot_def accept_guard_def newGuard_def Let_def earlier_def time_consts stop_locked_def
  l_fail_def fail_locked_def

theorem listener_slots_witness: "l_slots lrun2 = 2 \<and> l_active lrun2 = {0, 1}"
proof -
  have e: "ng lrun2 = 2" "gph lrun2 0 = GLive" "gph lrun2 1 = GLive" "\<not> taken lrun2"
    by (simp_all add: lrun_defs)
  then have "{g. g < ng lrun2 \<and> gph lrun2 g \<in> {GLive, GClosing, GDeleting}} = {0, 1}"
    "{g. g < ng lrun2 \<and> gph lrun2 g \<noteq> GFreed} = {0, 1}"
    by (auto simp: less_2_cases_iff)
  with listener_slots [OF lrun_reach(1)] e(4) show ?thesis by (simp add: held_slots_def)
qed

theorem guard_exclusive_witness:
  "0 \<in> won lrun3 \<and> 0 \<notin> gone_conn lrun3 \<and> g_timer (gd lrun3 0) = None"
proof -
  have "g_done (gd lrun3 0)" "gph lrun3 0 = GDeleting" "0 < ng lrun3" "0 \<in> won lrun3"
    by (simp_all add: lrun_defs)
  with guard_exclusive [OF lrun_reach(2), of 0] show ?thesis by simp
qed

theorem listener_stop_witness:
  "l_stopping lrun4 \<and> beginHandler lrun4 = (lrun4, False) \<and> (g_done (gd lrun4 0) \<or> 0 \<in> l_obl lrun4)"
proof -
  have "l_stopping lrun4" "ng lrun4 = 2" by (simp_all add: lrun_defs)
  with listener_stop [OF lrun_reach(3)] show ?thesis by auto
qed

end
