(* ===== verification/Relay.thy ===== *)
theory Relay
  imports Noise
begin

text \<open>
  The relay of one lease, \<^verbatim>\<open>internal/relay/relay.go\<close>: local bytes are compressed into DATA frames
  and end with FIN; DATA frames are decompressed back onto the local socket. The tunnel is any
  reader and writer (\<open>rd\<close>, \<open>wr\<close>): plain TCP, Noise or WebSocket. The zstd library is outside: an
  encoder and a decoder are state machines given as arguments. Deadlines show as errors of the
  network operations they end.
\<close>

subsection \<open>Counters\<close>

text \<open>A counter is absent (nil) or a 64-bit atomic; \<open>add\<close> ignores a nil counter and \<open>n \<le> 0\<close>.\<close>

definition add_count :: "nat \<Rightarrow> u64 option \<Rightarrow> u64 option" where
  "add_count n c = (if n > 0 then map_option (\<lambda>x. x + of_nat n) c else c)"

lemma add_count_0 [simp]: "add_count 0 c = c"
  by (simp add: add_count_def)

lemma add_count_add [simp]: "add_count m (add_count n c) = add_count (n + m) c"
  by (cases c) (auto simp: add_count_def)

subsection \<open>Writing DATA frames\<close>

record 's frame_writer =
  fw_conn :: 's
  fw_id :: u64
  fw_bytes :: "u64 option"

definition data_frame :: "u64 \<Rightarrow> bytes \<Rightarrow> frame" where
  "data_frame cid p = \<lparr>Typ = DATA, LeaseID = cid, Payload = p\<rparr>"

function frame_write_loop ::
    "'s writer \<Rightarrow> 's frame_writer \<Rightarrow> bytes \<Rightarrow> nat \<Rightarrow> 's frame_writer \<times> nat \<times> error option" where
  "frame_write_loop wr w p sent =
     (if p = [] then (w, sent, None)
      else let n = min (length p) 32768
           in case write_frame wr (fw_conn w) (data_frame (fw_id w) (take n p)) of
                (s, Some e) \<Rightarrow> (w\<lparr>fw_conn := s\<rparr>, sent, Some e)
              | (s, None) \<Rightarrow>
                  frame_write_loop wr (w\<lparr>fw_conn := s, fw_bytes := add_count n (fw_bytes w)\<rparr>)
                    (drop n p) (sent + n))"
  by pat_completeness auto
termination
  by (relation "measure (\<lambda>(wr, w, p, sent). length p)") (auto simp: min_def split: if_splits)

declare frame_write_loop.simps [simp del]

definition frame_write :: "'s writer \<Rightarrow> 's frame_writer writer" where
  "frame_write wr w p = frame_write_loop wr w p 0"

subsection \<open>Reading DATA frames\<close>

record 's frame_reader =
  fr_conn :: 's
  fr_id :: u64
  fr_pending :: bytes
  fr_fin :: bool
  fr_bytes :: "u64 option"

definition fr_deliver :: "'s frame_reader \<Rightarrow> nat \<Rightarrow> 's frame_reader \<times> bytes \<times> error option" where
  "fr_deliver r n = (r\<lparr>fr_pending := drop n (fr_pending r)\<rparr>, take n (fr_pending r), None)"

definition frame_read ::
    "'s reader \<Rightarrow> 's frame_reader \<Rightarrow> nat \<Rightarrow> ('s frame_reader \<times> bytes \<times> error option) option" where
  "frame_read rd r n =
     (if n = 0 then Some (r, [], None)
      else if fr_pending r \<noteq> [] then Some (fr_deliver r n)
      else if fr_fin r then Some (r, [], Some EOF)
      else case read_frame rd (fr_conn r) of
             None \<Rightarrow> None
           | Some (s, Inl e) \<Rightarrow> Some (r\<lparr>fr_conn := s\<rparr>, [], Some (Wrap ''missing FIN: '' e))
           | Some (s, Inr f) \<Rightarrow>
               (let r1 = r\<lparr>fr_conn := s\<rparr>
                in if LeaseID f \<noteq> fr_id r then Some (r1, [], Some (Errmsg ''wrong lease id''))
                   else if Typ f = DATA
                   then Some (fr_deliver (r1\<lparr>fr_bytes := add_count (length (Payload f)) (fr_bytes r),
                                            fr_pending := Payload f\<rparr>) n)
                   else if Typ f = FIN then Some (r1\<lparr>fr_fin := True\<rparr>, [], Some EOF)
                   else Some (r1, [], Some (Errmsg ''unexpected relay frame''))))"

definition finish :: "'s reader \<Rightarrow> 's frame_reader \<Rightarrow> ('s frame_reader \<times> error option) option" where
  "finish rd r =
     (if fr_pending r \<noteq> [] then Some (r, Some (Errmsg ''unread compressed data''))
      else if fr_fin r then Some (r, None)
      else case read_frame rd (fr_conn r) of
             None \<Rightarrow> None
           | Some (s, Inl e) \<Rightarrow> Some (r\<lparr>fr_conn := s\<rparr>, Some e)
           | Some (s, Inr f) \<Rightarrow>
               if Typ f \<noteq> FIN \<or> LeaseID f \<noteq> fr_id r
               then Some (r\<lparr>fr_conn := s\<rparr>, Some (Errmsg ''expected FIN after compressed frame''))
               else Some (r\<lparr>fr_conn := s, fr_fin := True\<rparr>, None))"

subsection \<open>The local socket\<close>

text \<open>\<open>setdl\<close> is the error of \<^verbatim>\<open>SetWriteDeadline\<close> on a socket in that state.\<close>

record deadline_writer =
  dw_conn :: net_conn
  dw_bytes :: "u64 option"

definition deadline_write :: "(net_conn \<Rightarrow> error option) \<Rightarrow> deadline_writer writer" where
  "deadline_write setdl w p =
     (case setdl (dw_conn w) of
        Some e \<Rightarrow> (w, 0, Some e)
      | None \<Rightarrow>
          (case net_write (dw_conn w) p of
             (s, n, e) \<Rightarrow> (w\<lparr>dw_conn := s, dw_bytes := add_count n (dw_bytes w)\<rparr>, n, e)))"

subsection \<open>The two directions\<close>

text \<open>
  The encoder: each operation yields the pieces it writes to its writer, in order; it stops at the
  first failed write and reports that error.
\<close>

record 'z encoder =
  ze_write :: "'z \<Rightarrow> bytes \<Rightarrow> 'z \<times> bytes list"
  ze_flush :: "'z \<Rightarrow> 'z \<times> bytes list"
  ze_close :: "'z \<Rightarrow> 'z \<times> bytes list"

fun emit :: "'s writer \<Rightarrow> 's frame_writer \<Rightarrow> bytes list \<Rightarrow> 's frame_writer \<times> error option" where
  "emit wr w [] = (w, None)"
| "emit wr w (b # bs) =
     (case frame_write wr w b of
        (w1, n, Some e) \<Rightarrow> (w1, Some e)
      | (w1, n, None) \<Rightarrow> emit wr w1 bs)"

text \<open>The goroutine that reads the local socket. \<open>up_tcp\<close>, \<open>up_raw\<close>: the socket and its counter.\<close>

record ('s, 'z) up_state =
  up_tcp :: net_conn
  up_raw :: "u64 option"
  up_fw :: "'s frame_writer"
  up_z :: 'z

text \<open>One pass over bytes that were read: \<open>encoder.Write\<close>, then \<open>encoder.Flush\<close>.\<close>

definition up_push ::
    "'s writer \<Rightarrow> 'z encoder \<Rightarrow> bytes \<Rightarrow> ('s, 'z) up_state \<Rightarrow> ('s, 'z) up_state \<times> error option" where
  "up_push wr Z b u =
     (case ze_write Z (up_z u) b of (z1, o1) \<Rightarrow>
        (case emit wr (up_fw u) o1 of
           (w1, Some e) \<Rightarrow> (u\<lparr>up_z := z1, up_fw := w1\<rparr>, Some e)
         | (w1, None) \<Rightarrow>
             (case ze_flush Z z1 of (z2, o2) \<Rightarrow>
                (case emit wr w1 o2 of (w2, e) \<Rightarrow> (u\<lparr>up_z := z2, up_fw := w2\<rparr>, e)))))"

definition up_end ::
    "'s writer \<Rightarrow> 'z encoder \<Rightarrow> ('s, 'z) up_state \<Rightarrow> ('s, 'z) up_state \<times> error option" where
  "up_end wr Z u =
     (case ze_close Z (up_z u) of (z1, o1) \<Rightarrow>
        (case emit wr (up_fw u) o1 of
           (w1, Some e) \<Rightarrow> (u\<lparr>up_z := z1, up_fw := w1\<rparr>, Some e)
         | (w1, None) \<Rightarrow>
             (case write_frame wr (fw_conn w1) \<lparr>Typ = FIN, LeaseID = fw_id w1, Payload = []\<rparr> of
                (s, e) \<Rightarrow> (u\<lparr>up_z := z1, up_fw := w1\<lparr>fw_conn := s\<rparr>\<rparr>, e))))"

partial_function (option) up_loop ::
    "'s writer \<Rightarrow> 'z encoder \<Rightarrow> ('s, 'z) up_state \<Rightarrow> (('s, 'z) up_state \<times> error option) option" where
  "up_loop wr Z u =
     (case net_read (up_tcp u) 32768 of (t, b, e) \<Rightarrow>
        (let u1 = u\<lparr>up_tcp := t, up_raw := add_count (length b) (up_raw u)\<rparr>
         in case (if b \<noteq> [] then up_push wr Z b u1 else (u1, None)) of
              (u2, Some x) \<Rightarrow> Some (u2, Some x)
            | (u2, None) \<Rightarrow>
                (case e of
                   Some x \<Rightarrow> if x \<noteq> EOF then Some (u2, Some x) else Some (up_end wr Z u2)
                 | None \<Rightarrow> up_loop wr Z u2)))"

text \<open>
  The decoder: it wants at most \<open>n\<close> bytes of compressed input (\<open>Pull n\<close>, answered by \<open>zd_feed\<close> with
  what one \<open>Read\<close> returned), has output, is done, or has failed. \<open>io.CopyBuffer\<close> hands the output
  to the local socket until the decoder stops.
\<close>

datatype zd_act = Pull nat | Out bytes | ZDone | ZErr error

record 'd decoder =
  zd_step :: "'d \<Rightarrow> 'd \<times> zd_act"
  zd_feed :: "'d \<Rightarrow> bytes \<Rightarrow> error option \<Rightarrow> 'd"

record ('s, 'd) down_state =
  dn_fr :: "'s frame_reader"
  dn_dw :: deadline_writer
  dn_d :: 'd

partial_function (option) copy_loop ::
    "'s reader \<Rightarrow> (net_conn \<Rightarrow> error option) \<Rightarrow> 'd decoder \<Rightarrow> ('s, 'd) down_state
     \<Rightarrow> (('s, 'd) down_state \<times> error option) option" where
  "copy_loop rd setdl D u =
     (case zd_step D (dn_d u) of
        (d, ZDone) \<Rightarrow> Some (u\<lparr>dn_d := d\<rparr>, None)
      | (d, ZErr e) \<Rightarrow> Some (u\<lparr>dn_d := d\<rparr>, Some e)
      | (d, Out b) \<Rightarrow>
          (if b = [] then copy_loop rd setdl D (u\<lparr>dn_d := d\<rparr>)
           else case deadline_write setdl (dn_dw u) b of
                  (w, n, Some e) \<Rightarrow> Some (u\<lparr>dn_d := d, dn_dw := w\<rparr>, Some e)
                | (w, n, None) \<Rightarrow> copy_loop rd setdl D (u\<lparr>dn_d := d, dn_dw := w\<rparr>))
      | (d, Pull n) \<Rightarrow>
          (case frame_read rd (dn_fr u) n of
             None \<Rightarrow> None
           | Some (r, b, e) \<Rightarrow> copy_loop rd setdl D (u\<lparr>dn_fr := r, dn_d := zd_feed D d b e\<rparr>)))"

text \<open>\<open>closew\<close> is the error of \<^verbatim>\<open>CloseWrite\<close> on the local socket.\<close>

definition down ::
    "'s reader \<Rightarrow> (net_conn \<Rightarrow> error option) \<Rightarrow> (net_conn \<Rightarrow> error option) \<Rightarrow> 'd decoder
     \<Rightarrow> ('s, 'd) down_state \<Rightarrow> (('s, 'd) down_state \<times> error option) option" where
  "down rd setdl closew D u =
     (case copy_loop rd setdl D u of
        None \<Rightarrow> None
      | Some (u1, Some e) \<Rightarrow> Some (u1, Some e)
      | Some (u1, None) \<Rightarrow>
          (case finish rd (dn_fr u1) of
             None \<Rightarrow> None
           | Some (r, Some e) \<Rightarrow> Some (u1\<lparr>dn_fr := r\<rparr>, Some e)
           | Some (r, None) \<Rightarrow>
               (case closew (dw_conn (dn_dw u1)) of
                  None \<Rightarrow> Some (u1\<lparr>dn_fr := r\<rparr>, None)
                | Some e \<Rightarrow>
                    Some (u1\<lparr>dn_fr := r\<rparr>, if errors_Is e ENOTCONN then None else Some e))))"

subsection \<open>Run\<close>

text \<open>
  \<open>fst_err\<close> and \<open>snd_err\<close>: what the two goroutines reported, in the order received; \<open>reset\<close>: the error
  of the last \<^verbatim>\<open>decoder.Reset(nil)\<close>. The result: how often \<open>abort\<close> ran, whether the relay was closed
  (so that the next lease builds a new codec), and what \<open>Run\<close> returns.
\<close>

definition run_end :: "error option \<Rightarrow> error option \<Rightarrow> error option \<Rightarrow> nat \<times> bool \<times> error option" where
  "run_end fst_err snd_err reset =
     (let aborts = (if fst_err \<noteq> None then 1 else 0) + (if snd_err \<noteq> None then 1 else 0)
      in if fst_err = None \<and> snd_err = None then (aborts, False, reset)
         else (aborts, True, if fst_err \<noteq> None then fst_err else snd_err))"

definition run_up :: "'s \<Rightarrow> u64 \<Rightarrow> net_conn \<Rightarrow> u64 option \<Rightarrow> u64 option \<Rightarrow> 'z \<Rightarrow> ('s, 'z) up_state" where
  "run_up tunnel cid tcp raw_c comp_c z =
     \<lparr>up_tcp = tcp, up_raw = raw_c, up_fw = \<lparr>fw_conn = tunnel, fw_id = cid, fw_bytes = comp_c\<rparr>, up_z = z\<rparr>"

definition run_down :: "'s \<Rightarrow> u64 \<Rightarrow> net_conn \<Rightarrow> u64 option \<Rightarrow> u64 option \<Rightarrow> 'd \<Rightarrow> ('s, 'd) down_state" where
  "run_down tunnel cid tcp raw_c comp_c d =
     \<lparr>dn_fr = \<lparr>fr_conn = tunnel, fr_id = cid, fr_pending = [], fr_fin = False, fr_bytes = comp_c\<rparr>,
      dn_dw = \<lparr>dw_conn = tcp, dw_bytes = raw_c\<rparr>, dn_d = d\<rparr>"

text \<open>
  \<open>Run\<close> on one side. The tunnel is used as its writing half (in \<open>u\<close>) and its reading half (in \<open>d\<close>),
  which the two goroutines own; what \<open>abort\<close> does to a goroutine that is still running shows as an
  error of its next operation. \<open>up_first\<close> is the order in which the goroutines report. An error of
  \<open>init\<close> or of the first \<open>decoder.Reset\<close> ends \<open>Run\<close> before anything is relayed.
\<close>

definition Run ::
    "'s writer \<Rightarrow> 's reader \<Rightarrow> 'z encoder \<Rightarrow> 'd decoder \<Rightarrow> (net_conn \<Rightarrow> error option)
     \<Rightarrow> (net_conn \<Rightarrow> error option) \<Rightarrow> error option \<Rightarrow> error option \<Rightarrow> error option \<Rightarrow> bool
     \<Rightarrow> ('s, 'z) up_state \<Rightarrow> ('s, 'd) down_state
     \<Rightarrow> (('s, 'z) up_state \<times> ('s, 'd) down_state \<times> nat \<times> bool \<times> error option) option" where
  "Run wr rd Z D setdl closew init_err reset1 reset2 up_first u d =
     (if init_err \<noteq> None then Some (u, d, 0, False, init_err)
      else if reset1 \<noteq> None then Some (u, d, 0, False, reset1)
      else case (up_loop wr Z u, down rd setdl closew D d) of
             (Some (u1, e1), Some (d1, e2)) \<Rightarrow>
               Some (u1, d1, if up_first then run_end e1 e2 reset2 else run_end e2 e1 reset2)
           | _ \<Rightarrow> None)"

subsection \<open>DATA frames as a stream\<close>

definition fin_frame :: "u64 \<Rightarrow> frame" where
  "fin_frame cid = \<lparr>Typ = FIN, LeaseID = cid, Payload = []\<rparr>"

definition data_bytes :: "u64 \<Rightarrow> bytes list \<Rightarrow> bytes" where
  "data_bytes cid ds = concat (map (\<lambda>d. encode_frame (data_frame cid d)) ds)"

lemma data_bytes_append [simp]: "data_bytes cid (xs @ ys) = data_bytes cid xs @ data_bytes cid ys"
  by (simp add: data_bytes_def)

lemma data_bytes_Nil [simp]: "data_bytes cid [] = []"
  by (simp add: data_bytes_def)

definition piece_ok :: "bytes \<Rightarrow> bool" where
  "piece_ok d \<longleftrightarrow> 0 < length d \<and> length d \<le> 32768"

lemma data_frame_ok: "piece_ok d \<Longrightarrow> frame_ok (data_frame cid d)"
  by (auto simp: piece_ok_def frame_ok_def data_frame_def valid_def Suc_le_eq)

lemma fin_frame_ok: "frame_ok (fin_frame cid)"
  by (simp add: frame_ok_def fin_frame_def valid_def)

lemma chunks_piece_ok: "q \<in> set (chunks p) \<Longrightarrow> piece_ok q"
  using chunks_bounds by (auto simp: piece_ok_def)

lemma frame_write_loop_count:
  "frame_write_loop wr w p k = (w', n, e) \<Longrightarrow>
    k \<le> n \<and> n \<le> k + length p \<and> (e = None \<longrightarrow> n = k + length p) \<and> (e \<noteq> None \<longrightarrow> n < k + length p)
    \<and> fw_bytes w' = add_count (n - k) (fw_bytes w) \<and> fw_id w' = fw_id w"
proof (induction wr w p k rule: frame_write_loop.induct)
  case (1 wr w p k)
  show ?case
  proof (cases "p = []")
    case True
    with "1.prems" show ?thesis by (subst (asm) frame_write_loop.simps) simp
  next
    case False
    let ?n = "min (length p) 32768"
    have n: "0 < ?n" using False by simp
    obtain s x where w: "write_frame wr (fw_conn w) (data_frame (fw_id w) (take ?n p)) = (s, x)"
      by (cases "write_frame wr (fw_conn w) (data_frame (fw_id w) (take ?n p))")
    show ?thesis
    proof (cases x)
      case None
      with "1.prems" False w have
        l: "frame_write_loop wr (w\<lparr>fw_conn := s, fw_bytes := add_count ?n (fw_bytes w)\<rparr>)
          (drop ?n p) (k + ?n) = (w', n, e)"
        by (subst (asm) frame_write_loop.simps) (auto simp: Let_def)
      from "1.IH" [OF False refl w [symmetric] None l] n show ?thesis
        by (auto simp del: add_count_add) (auto simp: min_def split: if_splits)
    next
      case (Some y)
      with "1.prems" False w show ?thesis by (subst (asm) frame_write_loop.simps) (auto simp: Let_def)
    qed
  qed
qed

interpretation frame_wr: io_writer "frame_write wr" for wr
  using frame_write_loop_count [of wr] unfolding frame_write_def by unfold_locales (fastforce)+

context sender
begin

lemma frame_write_loop_sends:
  "frame_write_loop wr w p k = (w', n, None) \<Longrightarrow>
    sends (fw_conn w) (fw_conn w') (data_bytes (fw_id w) (chunks p))"
proof (induction "length p" arbitrary: w p k rule: less_induct)
  case less
  show ?case
  proof (cases "p = []")
    case True
    with less.prems show ?thesis by (subst (asm) frame_write_loop.simps) (simp add: sends_Nil)
  next
    case False
    let ?n = "min (length p) 32768"
    have t: "take ?n p = take chunk p" "drop ?n p = drop chunk p" by (auto simp: min_def)
    obtain s where w: "write_frame wr (fw_conn w) (data_frame (fw_id w) (take ?n p)) = (s, None)"
      using less.prems False
      by (subst (asm) frame_write_loop.simps) (auto simp: Let_def split: prod.splits option.splits)
    have l: "frame_write_loop wr (w\<lparr>fw_conn := s, fw_bytes := add_count ?n (fw_bytes w)\<rparr>)
        (drop ?n p) (k + ?n) = (w', n, None)"
      using less.prems False w by (subst (asm) frame_write_loop.simps) (auto simp: Let_def)
    have "length (drop ?n p) < length p" using False by simp
    from less.hyps [OF this l] have
      "sends s (fw_conn w') (data_bytes (fw_id w) (chunks (drop chunk p)))" unfolding t by simp
    moreover have "sends (fw_conn w) s (encode_frame (data_frame (fw_id w) (take chunk p)))"
      using write_frame_sends [OF w] unfolding t by simp
    ultimately show ?thesis
      using False sends_append by (subst chunks.simps) (simp add: data_bytes_def)
  qed
qed

text \<open>The encoder's output, as it travels: each piece cut into chunks.\<close>

lemma emit_sends:
  "emit wr w bs = (w', None) \<Longrightarrow>
    sends (fw_conn w) (fw_conn w') (data_bytes (fw_id w) (concat (map chunks bs)))
    \<and> fw_id w' = fw_id w \<and> fw_bytes w' = add_count (length (concat bs)) (fw_bytes w)"
proof (induction bs arbitrary: w)
  case Nil
  then show ?case by (simp add: sends_Nil)
next
  case (Cons b bs)
  then obtain w1 n where f: "frame_write_loop wr w b 0 = (w1, n, None)" and e: "emit wr w1 bs = (w', None)"
    by (auto simp: frame_write_def split: prod.splits option.splits)
  from Cons.IH [OF e] frame_write_loop_sends [OF f] frame_write_loop_count [OF f] sends_append
  show ?case by (auto simp: add.commute)
qed

lemma up_push_sends:
  assumes "up_push wr Z b u = (u', None)"
  shows "\<exists>z1 o1 o2. ze_write Z (up_z u) b = (z1, o1) \<and> ze_flush Z z1 = (up_z u', o2)
    \<and> sends (fw_conn (up_fw u)) (fw_conn (up_fw u'))
        (data_bytes (fw_id (up_fw u)) (concat (map chunks (o1 @ o2))))
    \<and> fw_id (up_fw u') = fw_id (up_fw u) \<and> up_tcp u' = up_tcp u \<and> up_raw u' = up_raw u
    \<and> fw_bytes (up_fw u') = add_count (length (concat (o1 @ o2))) (fw_bytes (up_fw u))"
proof -
  obtain z1 o1 z2 o2 where z: "ze_write Z (up_z u) b = (z1, o1)" "ze_flush Z z1 = (z2, o2)"
    by (cases "ze_write Z (up_z u) b"; cases "ze_flush Z (fst (ze_write Z (up_z u) b))") auto
  with assms obtain w1 where 1: "emit wr (up_fw u) o1 = (w1, None)"
    by (auto simp: up_push_def split: prod.splits option.splits)
  with assms z obtain w2 where 2: "emit wr w1 o2 = (w2, None)" and u': "u' = u\<lparr>up_z := z2, up_fw := w2\<rparr>"
    by (auto simp: up_push_def split: prod.splits)
  from emit_sends [OF 1] emit_sends [OF 2] sends_append z show ?thesis
    by (auto simp: u' add.assoc)
qed

lemma up_end_sends:
  assumes "up_end wr Z u = (u', None)"
  shows "\<exists>z1 o1. ze_close Z (up_z u) = (z1, o1)
    \<and> sends (fw_conn (up_fw u)) (fw_conn (up_fw u'))
        (data_bytes (fw_id (up_fw u)) (concat (map chunks o1)) @ encode_frame (fin_frame (fw_id (up_fw u))))
    \<and> up_tcp u' = up_tcp u \<and> up_raw u' = up_raw u
    \<and> fw_bytes (up_fw u') = add_count (length (concat o1)) (fw_bytes (up_fw u))"
proof -
  obtain z1 o1 where z: "ze_close Z (up_z u) = (z1, o1)" by (cases "ze_close Z (up_z u)")
  with assms obtain w1 where 1: "emit wr (up_fw u) o1 = (w1, None)"
    by (auto simp: up_end_def split: prod.splits option.splits)
  note e = emit_sends [OF 1]
  from assms z 1 e obtain s where
    w: "write_frame wr (fw_conn w1) (fin_frame (fw_id (up_fw u))) = (s, None)"
    and u': "u' = u\<lparr>up_z := z1, up_fw := w1\<lparr>fw_conn := s\<rparr>\<rparr>"
    by (auto simp: up_end_def fin_frame_def split: prod.splits)
  from e write_frame_sends [OF w] sends_append z show ?thesis by (auto simp: u')
qed

end

text \<open>All the encoder writes for the pieces \<open>ps\<close> that were read, up to and including its close.\<close>

fun z_run :: "'z encoder \<Rightarrow> 'z \<Rightarrow> bytes list \<Rightarrow> bytes list" where
  "z_run Z z [] = snd (ze_close Z z)"
| "z_run Z z (p # ps) =
     (case ze_write Z z p of (z1, o1) \<Rightarrow>
        case ze_flush Z z1 of (z2, o2) \<Rightarrow> o1 @ o2 @ z_run Z z2 ps)"

text \<open>
  The upward goroutine always returns. If it reports no error, it has read the whole local stream
  up to an orderly end, and sent the encoder's output for it in DATA frames, and then FIN.
\<close>
lemma up_loop_step:
  assumes "net_read (up_tcp u) 32768 = (t, b, e)"
  shows "up_loop wr Z u =
    (case (if b \<noteq> [] then up_push wr Z b (u\<lparr>up_tcp := t, up_raw := add_count (length b) (up_raw u)\<rparr>)
           else (u\<lparr>up_tcp := t, up_raw := add_count (length b) (up_raw u)\<rparr>, None)) of
       (u2, Some x) \<Rightarrow> Some (u2, Some x)
     | (u2, None) \<Rightarrow>
         (case e of
            Some x \<Rightarrow> if x \<noteq> EOF then Some (u2, Some x) else Some (up_end wr Z u2)
          | None \<Rightarrow> up_loop wr Z u2))"
  by (subst up_loop.simps) (simp add: assms Let_def)

lemma up_push_tcp: "up_push wr Z b u = (u', e) \<Longrightarrow> up_tcp u' = up_tcp u"
  by (auto simp: up_push_def split: prod.splits option.splits)

lemma up_loop_returns: "\<exists>r. up_loop wr Z u = Some r"
proof (induction "length (net_content (up_tcp u))" arbitrary: u rule: less_induct)
  case less
  obtain t b e where r: "net_read (up_tcp u) 32768 = (t, b, e)" by (cases "net_read (up_tcp u) 32768") auto
  show ?case
  proof (cases e)
    case (Some x)
    then show ?thesis by (auto simp: up_loop_step [OF r] split: prod.splits option.splits)
  next
    case None
    with r have "b \<noteq> []" "net_content (up_tcp u) = b @ net_content t"
      using net_rd.rd_ok net_rd.rd_progress by auto
    then have "length (net_content t) < length (net_content (up_tcp u))" by simp
    with less.hyps None up_push_tcp show ?thesis
      by (fastforce simp: up_loop_step [OF r] split: prod.splits option.splits)
  qed
qed

context sender
begin

lemma up_loop_sends:
  assumes "up_loop wr Z u = Some (u', None)"
  shows "\<exists>ps. concat ps = net_content (up_tcp u) \<and> net_ending (up_tcp u) = EOF
    \<and> sends (fw_conn (up_fw u)) (fw_conn (up_fw u'))
        (data_bytes (fw_id (up_fw u)) (concat (map chunks (z_run Z (up_z u) ps)))
          @ encode_frame (fin_frame (fw_id (up_fw u))))
    \<and> up_raw u' = add_count (length (net_content (up_tcp u))) (up_raw u)
    \<and> fw_bytes (up_fw u') = add_count (length (concat (z_run Z (up_z u) ps))) (fw_bytes (up_fw u))"
  using assms
proof (induction "length (net_content (up_tcp u))" arbitrary: u rule: less_induct)
  case less
  obtain t b e where r: "net_read (up_tcp u) 32768 = (t, b, e)" by (cases "net_read (up_tcp u) 32768") auto
  let ?u1 = "u\<lparr>up_tcp := t, up_raw := add_count (length b) (up_raw u)\<rparr>"
  show ?case
  proof (cases e)
    case (Some x)
    with r have c: "b = []" "net_content (up_tcp u) = []" "x = net_ending (up_tcp u)"
      using net_rd.rd_err by auto
    with less.prems Some have "x = EOF" and fin: "up_end wr Z ?u1 = (u', None)"
      by (auto simp: up_loop_step [OF r] split: if_splits)
    from up_end_sends [OF fin] c \<open>x = EOF\<close> show ?thesis
      by (intro exI [of _ "[]"]) auto
  next
    case None
    with r have c: "b \<noteq> []" "net_content (up_tcp u) = b @ net_content t" "net_ending t = net_ending (up_tcp u)"
      using net_rd.rd_ok net_rd.rd_progress by auto
    then have lt: "length (net_content t) < length (net_content (up_tcp u))" by simp
    obtain u2 where p: "up_push wr Z b ?u1 = (u2, None)" and l: "up_loop wr Z u2 = Some (u', None)"
      using less.prems None c(1) by (auto simp: up_loop_step [OF r] split: prod.splits option.splits)
    obtain z1 o1 o2 where z: "ze_write Z (up_z u) b = (z1, o1)" "ze_flush Z z1 = (up_z u2, o2)"
      and s: "sends (fw_conn (up_fw u)) (fw_conn (up_fw u2))
          (data_bytes (fw_id (up_fw u)) (concat (map chunks (o1 @ o2))))"
      and u2: "fw_id (up_fw u2) = fw_id (up_fw u)" "up_tcp u2 = t" "up_raw u2 = up_raw ?u1"
        "fw_bytes (up_fw u2) = add_count (length (concat (o1 @ o2))) (fw_bytes (up_fw u))"
      using up_push_sends [OF p] by auto
    have "length (net_content (up_tcp u2)) < length (net_content (up_tcp u))" using lt u2(2) by simp
    from less.hyps [OF this l] obtain ps where ps: "concat ps = net_content t" "net_ending t = EOF"
      "sends (fw_conn (up_fw u2)) (fw_conn (up_fw u'))
        (data_bytes (fw_id (up_fw u)) (concat (map chunks (z_run Z (up_z u2) ps)))
          @ encode_frame (fin_frame (fw_id (up_fw u))))"
      "up_raw u' = add_count (length (net_content t)) (up_raw u2)"
      "fw_bytes (up_fw u') = add_count (length (concat (z_run Z (up_z u2) ps))) (fw_bytes (up_fw u2))"
      unfolding u2 by blast
    have "z_run Z (up_z u) (b # ps) = (o1 @ o2) @ z_run Z (up_z u2) ps" by (simp add: z)
    then show ?thesis
      using sends_append [OF s ps(3)] ps u2 c
      by (intro exI [of _ "b # ps"]) (simp add: z add.assoc)
  qed
qed

end

subsection \<open>The receiving side\<close>

text \<open>
  \<open>has_stream\<close>: the reader is about to deliver the compressed bytes \<open>s\<close> and then FIN, and \<open>rest\<close> is
  what the tunnel holds after the FIN frame. \<open>cont\<close> gives the bytes a tunnel has still to deliver.
\<close>

definition has_stream :: "('s \<Rightarrow> bytes) \<Rightarrow> 's frame_reader \<Rightarrow> bytes \<Rightarrow> bytes \<Rightarrow> bool" where
  "has_stream cont r s rest \<longleftrightarrow>
     (if fr_fin r then s = fr_pending r \<and> cont (fr_conn r) = rest
      else \<exists>ds. (\<forall>d \<in> set ds. piece_ok d) \<and> s = fr_pending r @ concat ds
        \<and> cont (fr_conn r) = data_bytes (fr_id r) ds @ encode_frame (fin_frame (fr_id r)) @ rest)"

context byte_reader
begin

lemma read_frame_encoded:
  assumes "content s = encode_frame f @ rest" and "frame_ok f"
  obtains s' where "read_frame rd s = Some (s', Inr f)" and "content s' = rest" and "ending s' = ending s"
  using read_frame_parse [of s] assms by (auto simp: parse_encode_frame)

lemma frame_read_stream:
  assumes h: "has_stream content r s rest" and n: "0 < n"
  shows "\<exists>r'. fr_id r' = fr_id r \<and>
    (if s = [] then frame_read rd r n = Some (r', [], Some EOF) \<and> has_stream content r' [] rest
       \<and> fr_bytes r' = fr_bytes r
     else \<exists>k. 1 \<le> k \<and> k \<le> n \<and> k \<le> length s \<and> frame_read rd r n = Some (r', take k s, None)
       \<and> has_stream content r' (drop k s) rest
       \<and> (\<exists>m. fr_bytes r' = add_count m (fr_bytes r) \<and> m + length (fr_pending r) = k + length (fr_pending r')))"
proof (cases "fr_pending r")
  case (Cons x xs)
  let ?k = "min n (length (fr_pending r))"
  obtain q where q: "s = fr_pending r @ q" using h by (auto simp: has_stream_def split: if_splits)
  have s: "take ?k s = take n (fr_pending r)" "?k \<le> length s"
    "drop ?k s = drop n (fr_pending r) @ drop (length (fr_pending r)) s"
    by (auto simp: q min_def)
  have ne: "s \<noteq> []" using Cons by (simp add: q)
  have "frame_read rd r n = Some (fr_deliver r n)" using n Cons by (simp add: frame_read_def)
  moreover have "has_stream content (r\<lparr>fr_pending := drop n (fr_pending r)\<rparr>) (drop ?k s) rest"
    using h s(3) by (auto simp: has_stream_def split: if_splits)
  moreover have "1 \<le> ?k" using n Cons by simp
  moreover have "\<exists>m. fr_bytes r = add_count m (fr_bytes r)
      \<and> m + length (fr_pending r) = ?k + length (drop n (fr_pending r))"
    by (rule exI [of _ 0]) simp
  ultimately have "\<exists>k. 1 \<le> k \<and> k \<le> n \<and> k \<le> length s
      \<and> frame_read rd r n = Some (r\<lparr>fr_pending := drop n (fr_pending r)\<rparr>, take k s, None)
      \<and> has_stream content (r\<lparr>fr_pending := drop n (fr_pending r)\<rparr>) (drop k s) rest
      \<and> (\<exists>m. fr_bytes r = add_count m (fr_bytes r)
        \<and> m + length (fr_pending r) = k + length (drop n (fr_pending r)))"
    using s(1,2) by (intro exI [of _ ?k]) (simp add: fr_deliver_def)
  then show ?thesis
    using ne by (intro exI [of _ "r\<lparr>fr_pending := drop n (fr_pending r)\<rparr>"]) simp
next
  case Nil
  show ?thesis
  proof (cases "fr_fin r")
    case True
    then show ?thesis using h n Nil by (auto simp: has_stream_def frame_read_def)
  next
    case False
    then obtain ds where ds: "\<forall>d \<in> set ds. piece_ok d" "s = concat ds"
      "content (fr_conn r) = data_bytes (fr_id r) ds @ encode_frame (fin_frame (fr_id r)) @ rest"
      using h Nil by (auto simp: has_stream_def)
    show ?thesis
    proof (cases ds)
      case Nil2: Nil
      then have "content (fr_conn r) = encode_frame (fin_frame (fr_id r)) @ rest" using ds(3) by simp
      then obtain s' where "read_frame rd (fr_conn r) = Some (s', Inr (fin_frame (fr_id r)))" "content s' = rest"
        using read_frame_encoded fin_frame_ok by metis
      then show ?thesis
        using False Nil Nil2 ds n
        by (intro exI [of _ "r\<lparr>fr_conn := s', fr_fin := True\<rparr>"])
          (auto simp: frame_read_def Let_def fin_frame_def has_stream_def)
    next
      case (Cons d ds')
      then have d: "piece_ok d" "\<forall>d \<in> set ds'. piece_ok d" using ds(1) by auto
      have "content (fr_conn r) = encode_frame (data_frame (fr_id r) d)
          @ (data_bytes (fr_id r) ds' @ encode_frame (fin_frame (fr_id r)) @ rest)"
        using ds(3) Cons by (simp add: data_bytes_def)
      then obtain s' where rf: "read_frame rd (fr_conn r) = Some (s', Inr (data_frame (fr_id r) d))"
        "content s' = data_bytes (fr_id r) ds' @ encode_frame (fin_frame (fr_id r)) @ rest"
        using read_frame_encoded [OF _ data_frame_ok [OF d(1)]] by metis
      let ?k = "min n (length d)"
      let ?r = "r\<lparr>fr_conn := s', fr_bytes := add_count (length d) (fr_bytes r), fr_pending := drop n d\<rparr>"
      have "frame_read rd r n = Some (?r, take n d, None)"
        using rf(1) n Nil False
        by (simp add: frame_read_def Let_def data_frame_def fr_deliver_def)
      moreover have "s \<noteq> []" "take ?k s = take n d" "?k \<le> length s" "1 \<le> ?k"
        "drop ?k s = drop n d @ concat ds'"
        using ds(2) Cons d(1) n by (auto simp: piece_ok_def min_def Suc_le_eq)
      moreover from this have "has_stream content ?r (drop ?k s) rest"
        using rf(2) d(2) False by (auto simp: has_stream_def)
      moreover have "\<exists>m. fr_bytes ?r = add_count m (fr_bytes r)
          \<and> m + length (fr_pending r) = ?k + length (fr_pending ?r)"
        using Nil by (intro exI [of _ "length d"]) simp
      ultimately have "s \<noteq> []" "\<exists>k. 1 \<le> k \<and> k \<le> n \<and> k \<le> length s
          \<and> frame_read rd r n = Some (?r, take k s, None) \<and> has_stream content ?r (drop k s) rest
          \<and> (\<exists>m. fr_bytes ?r = add_count m (fr_bytes r)
            \<and> m + length (fr_pending r) = k + length (fr_pending ?r))"
        by - (assumption, rule exI [of _ ?k], simp)
      then show ?thesis by (intro exI [of _ ?r]) simp
    qed
  qed
qed

lemma finish_stream:
  assumes h: "has_stream content r [] rest"
  shows "\<exists>r'. finish rd r = Some (r', None) \<and> content (fr_conn r') = rest \<and> fr_bytes r' = fr_bytes r"
proof (cases "fr_fin r")
  case True
  then show ?thesis using h by (auto simp: has_stream_def finish_def)
next
  case False
  then obtain ds where ds: "\<forall>d \<in> set ds. piece_ok d" "concat ds = []" "fr_pending r = []"
    "content (fr_conn r) = data_bytes (fr_id r) ds @ encode_frame (fin_frame (fr_id r)) @ rest"
    using h by (auto simp: has_stream_def)
  then have "ds = []" by (cases ds) (auto simp: piece_ok_def)
  with ds(4) have "content (fr_conn r) = encode_frame (fin_frame (fr_id r)) @ rest" by simp
  then obtain s' where "read_frame rd (fr_conn r) = Some (s', Inr (fin_frame (fr_id r)))" "content s' = rest"
    using read_frame_encoded fin_frame_ok by metis
  then show ?thesis using False ds(3) by (simp add: finish_def fin_frame_def)
qed

end

text \<open>
  \<open>zok D d s p\<close>: from state \<open>d\<close>, given the compressed bytes \<open>s\<close> in reads of any sizes and then the
  end of the stream, the decoder puts out \<open>p\<close> and stops without error, having taken all of \<open>s\<close>.
\<close>

inductive zok :: "'d decoder \<Rightarrow> 'd \<Rightarrow> bytes \<Rightarrow> bytes \<Rightarrow> bool" for D :: "'d decoder" where
  zok_done: "zd_step D d = (d', ZDone) \<Longrightarrow> zok D d [] []"
| zok_out: "zd_step D d = (d', Out b) \<Longrightarrow> zok D d' s p \<Longrightarrow> zok D d s (b @ p)"
| zok_pull: "zd_step D d = (d', Pull n) \<Longrightarrow> 0 < n \<Longrightarrow> s \<noteq> [] \<Longrightarrow>
    (\<And>k. 1 \<le> k \<Longrightarrow> k \<le> n \<Longrightarrow> k \<le> length s \<Longrightarrow> zok D (zd_feed D d' (take k s) None) (drop k s) p) \<Longrightarrow>
    zok D d s p"
| zok_eof: "zd_step D d = (d', Pull n) \<Longrightarrow> 0 < n \<Longrightarrow> zok D (zd_feed D d' [] (Some EOF)) [] p \<Longrightarrow>
    zok D d [] p"

text \<open>A socket that takes everything.\<close>

definition clean :: "deadline_writer \<Rightarrow> bool" where
  "clean w \<longleftrightarrow> tx_plan (dw_conn w) = [] \<and> \<not> shut (dw_conn w)"

lemma deadline_write_clean:
  "clean w \<Longrightarrow> deadline_write (\<lambda>_. None) w b =
    (w\<lparr>dw_conn := (dw_conn w)\<lparr>tx := tx (dw_conn w) @ b\<rparr>, dw_bytes := add_count (length b) (dw_bytes w)\<rparr>,
     length b, None)"
  by (simp add: deadline_write_def clean_def net_write_def)

context byte_reader
begin

lemma copy_loop_stream:
  assumes "zok D d s p" and "dn_d u = d" and "has_stream content (dn_fr u) s rest" and "clean (dn_dw u)"
  shows "\<exists>u'. copy_loop rd (\<lambda>_. None) D u = Some (u', None)
    \<and> has_stream content (dn_fr u') [] rest
    \<and> tx (dw_conn (dn_dw u')) = tx (dw_conn (dn_dw u)) @ p
    \<and> dw_bytes (dn_dw u') = add_count (length p) (dw_bytes (dn_dw u))
    \<and> (\<exists>m. fr_bytes (dn_fr u') = add_count m (fr_bytes (dn_fr u))
         \<and> m + length (fr_pending (dn_fr u)) = length s)"
  using assms
proof (induction arbitrary: u rule: zok.induct)
  case (zok_done d d')
  then have "fr_pending (dn_fr u) = []" by (auto simp: has_stream_def split: if_splits)
  with zok_done show ?case
    by (subst copy_loop.simps) (auto intro: exI [of _ 0])
next
  case (zok_out d d' b s p)
  show ?case
  proof (cases "b = []")
    case True
    let ?u = "u\<lparr>dn_d := d'\<rparr>"
    have "copy_loop rd (\<lambda>_. None) D u = copy_loop rd (\<lambda>_. None) D ?u"
      using zok_out.hyps(1) zok_out.prems True by (subst copy_loop.simps) simp
    with zok_out.IH [of ?u] zok_out.prems True show ?thesis by simp
  next
    case False
    let ?w = "(dn_dw u)\<lparr>dw_conn := (dw_conn (dn_dw u))\<lparr>tx := tx (dw_conn (dn_dw u)) @ b\<rparr>,
      dw_bytes := add_count (length b) (dw_bytes (dn_dw u))\<rparr>"
    let ?u = "u\<lparr>dn_d := d', dn_dw := ?w\<rparr>"
    have "copy_loop rd (\<lambda>_. None) D u = copy_loop rd (\<lambda>_. None) D ?u"
      using zok_out.hyps(1) zok_out.prems False
      by (subst copy_loop.simps) (simp add: deadline_write_clean)
    moreover have "clean (dn_dw ?u)" using zok_out.prems(3) by (simp add: clean_def)
    ultimately show ?thesis using zok_out.IH [of ?u] zok_out.prems by auto
  qed
next
  case (zok_pull d d' n s p)
  obtain r' k where r: "1 \<le> k" "k \<le> n" "k \<le> length s" "frame_read rd (dn_fr u) n = Some (r', take k s, None)"
    "has_stream content r' (drop k s) rest"
    and cnt: "\<exists>m. fr_bytes r' = add_count m (fr_bytes (dn_fr u))
      \<and> m + length (fr_pending (dn_fr u)) = k + length (fr_pending r')"
    using frame_read_stream [OF zok_pull.prems(2) zok_pull.hyps(2)] zok_pull.hyps(3) by auto
  let ?u = "u\<lparr>dn_fr := r', dn_d := zd_feed D d' (take k s) None\<rparr>"
  have "copy_loop rd (\<lambda>_. None) D u = copy_loop rd (\<lambda>_. None) D ?u"
    using zok_pull.hyps(1) zok_pull.prems(1) r(4) by (subst copy_loop.simps) simp
  moreover obtain u' m where "copy_loop rd (\<lambda>_. None) D ?u = Some (u', None)"
    "has_stream content (dn_fr u') [] rest" "tx (dw_conn (dn_dw u')) = tx (dw_conn (dn_dw u)) @ p"
    "dw_bytes (dn_dw u') = add_count (length p) (dw_bytes (dn_dw u))"
    "fr_bytes (dn_fr u') = add_count m (fr_bytes r')" "m + length (fr_pending r') = length s - k"
    using zok_pull.IH [OF r(1-3), of ?u] r(5) zok_pull.prems(3) by auto
  moreover obtain j where "fr_bytes r' = add_count j (fr_bytes (dn_fr u))"
    "j + length (fr_pending (dn_fr u)) = k + length (fr_pending r')" using cnt by blast
  moreover from calculation r(3) have "(j + m) + length (fr_pending (dn_fr u)) = length s" by linarith
  ultimately show ?case by (intro exI [of _ u']) (auto intro: exI [of _ "j + m"])
next
  case (zok_eof d d' n p)
  obtain r' where r: "frame_read rd (dn_fr u) n = Some (r', [], Some EOF)" "has_stream content r' [] rest"
    "fr_bytes r' = fr_bytes (dn_fr u)"
    using frame_read_stream [OF zok_eof.prems(2) zok_eof.hyps(2)] by auto
  have p: "fr_pending r' = []" "fr_pending (dn_fr u) = []"
    using r(2) zok_eof.prems(2) by (auto simp: has_stream_def split: if_splits)
  let ?u = "u\<lparr>dn_fr := r', dn_d := zd_feed D d' [] (Some EOF)\<rparr>"
  have "copy_loop rd (\<lambda>_. None) D u = copy_loop rd (\<lambda>_. None) D ?u"
    using zok_eof.hyps(1) zok_eof.prems(1) r(1) by (subst copy_loop.simps) simp
  with zok_eof.IH [of ?u] r(2,3) zok_eof.prems(3) p show ?case by simp
qed

lemma down_stream:
  assumes "zok D (dn_d u) s p" and "has_stream content (dn_fr u) s rest" and "clean (dn_dw u)"
    and "fr_pending (dn_fr u) = []" and "\<And>c. closew c = None \<or> closew c = Some ENOTCONN"
  shows "\<exists>u'. down rd (\<lambda>_. None) closew D u = Some (u', None)
    \<and> content (fr_conn (dn_fr u')) = rest
    \<and> tx (dw_conn (dn_dw u')) = tx (dw_conn (dn_dw u)) @ p
    \<and> dw_bytes (dn_dw u') = add_count (length p) (dw_bytes (dn_dw u))
    \<and> fr_bytes (dn_fr u') = add_count (length s) (fr_bytes (dn_fr u))"
proof -
  obtain u1 where 1: "copy_loop rd (\<lambda>_. None) D u = Some (u1, None)" "has_stream content (dn_fr u1) [] rest"
    "tx (dw_conn (dn_dw u1)) = tx (dw_conn (dn_dw u)) @ p"
    "dw_bytes (dn_dw u1) = add_count (length p) (dw_bytes (dn_dw u))"
    "fr_bytes (dn_fr u1) = add_count (length s) (fr_bytes (dn_fr u))"
    using copy_loop_stream [OF assms(1) refl assms(2,3)] assms(4) by auto
  obtain r' where 2: "finish rd (dn_fr u1) = Some (r', None)" "content (fr_conn r') = rest"
    "fr_bytes r' = fr_bytes (dn_fr u1)"
    using finish_stream [OF 1(2)] by blast
  show ?thesis
    using 1 2 assms(5) [of "dw_conn (dn_dw u1)"]
    by (intro exI [of _ "u1\<lparr>dn_fr := r'\<rparr>"]) (auto simp: down_def)
qed

end

end
