(* ===== verification/Relay_Fin.thy ===== *)
theory Relay_Fin
  imports Relay
begin

text \<open>
  Safety of the receiving direction of a lease, for any tunnel and any decoder that does not ignore
  read errors: it ends without error only after the tunnel gave DATA frames of this lease and then
  its FIN, and it has taken nothing else.
\<close>

subsection \<open>Success only after FIN\<close>

text \<open>The frames of a lease, as the bytes of a tunnel: DATA frames of the lease, then perhaps its FIN.\<close>

definition took :: "u64 \<Rightarrow> bytes \<Rightarrow> bool \<Rightarrow> bytes \<Rightarrow> bool" where
  "took cid before fin after \<longleftrightarrow> (\<exists>fs. (\<forall>f \<in> set fs. Typ f = DATA \<and> LeaseID f = cid \<and> frame_ok f)
     \<and> before = concat (map encode_frame fs) @ (if fin then encode_frame (fin_frame cid) else []) @ after)"

lemma took_refl: "took cid s False s"
  by (auto simp: took_def intro: exI [of _ "[]"])

lemma took_data:
  assumes "took cid b False (encode_frame f @ a)" and "Typ f = DATA" "LeaseID f = cid" "frame_ok f"
  shows "took cid b False a"
proof -
  obtain fs where "\<forall>f \<in> set fs. Typ f = DATA \<and> LeaseID f = cid \<and> frame_ok f"
    "b = concat (map encode_frame fs) @ encode_frame f @ a"
    using assms(1) by (auto simp: took_def)
  with assms(2-4) show ?thesis by (auto simp: took_def intro!: exI [of _ "fs @ [f]"])
qed

lemma took_fin: "took cid b False (encode_frame (fin_frame cid) @ a) \<Longrightarrow> took cid b True a"
  by (simp add: took_def)

lemma fin_frame_only:
  assumes "frame_ok f" and "Typ f = FIN" and "LeaseID f = cid"
  shows "f = fin_frame cid"
  using assms by (cases f) (auto simp: frame_ok_def valid_def fin_frame_def split: if_splits)

text \<open>
  \<open>refuses D bad\<close>: a decoder that is told of an error other than end of stream gets into \<open>bad\<close>,
  and from there it may put out or ask for more but never reports success.
\<close>

definition refuses :: "'d decoder \<Rightarrow> ('d \<Rightarrow> bool) \<Rightarrow> bool" where
  "refuses D bad \<longleftrightarrow> (\<forall>d b e. e \<noteq> EOF \<longrightarrow> bad (zd_feed D d b (Some e)))
     \<and> (\<forall>d. bad d \<longrightarrow> (case zd_step D d of
          (d', ZDone) \<Rightarrow> False
        | (d', ZErr e) \<Rightarrow> True
        | (d', Out b) \<Rightarrow> bad d'
        | (d', Pull n) \<Rightarrow> \<forall>b e. bad (zd_feed D d' b e)))"

lemma frame_read_id: "frame_read rd r n = Some (r', b, e) \<Longrightarrow> fr_id r' = fr_id r"
  by (auto simp: frame_read_def fr_deliver_def Let_def split: if_splits option.splits sum.splits)

context byte_reader
begin

text \<open>One read of the lease stream, from a reader that has taken only frames of its lease.\<close>

lemma frame_read_took:
  assumes "frame_read rd r n = Some (r', b, e)"
    and "took (fr_id r) c0 (fr_fin r) (content (fr_conn r))"
  shows "fr_id r' = fr_id r
    \<and> (e = None \<or> e = Some EOF \<longrightarrow> took (fr_id r) c0 (fr_fin r') (content (fr_conn r')))"
proof (cases "n = 0 \<or> fr_pending r \<noteq> [] \<or> fr_fin r")
  case True
  then show ?thesis using assms by (auto simp: frame_read_def fr_deliver_def split: if_splits)
next
  case False
  obtain s x where r: "read_frame rd (fr_conn r) = Some (s, x)"
    using assms(1) False by (auto simp: frame_read_def split: option.splits)
  show ?thesis
  proof (cases x)
    case (Inl y)
    then show ?thesis using assms False r by (auto simp: frame_read_def)
  next
    case (Inr f)
    note ok = read_frame_ok [OF r [unfolded Inr]]
    then have t: "took (fr_id r) c0 False (encode_frame f @ content s)" using assms(2) False by simp
    show ?thesis
      using assms(1) False r Inr ok t took_data [OF t] took_fin fin_frame_only [of f "fr_id r"]
      by (auto simp: frame_read_def Let_def fr_deliver_def split: if_splits)
  qed
qed

lemma finish_took:
  assumes "finish rd r = Some (r', None)" and "took (fr_id r) c0 (fr_fin r) (content (fr_conn r))"
  shows "took (fr_id r) c0 True (content (fr_conn r')) \<and> fr_id r' = fr_id r"
proof (cases "fr_pending r = [] \<and> \<not> fr_fin r")
  case False
  then show ?thesis using assms by (auto simp: finish_def split: if_splits)
next
  case True
  obtain s f where f: "read_frame rd (fr_conn r) = Some (s, Inr f)" "Typ f = FIN" "LeaseID f = fr_id r"
    "r' = r\<lparr>fr_conn := s, fr_fin := True\<rparr>"
    using assms(1) True by (auto simp: finish_def split: option.splits sum.splits if_splits)
  have "took (fr_id r) c0 False (encode_frame (fin_frame (fr_id r)) @ content s)"
    using read_frame_ok [OF f(1)] fin_frame_only [of f "fr_id r"] f(2,3) assms(2) True by auto
  then show ?thesis using took_fin f(4) by simp
qed

lemma copy_loop_took:
  assumes "copy_loop rd setdl D u = Some y" and "refuses D bad"
    and "bad (dn_d u) \<or> took (fr_id (dn_fr u)) c0 (fr_fin (dn_fr u)) (content (fr_conn (dn_fr u)))"
  shows "fr_id (dn_fr (fst y)) = fr_id (dn_fr u)
    \<and> (snd y = None \<longrightarrow> took (fr_id (dn_fr u)) c0 (fr_fin (dn_fr (fst y))) (content (fr_conn (dn_fr (fst y)))))"
proof -
  let ?I = "\<lambda>u. bad (dn_d u) \<or> took (fr_id (dn_fr u)) c0 (fr_fin (dn_fr u)) (content (fr_conn (dn_fr u)))"
  let ?P = "\<lambda>rd' (sd :: net_conn \<Rightarrow> error option) D' u y. rd' = rd \<longrightarrow> D' = D \<longrightarrow> ?I u \<longrightarrow>
    fr_id (dn_fr (fst y)) = fr_id (dn_fr u)
    \<and> (snd y = None \<longrightarrow> took (fr_id (dn_fr u)) c0 (fr_fin (dn_fr (fst y))) (content (fr_conn (dn_fr (fst y)))))"
  have "?P rd setdl D u y"
  proof (rule copy_loop.raw_induct [where P = ?P, OF _ assms(1)], intro impI)
    fix loop rd' sd D' u y
    assume IH: "\<And>rd' sd D' u y. loop rd' sd D' u = Some y \<Longrightarrow> ?P rd' sd D' u y"
      and rd': "rd' = rd" and D': "D' = D" and I: "?I u"
      and run: "(case zd_step D' (dn_d u) of
          (d, ZDone) \<Rightarrow> Some (u\<lparr>dn_d := d\<rparr>, None)
        | (d, ZErr e) \<Rightarrow> Some (u\<lparr>dn_d := d\<rparr>, Some e)
        | (d, Out b) \<Rightarrow>
            (if b = [] then loop rd' sd D' (u\<lparr>dn_d := d\<rparr>)
             else case deadline_write sd (dn_dw u) b of
                    (w, n, Some e) \<Rightarrow> Some (u\<lparr>dn_d := d, dn_dw := w\<rparr>, Some e)
                  | (w, n, None) \<Rightarrow> loop rd' sd D' (u\<lparr>dn_d := d, dn_dw := w\<rparr>))
        | (d, Pull n) \<Rightarrow>
            (case frame_read rd' (dn_fr u) n of
               None \<Rightarrow> None
             | Some (r, b, e) \<Rightarrow> loop rd' sd D' (u\<lparr>dn_fr := r, dn_d := zd_feed D' d b e\<rparr>))) = Some y"
    obtain d a where st: "zd_step D (dn_d u) = (d, a)" by (cases "zd_step D (dn_d u)")
    have bad: "case a of ZDone \<Rightarrow> False | ZErr e \<Rightarrow> True | Out b \<Rightarrow> bad d
        | Pull n \<Rightarrow> \<forall>b e. bad (zd_feed D d b e)" if "bad (dn_d u)"
      using assms(2) that st by (auto simp: refuses_def split: zd_act.splits)
    show "fr_id (dn_fr (fst y)) = fr_id (dn_fr u)
      \<and> (snd y = None \<longrightarrow> took (fr_id (dn_fr u)) c0 (fr_fin (dn_fr (fst y))) (content (fr_conn (dn_fr (fst y)))))"
    proof (cases a)
      case ZDone
      then show ?thesis using run rd' D' st I bad by auto
    next
      case (ZErr e)
      then show ?thesis using run rd' D' st by auto
    next
      case (Out b)
      show ?thesis
      proof (cases "b = []")
        case True
        then have "loop rd sd D (u\<lparr>dn_d := d\<rparr>) = Some y" using run rd' D' st Out by simp
        from IH [OF this] I bad Out show ?thesis by auto
      next
        case False
        obtain w n x where w: "deadline_write sd (dn_dw u) b = (w, n, x)"
          by (cases "deadline_write sd (dn_dw u) b") auto
        show ?thesis
        proof (cases x)
          case None
          then have "loop rd sd D (u\<lparr>dn_d := d, dn_dw := w\<rparr>) = Some y"
            using run rd' D' st Out False w by simp
          from IH [OF this] I bad Out show ?thesis by auto
        next
          case (Some e)
          then have "y = (u\<lparr>dn_d := d, dn_dw := w\<rparr>, Some e)" using run rd' D' st Out False w by simp
          then show ?thesis by simp
        qed
      qed
    next
      case (Pull n)
      obtain r b e where fr: "frame_read rd (dn_fr u) n = Some (r, b, e)"
        and l: "loop rd sd D (u\<lparr>dn_fr := r, dn_d := zd_feed D d b e\<rparr>) = Some y"
        using run rd' D' st Pull by (auto split: option.splits)
      have id: "fr_id r = fr_id (dn_fr u)" by (rule frame_read_id [OF fr])
      have "?I (u\<lparr>dn_fr := r, dn_d := zd_feed D d b e\<rparr>)"
        using I
      proof
        assume "bad (dn_d u)"
        then show ?thesis using bad Pull by simp
      next
        assume t: "took (fr_id (dn_fr u)) c0 (fr_fin (dn_fr u)) (content (fr_conn (dn_fr u)))"
        show ?thesis
        proof (cases "e = None \<or> e = Some EOF")
          case True
          then show ?thesis using frame_read_took [OF fr t] by simp
        next
          case False
          then show ?thesis using assms(2) by (auto simp: refuses_def)
        qed
      qed
      then show ?thesis using IH [OF l] id by auto
    qed
  qed
  then show ?thesis using assms(3) by simp
qed

text \<open>A direction that ends without error has taken exactly the frames of its lease, FIN included.\<close>

lemma down_took:
  assumes "down rd setdl closew D (run_down b cid tcp c3 c4 d0) = Some (v, None)" and "refuses D bad"
  shows "took cid (content b) True (content (fr_conn (dn_fr v)))"
proof -
  let ?u = "run_down b cid tcp c3 c4 d0"
  obtain u1 r' where 1: "copy_loop rd setdl D ?u = Some (u1, None)"
    "finish rd (dn_fr u1) = Some (r', None)" "dn_fr v = r'"
    using assms(1) by (auto simp: down_def split: option.splits if_splits)
  have "took (fr_id (dn_fr ?u)) (content b) (fr_fin (dn_fr ?u)) (content (fr_conn (dn_fr ?u)))"
    by (simp add: run_down_def took_refl)
  from copy_loop_took [OF 1(1) assms(2) disjI2 [OF this]]
  have "fr_id (dn_fr u1) = cid" "took cid (content b) (fr_fin (dn_fr u1)) (content (fr_conn (dn_fr u1)))"
    by (simp_all add: run_down_def)
  then show ?thesis using finish_took [OF 1(2)] 1(3) by auto
qed

end

end
