(* ===== verification/Relay_Props.thy ===== *)
theory Relay_Props
  imports Relay_Fin Noise_Props
begin

text \<open>
  Properties of the relay: what one side reads from its local socket is what the other side writes
  to its own, through compression, framing and encryption, with matching counters; a lease never
  gets bytes of another; and what \<open>Run\<close> reports.
\<close>

subsection \<open>A concrete codec\<close>

text \<open>
  The encoder writes through; the decoder pulls three bytes at a time. Its state is what it has to
  put out and how its input ended.
\<close>

definition demo_enc :: "unit encoder" where
  "demo_enc = \<lparr>ze_write = (\<lambda>z p. (z, [p])), ze_flush = (\<lambda>z. (z, [])), ze_close = (\<lambda>z. (z, []))\<rparr>"

definition demo_dec :: "(bytes \<times> error option) decoder" where
  "demo_dec = \<lparr>zd_step = (\<lambda>(b, fin). if b \<noteq> [] then (([], fin), Out b)
       else case fin of None \<Rightarrow> (([], fin), Pull 3)
         | Some e \<Rightarrow> (([], fin), if e = EOF then ZDone else ZErr e)),
     zd_feed = (\<lambda>(b, fin) x e. (b @ x, if e = None then fin else e))\<rparr>"

text \<open>What the relay relies on of zstd: decoding the output of an encoder run gives its input.\<close>

definition codec_ok :: "'z encoder \<Rightarrow> 'z \<Rightarrow> 'd decoder \<Rightarrow> 'd \<Rightarrow> bool" where
  "codec_ok Z z0 D d0 \<longleftrightarrow> (\<forall>ps. zok D d0 (concat (z_run Z z0 ps)) (concat ps))"

lemma demo_codec: "codec_ok demo_enc () demo_dec ([], None)"
proof -
  have run: "concat (z_run demo_enc () ps) = concat ps" for ps
    by (induction ps) (auto simp: demo_enc_def)
  have stop: "zok demo_dec ([], Some EOF) [] []"
    by (rule zok_done [where d' = "([], Some EOF)"]) (simp add: demo_dec_def)
  have "zok demo_dec ([], None) s s" for s
  proof (induction "length s" arbitrary: s rule: less_induct)
    case less
    show ?case
    proof (cases "s = []")
      case True
      then show ?thesis
        using zok_eof [of demo_dec "([], None)" "([], None)" 3 "[]"] stop by (simp add: demo_dec_def)
    next
      case False
      have "zok demo_dec (zd_feed demo_dec ([], None) (take k s) None) (drop k s) s"
        if "1 \<le> k" "k \<le> 3" "k \<le> length s" for k
      proof -
        have "length (drop k s) < length s" using that by simp
        then have "zok demo_dec ([], None) (drop k s) (drop k s)" using less by blast
        moreover have "zd_step demo_dec (take k s, None) = (([], None), Out (take k s))"
          using that False by (auto simp: demo_dec_def)
        ultimately have "zok demo_dec (take k s, None) (drop k s) (take k s @ drop k s)"
          by (rule zok_out [rotated])
        then show ?thesis by (simp add: demo_dec_def)
      qed
      then show ?thesis
        using zok_pull [of demo_dec "([], None)" "([], None)" 3 s s] False
        by (simp add: demo_dec_def)
    qed
  qed
  then show ?thesis by (simp add: codec_ok_def run)
qed

lemma demo_refuses: "refuses demo_dec (\<lambda>(b, fin). \<exists>e. fin = Some e \<and> e \<noteq> EOF)"
  by (auto simp: refuses_def demo_dec_def split: option.splits)

subsection \<open>End to end\<close>

lemma chunks_concat: "concat (concat (map chunks os)) = concat os"
  by (induction os) auto

lemma has_stream_start:
  assumes "cont b = data_bytes cid (concat (map chunks os)) @ encode_frame (fin_frame cid) @ rest"
  shows "has_stream cont (dn_fr (run_down b cid tcp c3 c4 d0)) (concat os) rest"
  using assms chunks_piece_ok
  by (auto simp: has_stream_def run_down_def chunks_concat intro!: exI [of _ "concat (map chunks os)"])

text \<open>Both directions of a tunnel that is a sender at one end and a reader at the other.\<close>

lemma relay_delivers:
  assumes snd: "sender wr sends" and rdr: "byte_reader rd cont ending" and codec: "codec_ok Z z0 D d0"
    and up: "up_loop wr Z (run_up a cid tcp1 c1 c2 z0) = Some (u, None)"
    and link: "\<And>p. sends a (fw_conn (up_fw u)) p \<Longrightarrow> cont b = p @ rest"
    and cl: "tx_plan tcp2 = []" "\<not> shut tcp2" and cw: "\<And>c. closew c = None \<or> closew c = Some ENOTCONN"
  shows "\<exists>v n. down rd (\<lambda>_. None) closew D (run_down b cid tcp2 c3 c4 d0) = Some (v, None)
    \<and> tx (dw_conn (dn_dw v)) = tx tcp2 @ net_content tcp1 \<and> cont (fr_conn (dn_fr v)) = rest
    \<and> up_raw u = add_count (length (net_content tcp1)) c1
    \<and> dw_bytes (dn_dw v) = add_count (length (net_content tcp1)) c3
    \<and> fw_bytes (up_fw u) = add_count n c2 \<and> fr_bytes (dn_fr v) = add_count n c4"
proof -
  obtain ps where ps: "concat ps = net_content tcp1"
    "sends a (fw_conn (up_fw u)) (data_bytes cid (concat (map chunks (z_run Z z0 ps)))
      @ encode_frame (fin_frame cid))"
    "up_raw u = add_count (length (net_content tcp1)) c1"
    "fw_bytes (up_fw u) = add_count (length (concat (z_run Z z0 ps))) c2"
    using sender.up_loop_sends [OF snd up] by (auto simp: run_up_def)
  have "cont b = data_bytes cid (concat (map chunks (z_run Z z0 ps))) @ encode_frame (fin_frame cid) @ rest"
    using link [OF ps(2)] by simp
  note h = has_stream_start [of cont, OF this, of tcp2 c3 c4 d0]
  have z: "zok D (dn_d (run_down b cid tcp2 c3 c4 d0)) (concat (z_run Z z0 ps)) (net_content tcp1)"
    using codec by (simp add: codec_ok_def run_down_def flip: ps(1))
  have cln: "clean (dn_dw (run_down b cid tcp2 c3 c4 d0))" using cl by (simp add: clean_def run_down_def)
  have pend: "fr_pending (dn_fr (run_down b cid tcp2 c3 c4 d0)) = []" by (simp add: run_down_def)
  obtain v where v: "down rd (\<lambda>_. None) closew D (run_down b cid tcp2 c3 c4 d0) = Some (v, None)"
    "cont (fr_conn (dn_fr v)) = rest"
    "tx (dw_conn (dn_dw v)) = tx tcp2 @ net_content tcp1"
    "dw_bytes (dn_dw v) = add_count (length (net_content tcp1)) c3"
    "fr_bytes (dn_fr v) = add_count (length (concat (z_run Z z0 ps))) c4"
    using byte_reader.down_stream [where closew = closew, OF rdr z h cln pend cw]
    by (auto simp: run_down_def)
  then show ?thesis using ps(3,4) by blast
qed

text \<open>
  A lease delivers its bytes end to end. If the goroutine that reads the local socket finishes
  without error, the goroutine on the other side of the tunnel returns without error and has
  written to its own socket exactly the bytes read, whatever the sizes of reads, segments and
  pieces; it leaves in the tunnel exactly what follows the FIN frame, for the next lease; and the
  raw and compressed counters of the two sides advance by the same amounts.
\<close>

theorem relay_end_to_end:
  assumes "codec_ok Z z0 D d0"
    and "up_loop net_write Z (run_up a cid tcp1 c1 c2 z0) = Some (u, None)" and "tx a = []"
    and "net_content b = tx (fw_conn (up_fw u)) @ rest"
    and "tx_plan tcp2 = []" and "\<not> shut tcp2" and "\<And>c. closew c = None \<or> closew c = Some ENOTCONN"
  shows "\<exists>v n. down net_read (\<lambda>_. None) closew D (run_down b cid tcp2 c3 c4 d0) = Some (v, None)
    \<and> tx (dw_conn (dn_dw v)) = tx tcp2 @ net_content tcp1 \<and> net_content (fr_conn (dn_fr v)) = rest
    \<and> up_raw u = add_count (length (net_content tcp1)) c1
    \<and> dw_bytes (dn_dw v) = add_count (length (net_content tcp1)) c3
    \<and> fw_bytes (up_fw u) = add_count n c2 \<and> fr_bytes (dn_fr v) = add_count n c4"
  by (rule relay_delivers [OF net_wr.sends.sender_axioms net_rd.byte_reader_axioms assms(1,2) _ assms(5,6,7)])
    (use assms(3,4) in simp)

text \<open>
  C9. The same over Noise: with a lossless codec and an AEAD cipher in synchronised states, a lease
  whose reading side finishes without error is delivered completely and in order to the local
  socket of the peer.
\<close>

theorem relay_over_noise:
  assumes "codec_ok Z z0 D d0" and "aead encr decr sync" and "sync (send_key a) (recv_key b)"
    and "up_loop (noise_write encr) Z (run_up a cid tcp1 c1 c2 z0) = Some (u, None)" and "tx (raw a) = []"
    and "net_content (raw b) = tx (raw (fw_conn (up_fw u)))" and "leftover b = []"
    and "tx_plan tcp2 = []" and "\<not> shut tcp2" and "\<And>c. closew c = None \<or> closew c = Some ENOTCONN"
  shows "\<exists>v. down (noise_reader decr) (\<lambda>_. None) closew D (run_down b cid tcp2 c3 c4 d0) = Some (v, None)
    \<and> tx (dw_conn (dn_dw v)) = tx tcp2 @ net_content tcp1"
proof -
  have rd: "byte_reader (noise_reader decr) (noise_content decr) (noise_ending decr)"
    using assms(2) noise_is_reader by (auto simp: aead_def)
  have link: "noise_content decr b = p @ []" if c: "carries decr sync a (fw_conn (up_fw u)) p" for p
  proof -
    have "net_content (raw b) = tx (raw (fw_conn (up_fw u))) @ []" using assms(6) by simp
    from carries_content [OF c assms(5,3) this assms(7)] show ?thesis by (auto simp: plain_stream_Inl)
  qed
  from relay_delivers [where closew = closew,
    OF noise_is_sender [OF assms(2)] rd assms(1,4) link assms(8,9,10)]
  show ?thesis by blast
qed

text \<open>
  C11. A lease only ever gets its own bytes. Reading with nothing pending takes one frame off the
  tunnel: bytes come back only from a DATA frame that carries this lease's ID, end of stream only
  from its FIN; a frame of another lease, any other frame, and a tunnel that ends before FIN are
  errors that deliver nothing. \<open>finish\<close> accepts only the lease's FIN.
\<close>

theorem lease_isolation:
  assumes "fr_pending r = []" and "\<not> fr_fin r"
  shows "\<exists>s. case parse_frame (net_ending (fr_conn r)) (net_content (fr_conn r)) of
      Inl x \<Rightarrow> frame_read net_read r (Suc n) = Some (r\<lparr>fr_conn := s\<rparr>, [], Some (Wrap ''missing FIN: '' x))
        \<and> finish net_read r = Some (r\<lparr>fr_conn := s\<rparr>, Some x)
    | Inr (f, rest) \<Rightarrow> net_content s = rest
        \<and> (\<exists>r'. frame_read net_read r (Suc n) = Some (r',
              if LeaseID f = fr_id r \<and> Typ f = DATA then take (Suc n) (Payload f) else [],
              if LeaseID f \<noteq> fr_id r then Some (Errmsg ''wrong lease id'')
              else if Typ f = DATA then None
              else if Typ f = FIN then Some EOF
              else Some (Errmsg ''unexpected relay frame''))
            \<and> fr_conn r' = s \<and> (fr_fin r' \<longleftrightarrow> LeaseID f = fr_id r \<and> Typ f = FIN)
            \<and> fr_pending r' = (if LeaseID f = fr_id r \<and> Typ f = DATA then drop (Suc n) (Payload f) else []))
        \<and> finish net_read r = (if Typ f = FIN \<and> LeaseID f = fr_id r
            then Some (r\<lparr>fr_conn := s, fr_fin := True\<rparr>, None)
            else Some (r\<lparr>fr_conn := s\<rparr>, Some (Errmsg ''expected FIN after compressed frame'')))"
proof (cases "parse_frame (net_ending (fr_conn r)) (net_content (fr_conn r))")
  case (Inl x)
  then obtain s where "read_frame net_read (fr_conn r) = Some (s, Inl x)"
    using net_rd.read_frame_parse [of "fr_conn r"] by auto
  with assms Inl show ?thesis by (auto simp: frame_read_def finish_def)
next
  case (Inr a)
  obtain f rest where a: "a = (f, rest)" by (cases a)
  obtain s where "read_frame net_read (fr_conn r) = Some (s, Inr f)" "net_content s = rest"
    using net_rd.read_frame_parse [of "fr_conn r"] Inr a by auto
  with assms Inr a show ?thesis
    by (intro exI [of _ s]) (auto simp: frame_read_def finish_def Let_def fr_deliver_def)
qed

text \<open>
  C8. Both sides of a lease at once. If both sending goroutines finish without error, and each side
  reads from the tunnel what the other wrote, then \<open>Run\<close> returns nil on both sides without an abort
  and keeps its codec, whichever goroutine reports first, and each local socket has got exactly the
  bytes of the other one.
\<close>

theorem Run_exchange:
  assumes "codec_ok Z z0 D d0"
    and "up_loop net_write Z (run_up a cid tcp1 c1 c2 z0) = Some (u1, None)"
    and "up_loop net_write Z (run_up b cid tcp2 c3 c4 z0) = Some (u2, None)"
    and "tx a = []" and "tx b = []"
    and "net_content b = tx (fw_conn (up_fw u1))" and "net_content a = tx (fw_conn (up_fw u2))"
    and "tx_plan tcp1 = []" and "\<not> shut tcp1" and "tx_plan tcp2 = []" and "\<not> shut tcp2"
    and "\<And>c. closew c = None \<or> closew c = Some ENOTCONN"
  shows "\<exists>v1 v2.
      Run net_write net_read Z D (\<lambda>_. None) closew None None None first1
        (run_up a cid tcp1 c1 c2 z0) (run_down a cid tcp1 c5 c6 d0) = Some (u1, v1, 0, False, None)
    \<and> Run net_write net_read Z D (\<lambda>_. None) closew None None None first2
        (run_up b cid tcp2 c3 c4 z0) (run_down b cid tcp2 c7 c8 d0) = Some (u2, v2, 0, False, None)
    \<and> tx (dw_conn (dn_dw v1)) = tx tcp1 @ net_content tcp2
    \<and> tx (dw_conn (dn_dw v2)) = tx tcp2 @ net_content tcp1"
proof -
  note net = net_wr.sends.sender_axioms net_rd.byte_reader_axioms assms(1)
  have l1: "net_content b = p @ []" if "tx (fw_conn (up_fw u1)) = tx a @ p" for p
    using that assms(4,6) by simp
  have l2: "net_content a = p @ []" if "tx (fw_conn (up_fw u2)) = tx b @ p" for p
    using that assms(5,7) by simp
  obtain v2 where "down net_read (\<lambda>_. None) closew D (run_down b cid tcp2 c7 c8 d0) = Some (v2, None)"
    "tx (dw_conn (dn_dw v2)) = tx tcp2 @ net_content tcp1"
    using relay_delivers [where closew = closew, OF net assms(2) l1 assms(10,11,12)] by blast
  moreover obtain v1 where "down net_read (\<lambda>_. None) closew D (run_down a cid tcp1 c5 c6 d0) = Some (v1, None)"
    "tx (dw_conn (dn_dw v1)) = tx tcp1 @ net_content tcp2"
    using relay_delivers [where closew = closew, OF net assms(3) l2 assms(8,9,12)] by blast
  ultimately show ?thesis
    using assms(2,3) by (intro exI [of _ v1] exI [of _ v2]) (simp add: Run_def run_end_def)
qed

text \<open>
  C10. Success only after FIN. Whenever \<open>Run\<close> returns nil, the tunnel has given DATA frames of this
  lease, then the lease's FIN, and nothing else was taken from it: a stream that is cut off, or
  carries a frame of another lease, is never reported as a finished lease. It also means that no
  abort ran. The decoder must not turn a read error into success.
\<close>

theorem Run_needs_FIN:
  assumes "Run wr net_read Z D setdl closew init_err reset1 reset2 up_first u (run_down b cid tcp c3 c4 d0)
      = Some (u', v, aborts, dropped, None)"
    and "refuses D bad"
  shows "aborts = 0 \<and> \<not> dropped \<and> (\<exists>fs. (\<forall>f \<in> set fs. Typ f = DATA \<and> LeaseID f = cid \<and> frame_ok f)
    \<and> net_content b = concat (map encode_frame fs) @ encode_frame (fin_frame cid) @ net_content (fr_conn (dn_fr v)))"
proof -
  have d: "down net_read setdl closew D (run_down b cid tcp c3 c4 d0) = Some (v, None)"
    and "aborts = 0" "\<not> dropped"
    using assms(1) by (auto simp: Run_def run_end_def Let_def split: if_splits option.splits)
  then show ?thesis using net_rd.down_took [OF d assms(2)] by (simp add: took_def)
qed

subsection \<open>A concrete lease\<close>

definition demo_local :: net_conn where
  "demo_local = \<lparr>rx = [[1, 2], [3, 4, 5]], rx_end = EOF, tx = [], tx_plan = [], shut = False\<rparr>"

definition demo_tunnel :: net_conn where
  "demo_tunnel = \<lparr>rx = [], rx_end = EOF, tx = [], tx_plan = [], shut = False\<rparr>"

text \<open>
  \<open>takes_all wr Q\<close>: from every state with \<open>Q\<close>, the writer sends each valid frame and stays in \<open>Q\<close>.
  Over such a tunnel the sending goroutine of the demo codec never fails.
\<close>

definition takes_all :: "'s writer \<Rightarrow> ('s \<Rightarrow> bool) \<Rightarrow> bool" where
  "takes_all wr Q \<longleftrightarrow> (\<forall>s f. Q s \<longrightarrow> frame_ok f \<longrightarrow> (\<exists>s'. write_frame wr s f = (s', None) \<and> Q s'))"

lemma takes_allE:
  assumes "takes_all wr Q" and "Q s" and "frame_ok f"
  obtains s' where "write_frame wr s f = (s', None)" and "Q s'"
  using assms unfolding takes_all_def by blast

lemma net_takes_all: "takes_all net_write (\<lambda>s. tx_plan s = [] \<and> \<not> shut s)"
  by (simp add: takes_all_def write_frame_def frame_ok_def write_full_clean)

lemma noise_takes_all: "takes_all (noise_write demo_encr) (\<lambda>c. tx_plan (raw c) = [] \<and> \<not> shut (raw c))"
  unfolding takes_all_def
proof (intro allI impI)
  fix s :: "nat noise_conn" and f
  assume q: "tx_plan (raw s) = [] \<and> \<not> shut (raw s)" and f: "frame_ok f"
  have ne: "frame_header f \<noteq> []" using length_frame_header [of f] by force
  have len: "length (frame_header f) \<le> chunk" "length (Payload f) \<le> chunk"
    using frame_ok_bound [OF f] by simp_all
  have v: "valid (Typ f) (int (length (Payload f))) = None" using f by (simp add: frame_ok_def)
  let ?s1 = "s\<lparr>send_key := Suc (send_key s),
      raw := (raw s)\<lparr>tx := tx (raw s) @ packet (frame_header f @ replicate 16 (of_nat (send_key s)))\<rparr>\<rparr>"
  have w1: "write_full (noise_write demo_encr) s (frame_header f) = (?s1, None)"
    using demo_noise_write_full [of s "frame_header f"] q len(1) ne by simp
  have q1: "tx_plan (raw ?s1) = []" "\<not> shut (raw ?s1)" using q by auto
  show "\<exists>s'. write_frame (noise_write demo_encr) s f = (s', None) \<and> tx_plan (raw s') = [] \<and> \<not> shut (raw s')"
    using w1 demo_noise_write_full [OF q1 len(2)] q1 v by (auto simp: write_frame_def)
qed

lemma frame_write_clean:
  assumes wr: "takes_all wr Q"
  shows "Q (fw_conn w) \<Longrightarrow> \<exists>w'. frame_write_loop wr w p k = (w', k + length p, None) \<and> Q (fw_conn w')"
proof (induction "length p" arbitrary: w p k rule: less_induct)
  case less
  show ?case
  proof (cases "p = []")
    case True
    then show ?thesis using less.prems by (subst frame_write_loop.simps) simp
  next
    case False
    let ?n = "min (length p) 32768"
    have "frame_ok (data_frame (fw_id w) (take ?n p))"
      using False by (intro data_frame_ok) (auto simp: piece_ok_def)
    then obtain s' where s': "write_frame wr (fw_conn w) (data_frame (fw_id w) (take ?n p)) = (s', None)" "Q s'"
      using takes_allE [OF wr less.prems] by blast
    let ?w = "w\<lparr>fw_conn := s', fw_bytes := add_count ?n (fw_bytes w)\<rparr>"
    have "frame_write_loop wr w p k = frame_write_loop wr ?w (drop ?n p) (k + ?n)"
      using False s' by (subst frame_write_loop.simps) (simp add: Let_def)
    moreover have lt: "length (drop ?n p) < length p" using False by simp
    obtain w' where "frame_write_loop wr ?w (drop ?n p) (k + ?n) = (w', k + ?n + length (drop ?n p), None)"
      "Q (fw_conn w')"
      using less.hyps [OF lt, of ?w "k + ?n"] s'(2) by auto
    moreover have "k + ?n + length (drop ?n p) = k + length p" by simp
    ultimately show ?thesis by metis
  qed
qed

lemma up_loop_clean:
  assumes wr: "takes_all wr Q"
  shows "Q (fw_conn (up_fw u)) \<Longrightarrow> net_ending (up_tcp u) = EOF \<Longrightarrow> \<exists>u'. up_loop wr demo_enc u = Some (u', None)"
proof (induction "length (net_content (up_tcp u))" arbitrary: u rule: less_induct)
  case less
  obtain t b e where r: "net_read (up_tcp u) 32768 = (t, b, e)" by (cases "net_read (up_tcp u) 32768") auto
  show ?case
  proof (cases e)
    case (Some x)
    with r have "b = []" "x = EOF" using net_rd.rd_err less.prems(2) by auto
    moreover obtain s' where "write_frame wr (fw_conn (up_fw u)) (fin_frame (fw_id (up_fw u))) = (s', None)"
      using takes_allE [OF wr less.prems(1) fin_frame_ok] by blast
    ultimately show ?thesis
      using Some by (simp add: up_loop_step [OF r] up_end_def demo_enc_def fin_frame_def)
  next
    case None
    with r have c: "b \<noteq> []" "net_content (up_tcp u) = b @ net_content t" "net_ending t = net_ending (up_tcp u)"
      using net_rd.rd_ok net_rd.rd_progress by auto
    then have lt: "length (net_content t) < length (net_content (up_tcp u))" by simp
    obtain w' where w': "frame_write_loop wr (up_fw u) b 0 = (w', length b, None)" "Q (fw_conn w')"
      using frame_write_clean [OF wr less.prems(1), of b 0] by auto
    let ?u = "u\<lparr>up_tcp := t, up_raw := add_count (length b) (up_raw u), up_z := (), up_fw := w'\<rparr>"
    have "up_loop wr demo_enc u = up_loop wr demo_enc ?u"
      using c(1) w' None by (simp add: up_loop_step [OF r] up_push_def demo_enc_def frame_write_def)
    with less.hyps [of ?u] lt w' c less.prems(2) show ?thesis by simp
  qed
qed

text \<open>
  Two sides: the first relays \<open>demo_local\<close>, the second has nothing to send, so that only its FIN frame
  goes back.
\<close>

lemma up_loop_fin:
  assumes "tx_plan b = []" and "\<not> shut b"
  shows "up_loop net_write demo_enc (run_up b 7 demo_tunnel None None ())
    = Some (run_up (b\<lparr>tx := tx b @ encode_frame (fin_frame 7)\<rparr>) 7 demo_tunnel None None (), None)"
proof -
  have "net_read (up_tcp (run_up b 7 demo_tunnel None None ())) 32768 = (demo_tunnel, [], Some EOF)"
    by (simp add: run_up_def demo_tunnel_def net_read_def)
  moreover have "write_frame net_write b (fin_frame 7) = (b\<lparr>tx := tx b @ encode_frame (fin_frame 7)\<rparr>, None)"
    using assms by (simp add: write_frame_def fin_frame_def valid_def write_full_clean encode_frame_def)
  ultimately show ?thesis
    by (simp add: up_loop_step up_end_def demo_enc_def fin_frame_def run_up_def)
qed

lemma demo_sides:
  obtains u1 b where
    "up_loop net_write demo_enc (run_up (demo_tunnel\<lparr>rx := [encode_frame (fin_frame 7)]\<rparr>) 7 demo_local None None ())
      = Some (u1, None)"
    and "b = demo_tunnel\<lparr>rx := [tx (fw_conn (up_fw u1))]\<rparr>"
    and "net_content b = tx (fw_conn (up_fw u1))"
    and "up_loop net_write demo_enc (run_up b 7 demo_tunnel None None ())
      = Some (run_up (b\<lparr>tx := encode_frame (fin_frame 7)\<rparr>) 7 demo_tunnel None None (), None)"
proof -
  let ?a = "demo_tunnel\<lparr>rx := [encode_frame (fin_frame 7)]\<rparr>"
  obtain u1 where u: "up_loop net_write demo_enc (run_up ?a 7 demo_local None None ()) = Some (u1, None)"
    using up_loop_clean [OF net_takes_all, of "run_up ?a 7 demo_local None None ()"]
    by (auto simp: run_up_def demo_tunnel_def demo_local_def net_ending_def)
  show ?thesis
    using up_loop_fin [of "demo_tunnel\<lparr>rx := [tx (fw_conn (up_fw u1))]\<rparr>"]
    by (intro that [OF u refl]) (simp_all add: demo_tunnel_def net_content_def)
qed

theorem relay_end_to_end_witness:
  "\<exists>b v. down net_read (\<lambda>_. None) (\<lambda>_. Some ENOTCONN) demo_dec
      (run_down b 7 demo_tunnel (Some 0) None ([], None)) = Some (v, None)
    \<and> tx (dw_conn (dn_dw v)) = [1, 2, 3, 4, 5] \<and> dw_bytes (dn_dw v) = Some 5
    \<and> net_content (fr_conn (dn_fr v)) = [9, 9]"
proof -
  obtain u where u: "up_loop net_write demo_enc (run_up demo_tunnel 7 demo_local (Some 0) None ()) = Some (u, None)"
    using up_loop_clean [OF net_takes_all, of "run_up demo_tunnel 7 demo_local (Some 0) None ()"]
    by (auto simp: run_up_def demo_tunnel_def demo_local_def net_ending_def)
  define b where "b = demo_tunnel\<lparr>rx := [tx (fw_conn (up_fw u)), [9, 9]]\<rparr>"
  have "net_content b = tx (fw_conn (up_fw u)) @ [9, 9]"
    by (simp add: b_def demo_tunnel_def net_content_def)
  from relay_end_to_end [OF demo_codec u _ this, of demo_tunnel "\<lambda>_. Some ENOTCONN" "Some 0" None]
  obtain v where "down net_read (\<lambda>_. None) (\<lambda>_. Some ENOTCONN) demo_dec
      (run_down b 7 demo_tunnel (Some 0) None ([], None)) = Some (v, None)"
    "tx (dw_conn (dn_dw v)) = net_content demo_local" "net_content (fr_conn (dn_fr v)) = [9, 9]"
    "dw_bytes (dn_dw v) = add_count (length (net_content demo_local)) (Some 0)"
    by (auto simp: demo_tunnel_def)
  then show ?thesis
    by (intro exI [of _ b] exI [of _ v]) (simp add: demo_local_def net_content_def add_count_def)
qed

theorem relay_over_noise_witness:
  "\<exists>b v. down (noise_reader demo_decr) (\<lambda>_. None) (\<lambda>_. None) demo_dec
      (run_down b 7 demo_tunnel None None ([], None)) = Some (v, None)
    \<and> tx (dw_conn (dn_dw v)) = [1, 2, 3, 4, 5]"
proof -
  obtain u where u: "up_loop (noise_write demo_encr) demo_enc (run_up demo_conn 7 demo_local None None ()) = Some (u, None)"
    using up_loop_clean [OF noise_takes_all, of "run_up demo_conn 7 demo_local None None ()"]
    by (auto simp: run_up_def demo_conn_def demo_local_def net_ending_def)
  define b where "b = demo_conn\<lparr>raw := (raw demo_conn)\<lparr>rx := [tx (raw (fw_conn (up_fw u)))]\<rparr>\<rparr>"
  have "net_content (raw b) = tx (raw (fw_conn (up_fw u)))" "leftover b = []"
    "send_key demo_conn = recv_key b" "tx (raw demo_conn) = []"
    by (simp_all add: b_def demo_conn_def net_content_def)
  then obtain v where "down (noise_reader demo_decr) (\<lambda>_. None) (\<lambda>_. None) demo_dec
      (run_down b 7 demo_tunnel None None ([], None)) = Some (v, None)"
    "tx (dw_conn (dn_dw v)) = tx demo_tunnel @ net_content demo_local"
    using relay_over_noise [OF demo_codec demo_aead _ u, of b demo_tunnel "\<lambda>_. None" None None]
    by (auto simp: demo_tunnel_def)
  then show ?thesis
    by (intro exI [of _ b] exI [of _ v]) (simp add: demo_tunnel_def demo_local_def net_content_def)
qed

theorem Run_exchange_witness:
  "\<exists>b u v. Run net_write net_read demo_enc demo_dec (\<lambda>_. None) (\<lambda>_. None) None None None False
      (run_up b 7 demo_tunnel None None ()) (run_down b 7 demo_tunnel None None ([], None))
      = Some (u, v, 0, False, None)
    \<and> tx (dw_conn (dn_dw v)) = [1, 2, 3, 4, 5]"
proof -
  obtain u1 b where
    u1: "up_loop net_write demo_enc (run_up (demo_tunnel\<lparr>rx := [encode_frame (fin_frame 7)]\<rparr>) 7 demo_local None None ())
      = Some (u1, None)"
    and b: "b = demo_tunnel\<lparr>rx := [tx (fw_conn (up_fw u1))]\<rparr>" "net_content b = tx (fw_conn (up_fw u1))"
    and u2: "up_loop net_write demo_enc (run_up b 7 demo_tunnel None None ())
      = Some (run_up (b\<lparr>tx := encode_frame (fin_frame 7)\<rparr>) 7 demo_tunnel None None (), None)"
    by (rule demo_sides)
  have "net_content (demo_tunnel\<lparr>rx := [encode_frame (fin_frame 7)]\<rparr>)
      = tx (fw_conn (up_fw (run_up (b\<lparr>tx := encode_frame (fin_frame 7)\<rparr>) 7 demo_tunnel None None ())))"
    by (simp add: demo_tunnel_def net_content_def run_up_def)
  note bk = this
  have t: "tx (demo_tunnel\<lparr>rx := [encode_frame (fin_frame 7)]\<rparr>) = []" "tx b = []"
    "tx_plan demo_local = []" "\<not> shut demo_local" "tx_plan demo_tunnel = []" "\<not> shut demo_tunnel"
    by (simp_all add: b(1) demo_tunnel_def demo_local_def)
  obtain u v where "Run net_write net_read demo_enc demo_dec (\<lambda>_. None) (\<lambda>_. None) None None None False
      (run_up b 7 demo_tunnel None None ()) (run_down b 7 demo_tunnel None None ([], None))
      = Some (u, v, 0, False, None)" "tx (dw_conn (dn_dw v)) = tx demo_tunnel @ net_content demo_local"
    using Run_exchange [where closew = "\<lambda>_. None", OF demo_codec u1 u2 t(1,2) b(2) bk t(3-6)] by blast
  then show ?thesis
    by (intro exI [of _ b] exI [of _ u] exI [of _ v]) (simp add: demo_tunnel_def demo_local_def net_content_def)
qed

theorem Run_needs_FIN_witness:
  "\<exists>b u' v fs. Run net_write net_read demo_enc demo_dec (\<lambda>_. None) (\<lambda>_. None) None None None True
      (run_up b 7 demo_tunnel None None ()) (run_down b 7 demo_tunnel None None ([], None))
      = Some (u', v, 0, False, None)
    \<and> net_content b = concat (map encode_frame fs) @ encode_frame (fin_frame 7) @ net_content (fr_conn (dn_fr v))"
proof -
  obtain u1 b where
    u1: "up_loop net_write demo_enc (run_up (demo_tunnel\<lparr>rx := [encode_frame (fin_frame 7)]\<rparr>) 7 demo_local None None ())
      = Some (u1, None)"
    and b: "b = demo_tunnel\<lparr>rx := [tx (fw_conn (up_fw u1))]\<rparr>" "net_content b = tx (fw_conn (up_fw u1))"
    and u2: "up_loop net_write demo_enc (run_up b 7 demo_tunnel None None ())
      = Some (run_up (b\<lparr>tx := encode_frame (fin_frame 7)\<rparr>) 7 demo_tunnel None None (), None)"
    by (rule demo_sides)
  have l: "net_content b = p @ []" if "tx (fw_conn (up_fw u1)) = tx (demo_tunnel\<lparr>rx := [encode_frame (fin_frame 7)]\<rparr>) @ p" for p
    using that b(2) by (simp add: demo_tunnel_def)
  have t: "tx_plan demo_tunnel = []" "\<not> shut demo_tunnel" by (simp_all add: demo_tunnel_def)
  obtain v where "down net_read (\<lambda>_. None) (\<lambda>_. None) demo_dec (run_down b 7 demo_tunnel None None ([], None)) = Some (v, None)"
    using relay_delivers [where closew = "\<lambda>_. None",
        OF net_wr.sends.sender_axioms net_rd.byte_reader_axioms demo_codec u1 l t] by blast
  then have r: "Run net_write net_read demo_enc demo_dec (\<lambda>_. None) (\<lambda>_. None) None None None True
      (run_up b 7 demo_tunnel None None ()) (run_down b 7 demo_tunnel None None ([], None))
      = Some (run_up (b\<lparr>tx := encode_frame (fin_frame 7)\<rparr>) 7 demo_tunnel None None (), v, 0, False, None)"
    using u2 by (simp add: Run_def run_end_def)
  then show ?thesis using Run_needs_FIN [OF r demo_refuses] by blast
qed

theorem lease_isolation_witness:
  "\<exists>r'. frame_read net_read \<lparr>fr_conn = demo_rx, fr_id = 3, fr_pending = [], fr_fin = False, fr_bytes = None\<rparr> 1
    = Some (r', [], Some (Errmsg ''wrong lease id''))"
proof -
  have p: "parse_frame EOF (net_content demo_rx) = Inr (demo_fin, [12])" by code_simp
  then show ?thesis
    using lease_isolation [of "\<lparr>fr_conn = demo_rx, fr_id = 3, fr_pending = [], fr_fin = False, fr_bytes = None\<rparr>" 0]
    by (auto simp: net_ending_def demo_rx_def demo_fin_def)
qed

end
