(* ===== verification/Metrics.thy ===== *)
theory Metrics
  imports Pool_Props Config
begin

text \<open>
  The metrics exporter of \<^verbatim>\<open>internal/metrics/metrics.go\<close>: the counters of a service and the events
  that count, what a scrape collects, and the HTTP handler with its authentication. The Prometheus
  client library is outside: a collected metric is the list of arguments the code passes to it
  (family, kind, value before the conversion to \<^verbatim>\<open>float64\<close>, labels). Atomic counters are 64-bit words.
\<close>

subsection \<open>Labels\<close>

datatype lease_outcome = LeaseOK | LeaseDialFailed | LeaseClientClose | LeaseError

fun outcome_index :: "lease_outcome \<Rightarrow> nat" where
  "outcome_index LeaseOK = 0"
| "outcome_index LeaseDialFailed = 1"
| "outcome_index LeaseClientClose = 2"
| "outcome_index LeaseError = 3"

definition leaseOutcomes :: "string list" where
  "leaseOutcomes = [''ok'', ''dial_failed'', ''client_close'', ''error'']"

definition rejectCodes :: "string list" where
  "rejectCodes = [''incompatible_protocol'', ''authentication_failed'', ''invalid_pool'', ''shutting_down'', ''other'']"

definition closeReasons :: "string list" where
  "closeReasons = [''expired'', ''shutdown'', ''client_close'', ''error'']"

definition retireReasons :: "string list" where
  "retireReasons = [''server_close'', ''surplus'', ''error'']"

definition dispatchErrors :: "string list" where
  "dispatchErrors = [''stopped'', ''full'', ''expired'', ''canceled'']"

lemmas label_lists = leaseOutcomes_def rejectCodes_def closeReasons_def retireReasons_def dispatchErrors_def

text \<open>The loop of \<open>index\<close> over the names from position \<open>i\<close> on; \<open>n\<close> is the number of all names.\<close>

fun index_loop :: "nat \<Rightarrow> nat \<Rightarrow> string list \<Rightarrow> string \<Rightarrow> nat" where
  "index_loop n i [] v = n - 1"
| "index_loop n i (x # xs) v = (if x = v then i else index_loop n (Suc i) xs v)"

definition index :: "string list \<Rightarrow> string \<Rightarrow> nat" where
  "index names v = index_loop (length names) 0 names v"

subsection \<open>The counters of a service\<close>

record relay_counters =
  ToTunnelRaw :: u64
  ToTunnelCompressed :: u64
  FromTunnelCompressed :: u64
  FromTunnelRaw :: u64

text \<open>\<open>s_duration\<close>: what the histogram observed, or \<open>None\<close> for a nil observer.\<close>

record svc_stats =
  s_Relay :: relay_counters
  s_Opened :: u64
  s_Visitors :: u64
  s_DialFailures :: u64
  s_LocalDialFailures :: u64
  s_leases :: "u64 list"
  s_closed :: "u64 list"
  s_retired :: "u64 list"
  s_dispatch :: "u64 list"
  s_rejected :: "u64 list"
  s_duration :: "duration list option"

definition zero_stats :: svc_stats where
  "zero_stats = \<lparr>s_Relay = \<lparr>ToTunnelRaw = 0, ToTunnelCompressed = 0, FromTunnelCompressed = 0, FromTunnelRaw = 0\<rparr>,
     s_Opened = 0, s_Visitors = 0, s_DialFailures = 0, s_LocalDialFailures = 0,
     s_leases = replicate (length leaseOutcomes) 0, s_closed = replicate (length closeReasons) 0,
     s_retired = replicate (length retireReasons) 0, s_dispatch = replicate (length dispatchErrors) 0,
     s_rejected = replicate (length rejectCodes) 0, s_duration = None\<rparr>"

text \<open>\<^verbatim>\<open>a[i].Add(1)\<close> on an array; no event indexes out of range (lemma \<open>stats_ok_events\<close>).\<close>

definition bump :: "nat \<Rightarrow> u64 list \<Rightarrow> u64 list" where
  "bump i xs = xs[i := xs ! i + 1]"

definition LeaseDone :: "lease_outcome \<Rightarrow> duration \<Rightarrow> svc_stats \<Rightarrow> svc_stats" where
  "LeaseDone oc d s =
     (let s1 = s\<lparr>s_leases := bump (outcome_index oc) (s_leases s)\<rparr>
      in case s_duration s1 of None \<Rightarrow> s1 | Some ds \<Rightarrow> s1\<lparr>s_duration := Some (ds @ [d])\<rparr>)"

definition ClosedFor :: "string \<Rightarrow> svc_stats \<Rightarrow> svc_stats" where
  "ClosedFor reason s = s\<lparr>s_closed := bump (index closeReasons reason) (s_closed s)\<rparr>"

definition Retired :: "string \<Rightarrow> svc_stats \<Rightarrow> svc_stats" where
  "Retired reason s = s\<lparr>s_retired := bump (index retireReasons reason) (s_retired s)\<rparr>"

definition Rejected :: "string \<Rightarrow> svc_stats \<Rightarrow> svc_stats" where
  "Rejected code s = s\<lparr>s_rejected := bump (index rejectCodes code) (s_rejected s)\<rparr>"

definition dispatch_index :: "error \<Rightarrow> nat" where
  "dispatch_index e =
     (if errors_Is e ErrStopped then 0 else if errors_Is e ErrFull then 1
      else if errors_Is e ErrExpired then 2 else 3)"

definition DispatchFailed :: "error \<Rightarrow> svc_stats \<Rightarrow> svc_stats" where
  "DispatchFailed e s = s\<lparr>s_dispatch := bump (dispatch_index e) (s_dispatch s)\<rparr>"

subsection \<open>The exporter\<close>

record slot_counts =
  sl_Connecting :: int
  sl_Idle :: int
  sl_Busy :: int

text \<open>
  A Go map of services is the list of its entries in the order a scrape visits them. \<open>x_slots\<close> is what
  the callback returns at the scrape (\<open>None\<close> for a nil callback); a name it lacks reads as zeros.
\<close>

record exporter =
  x_role :: string
  x_services :: "(string \<times> svc_stats) list"
  x_rejected :: "u64 list"
  x_pools :: "string \<rightharpoonup> pool"
  x_slots :: "(string \<rightharpoonup> slot_counts) option"

definition newExporter ::
    "string \<Rightarrow> string list \<Rightarrow> (string \<rightharpoonup> pool) \<Rightarrow> (string \<rightharpoonup> slot_counts) option \<Rightarrow> exporter" where
  "newExporter role names pools sf =
     \<lparr>x_role = role, x_services = map (\<lambda>n. (n, zero_stats\<lparr>s_duration := Some []\<rparr>)) (remdups names),
      x_rejected = replicate (length rejectCodes) 0, x_pools = pools, x_slots = sf\<rparr>"

definition NewServer :: "string list \<Rightarrow> (string \<rightharpoonup> pool) \<Rightarrow> exporter" where
  "NewServer names pools = newExporter ''server'' names pools None"

definition NewClient :: "string list \<Rightarrow> (string \<rightharpoonup> slot_counts) \<Rightarrow> exporter" where
  "NewClient names sf = newExporter ''client'' names Map.empty (Some sf)"

text \<open>A nil exporter is \<open>None\<close>; a service that is not configured gets detached counters.\<close>

definition ServiceOf :: "exporter option \<Rightarrow> string \<Rightarrow> svc_stats" where
  "ServiceOf x name =
     (case x of
        None \<Rightarrow> zero_stats
      | Some y \<Rightarrow> (case map_of (x_services y) name of Some s \<Rightarrow> s | None \<Rightarrow> zero_stats))"

definition RejectedBy :: "string \<Rightarrow> exporter option \<Rightarrow> exporter option" where
  "RejectedBy code x = map_option (\<lambda>y. y\<lparr>x_rejected := bump (index rejectCodes code) (x_rejected y)\<rparr>) x"

subsection \<open>Families\<close>

datatype family =
    F_build | F_conns | F_opened | F_raw | F_compressed | F_leases
  | F_srvRejected | F_srvClosed | F_srvVisitors | F_srvPending | F_srvDispatch
  | F_cliDialFailures | F_cliRejected | F_cliRetired | F_cliLocalDialFailures

text \<open>Name (after the namespace) and label names; the help texts are left out.\<close>

fun newDescs :: "family \<Rightarrow> string \<times> string list" where
  "newDescs F_build = (''build_info'', [''role'', ''version'', ''go_version''])"
| "newDescs F_conns = (''tunnel_connections'', [''service'', ''state''])"
| "newDescs F_opened = (''tunnel_connections_opened_total'', [''service''])"
| "newDescs F_raw = (''relay_raw_bytes_total'', [''service'', ''direction''])"
| "newDescs F_compressed = (''relay_compressed_bytes_total'', [''service'', ''direction''])"
| "newDescs F_leases = (''leases_total'', [''service'', ''outcome''])"
| "newDescs F_srvRejected = (''server_registrations_rejected_total'', [''code''])"
| "newDescs F_srvClosed = (''server_connections_closed_total'', [''service'', ''reason''])"
| "newDescs F_srvVisitors = (''server_visitors_total'', [''service''])"
| "newDescs F_srvPending = (''server_pending_visitors'', [''service''])"
| "newDescs F_srvDispatch = (''server_dispatch_failures_total'', [''service'', ''reason''])"
| "newDescs F_cliDialFailures = (''client_dial_failures_total'', [''service''])"
| "newDescs F_cliRejected = (''client_registrations_rejected_total'', [''service'', ''code''])"
| "newDescs F_cliRetired = (''client_connections_retired_total'', [''service'', ''reason''])"
| "newDescs F_cliLocalDialFailures = (''client_local_dial_failures_total'', [''service''])"

definition Describe :: "exporter \<Rightarrow> family list" where
  "Describe x = [F_build, F_conns, F_opened, F_raw, F_compressed, F_leases]
     @ (if x_role x = ''server'' then [F_srvRejected, F_srvClosed, F_srvVisitors, F_srvPending, F_srvDispatch]
        else [F_cliDialFailures, F_cliRejected, F_cliRetired, F_cliLocalDialFailures])"

subsection \<open>A scrape\<close>

datatype kind = CounterValue | GaugeValue

record metric =
  mt_family :: family
  mt_kind :: kind
  mt_value :: int
  mt_labels :: "string list"

definition counter :: "family \<Rightarrow> u64 \<Rightarrow> string list \<Rightarrow> metric" where
  "counter f v ls = \<lparr>mt_family = f, mt_kind = CounterValue, mt_value = uint v, mt_labels = ls\<rparr>"

definition gauge :: "family \<Rightarrow> int \<Rightarrow> string list \<Rightarrow> metric" where
  "gauge f v ls = \<lparr>mt_family = f, mt_kind = GaugeValue, mt_value = v, mt_labels = ls\<rparr>"

text \<open>\<^verbatim>\<open>for i, r := range names\<close> over an array of counters.\<close>

definition counters_of :: "family \<Rightarrow> string list \<Rightarrow> string list \<Rightarrow> u64 list \<Rightarrow> metric list" where
  "counters_of f pre names xs = map (\<lambda>i. counter f (xs ! i) (pre @ [names ! i])) [0..<length names]"

definition collect_common :: "bool \<Rightarrow> string \<Rightarrow> svc_stats \<Rightarrow> metric list" where
  "collect_common client name s =
     [counter F_opened (s_Opened s) [name],
      counter F_raw (ToTunnelRaw (s_Relay s)) [name, ''to_tunnel''],
      counter F_raw (FromTunnelRaw (s_Relay s)) [name, ''from_tunnel''],
      counter F_compressed (ToTunnelCompressed (s_Relay s)) [name, ''to_tunnel''],
      counter F_compressed (FromTunnelCompressed (s_Relay s)) [name, ''from_tunnel'']]
     @ map (\<lambda>i. counter F_leases (s_leases s ! i) [name, leaseOutcomes ! i])
         (filter (\<lambda>i. \<not> (client \<and> i = outcome_index LeaseClientClose)) [0..<length leaseOutcomes])"

definition collect_server :: "string \<Rightarrow> svc_stats \<Rightarrow> pool_stats \<Rightarrow> metric list" where
  "collect_server name s st =
     [gauge F_conns (int (s_Registering st)) [name, ''registering''],
      gauge F_conns (int (s_Idle st)) [name, ''idle''],
      gauge F_conns (int (s_Leased st)) [name, ''leased''],
      gauge F_conns (int (s_Releasing st)) [name, ''releasing''],
      gauge F_conns (int (s_Checking st)) [name, ''checking''],
      gauge F_conns (int (s_Expiring st)) [name, ''expiring''],
      gauge F_srvPending (s_Pending st) [name],
      counter F_srvVisitors (s_Visitors s) [name]]
     @ counters_of F_srvClosed [name] closeReasons (s_closed s)
     @ counters_of F_srvDispatch [name] dispatchErrors (s_dispatch s)
     @ [counter F_srvDispatch (s_WaitTimeouts st) [name, ''wait_timeout''],
        counter F_srvDispatch (s_WaitCanceled st) [name, ''wait_canceled'']]"

definition collect_client :: "string \<Rightarrow> svc_stats \<Rightarrow> slot_counts \<Rightarrow> metric list" where
  "collect_client name s sl =
     [gauge F_conns (sl_Connecting sl) [name, ''connecting''],
      gauge F_conns (sl_Idle sl) [name, ''idle''],
      gauge F_conns (sl_Busy sl) [name, ''busy''],
      counter F_cliDialFailures (s_DialFailures s) [name],
      counter F_cliLocalDialFailures (s_LocalDialFailures s) [name]]
     @ counters_of F_cliRejected [name] rejectCodes (s_rejected s)
     @ counters_of F_cliRetired [name] retireReasons (s_retired s)"

text \<open>\<open>None\<close>: a service without a pool is a nil pointer that \<open>Stats\<close> would be called on.\<close>

definition collect_service :: "exporter \<Rightarrow> string \<times> svc_stats \<Rightarrow> metric list option" where
  "collect_service x ns =
     (case ns of (name, s) \<Rightarrow>
        if x_role x = ''server''
        then map_option (\<lambda>p. collect_common False name s @ collect_server name s (Stats p)) (x_pools x name)
        else Some (collect_common (x_role x = ''client'') name s
          @ collect_client name s
              (case x_slots x of
                 None \<Rightarrow> \<lparr>sl_Connecting = 0, sl_Idle = 0, sl_Busy = 0\<rparr>
               | Some m \<Rightarrow> (case m name of Some sl \<Rightarrow> sl
                   | None \<Rightarrow> \<lparr>sl_Connecting = 0, sl_Idle = 0, sl_Busy = 0\<rparr>))))"

fun collect_all :: "exporter \<Rightarrow> (string \<times> svc_stats) list \<Rightarrow> metric list option" where
  "collect_all x [] = Some []"
| "collect_all x (ns # rest) =
     (case collect_service x ns of
        None \<Rightarrow> None
      | Some ms \<Rightarrow> map_option (\<lambda>r. ms @ r) (collect_all x rest))"

text \<open>\<open>info\<close>: the version of the main module in the build information, if there is any.\<close>

definition buildVersion :: "string option \<Rightarrow> string" where
  "buildVersion info =
     (case info of
        Some v \<Rightarrow> if v \<noteq> [] then v else ''unknown''
      | None \<Rightarrow> ''unknown'')"

definition Collect_metrics :: "string option \<Rightarrow> string \<Rightarrow> exporter \<Rightarrow> metric list option" where
  "Collect_metrics info goversion x =
     map_option (\<lambda>ms. gauge F_build 1 [x_role x, buildVersion info, goversion] # ms
         @ (if x_role x = ''server'' then counters_of F_srvRejected [] rejectCodes (x_rejected x) else []))
       (collect_all x (x_services x))"

subsection \<open>The HTTP handler\<close>

text \<open>\<open>creds\<close>: what \<^verbatim>\<open>BasicAuth\<close> found in the request, if anything.\<close>

record scrape_request =
  q_creds :: "(string \<times> string) option"
  q_path :: string
  q_method :: string

datatype scrape_response = Unauthorized | NotFound | MethodNotAllowed | ServeMetrics

definition Handler :: "(string \<Rightarrow> bytes) \<Rightarrow> metrics_conf \<Rightarrow> scrape_request \<Rightarrow> scrape_response" where
  "Handler sha cfg r =
     (let (user, pass) = (case q_creds r of None \<Rightarrow> ('''', '''') | Some c \<Rightarrow> c); ok = (q_creds r \<noteq> None);
          u = sha user; p = sha pass
      in if \<not> (u = UsernameHash cfg \<and> p = PasswordHash cfg) \<or> \<not> ok then Unauthorized
         else if q_path r \<noteq> ''/metrics'' then NotFound
         else if q_method r \<noteq> ''GET'' \<and> q_method r \<noteq> ''HEAD'' then MethodNotAllowed
         else ServeMetrics)"

definition ErrHTTPServerClosed :: error where "ErrHTTPServerClosed = Errmsg ''http: Server closed''"

text \<open>\<open>e\<close>: what the HTTP server returned; \<open>stopped\<close>: whether the context was cancelled by then.\<close>

definition Serve_metrics :: "bool \<Rightarrow> error \<Rightarrow> error option" where
  "Serve_metrics stopped e = (if stopped \<or> errors_Is e ErrHTTPServerClosed then None else Some e)"

subsection \<open>Events\<close>

lemma index_loop_found: "v \<in> set xs \<Longrightarrow> \<exists>j < length xs. index_loop n i xs v = i + j \<and> xs ! j = v"
proof (induction xs arbitrary: i)
  case (Cons x xs)
  show ?case
  proof (cases "x = v")
    case False
    then obtain j where "j < length xs" "index_loop n (Suc i) xs v = Suc i + j" "xs ! j = v"
      using Cons by fastforce
    then show ?thesis using False by (intro exI [of _ "Suc j"]) simp
  qed auto
qed simp

lemma index_loop_fallback: "v \<notin> set xs \<Longrightarrow> index_loop n i xs v = n - 1"
  by (induction xs arbitrary: i) auto

text \<open>A known value is counted under its own name, an unknown one under the last.\<close>

lemma index_names:
  assumes "names \<noteq> []"
  shows "index names v < length names \<and> names ! index names v = (if v \<in> set names then v else last names)"
proof (cases "v \<in> set names")
  case True
  then show ?thesis using index_loop_found [of v names "length names" 0] by (auto simp: index_def)
next
  case False
  then show ?thesis using assms by (simp add: index_def index_loop_fallback last_conv_nth)
qed

text \<open>The arrays have the lengths they are declared with.\<close>

definition stats_ok :: "svc_stats \<Rightarrow> bool" where
  "stats_ok s \<longleftrightarrow> length (s_leases s) = length leaseOutcomes \<and> length (s_closed s) = length closeReasons
     \<and> length (s_retired s) = length retireReasons \<and> length (s_dispatch s) = length dispatchErrors
     \<and> length (s_rejected s) = length rejectCodes"

lemma stats_ok_zero: "stats_ok zero_stats" "stats_ok (zero_stats\<lparr>s_duration := d\<rparr>)"
  by (simp_all add: stats_ok_def zero_stats_def)

lemma length_bump [simp]: "length (bump i xs) = length xs"
  by (simp add: bump_def)

lemma nth_bump: "i < length xs \<Longrightarrow> j < length xs \<Longrightarrow> bump i xs ! j = xs ! j + (if i = j then 1 else 0)"
  by (simp add: bump_def nth_list_update)

lemma dispatch_index_bound: "dispatch_index e < length dispatchErrors"
  by (simp add: dispatch_index_def dispatchErrors_def)

lemma outcome_index_bound: "outcome_index oc < length leaseOutcomes"
  by (cases oc) (simp_all add: leaseOutcomes_def)

lemma stats_ok_events:
  assumes "stats_ok s"
  shows "stats_ok (LeaseDone oc d s)" "stats_ok (ClosedFor r s)" "stats_ok (Retired r s)"
    "stats_ok (Rejected r s)" "stats_ok (DispatchFailed e s)"
  using assms
  by (simp_all add: stats_ok_def LeaseDone_def ClosedFor_def Retired_def Rejected_def DispatchFailed_def Let_def
      split: option.split)

end
