(* ===== verification/Metrics_Props.thy ===== *)
theory Metrics_Props
  imports Metrics
begin

text \<open>
  Properties of the metrics exporter: a scrape never panics and is consistent, each event counts
  once, and only authenticated requests reach the metrics.
\<close>

subsection \<open>Identities of the metrics of a scrape\<close>

definition mkey :: "metric \<Rightarrow> family \<times> string list" where
  "mkey m = (mt_family m, mt_labels m)"

definition fits :: "exporter \<Rightarrow> metric \<Rightarrow> bool" where
  "fits x m \<longleftrightarrow> mt_family m \<in> set (Describe x) \<and> length (mt_labels m) = length (snd (newDescs (mt_family m)))"

lemma mkey_simps [simp]: "mkey (counter f v ls) = (f, ls)" "mkey (gauge f k ls) = (f, ls)"
  by (simp_all add: mkey_def counter_def gauge_def)

lemma fits_simps [simp]:
  "fits x (counter f v ls) = (f \<in> set (Describe x) \<and> length ls = length (snd (newDescs f)))"
  "fits x (gauge f k ls) = (f \<in> set (Describe x) \<and> length ls = length (snd (newDescs f)))"
  by (simp_all add: fits_def counter_def gauge_def)

lemmas scrape_defs = collect_common_def collect_server_def collect_client_def counters_of_def label_lists

lemma upt_small: "[0..<3] = [0, 1, 2::nat]" "[0..<4] = [0, 1, 2, 3::nat]" "[0..<5] = [0, 1, 2, 3, 4::nat]"
  by (simp_all add: upt_rec)

text \<open>The identities of one service, by role.\<close>

definition common_keys :: "bool \<Rightarrow> string \<Rightarrow> (family \<times> string list) list" where
  "common_keys client name =
     [(F_opened, [name]), (F_raw, [name, ''to_tunnel'']), (F_raw, [name, ''from_tunnel'']),
      (F_compressed, [name, ''to_tunnel'']), (F_compressed, [name, ''from_tunnel'']),
      (F_leases, [name, ''ok'']), (F_leases, [name, ''dial_failed''])]
     @ (if client then [] else [(F_leases, [name, ''client_close''])]) @ [(F_leases, [name, ''error''])]"

lemma common_keys: "map mkey (collect_common client name s) = common_keys client name"
  by (simp add: common_keys_def scrape_defs upt_small)

lemma server_keys:
  "map mkey (collect_server name s st) =
    map (\<lambda>l. (F_conns, [name, l])) [''registering'', ''idle'', ''leased'', ''releasing'', ''checking'', ''expiring'']
    @ [(F_srvPending, [name]), (F_srvVisitors, [name])]
    @ map (\<lambda>l. (F_srvClosed, [name, l])) closeReasons
    @ map (\<lambda>l. (F_srvDispatch, [name, l])) (dispatchErrors @ [''wait_timeout'', ''wait_canceled''])"
  by (simp add: scrape_defs upt_small)

lemma client_keys:
  "map mkey (collect_client name s sl) =
    map (\<lambda>l. (F_conns, [name, l])) [''connecting'', ''idle'', ''busy'']
    @ [(F_cliDialFailures, [name]), (F_cliLocalDialFailures, [name])]
    @ map (\<lambda>l. (F_cliRejected, [name, l])) rejectCodes
    @ map (\<lambda>l. (F_cliRetired, [name, l])) retireReasons"
  by (simp add: scrape_defs upt_small)

lemma server_service:
  "distinct (map mkey (collect_common False name s @ collect_server name s st))"
  "\<forall>k \<in> mkey ` set (collect_common False name s @ collect_server name s st).
     hd (snd k) = name \<and> fst k \<noteq> F_build \<and> fst k \<noteq> F_srvRejected"
  "x_role x = ''server'' \<Longrightarrow> \<forall>m \<in> set (collect_common False name s @ collect_server name s st). fits x m"
proof -
  have e: "mkey ` set ms = set (map mkey ms)" for ms by simp
  show "distinct (map mkey (collect_common False name s @ collect_server name s st))"
    unfolding map_append common_keys server_keys by (simp add: common_keys_def label_lists)
  show "\<forall>k \<in> mkey ` set (collect_common False name s @ collect_server name s st).
     hd (snd k) = name \<and> fst k \<noteq> F_build \<and> fst k \<noteq> F_srvRejected"
    unfolding e map_append common_keys server_keys by (simp add: common_keys_def label_lists)
  show "\<forall>m \<in> set (collect_common False name s @ collect_server name s st). fits x m" if "x_role x = ''server''"
    using that by (simp add: scrape_defs upt_small Describe_def)
qed

lemma client_service:
  "distinct (map mkey (collect_common b name s @ collect_client name s sl))"
  "\<forall>k \<in> mkey ` set (collect_common b name s @ collect_client name s sl).
     hd (snd k) = name \<and> fst k \<noteq> F_build \<and> fst k \<noteq> F_srvRejected"
  "x_role x \<noteq> ''server'' \<Longrightarrow> \<forall>m \<in> set (collect_common b name s @ collect_client name s sl). fits x m"
proof -
  have e: "mkey ` set ms = set (map mkey ms)" for ms by simp
  show "distinct (map mkey (collect_common b name s @ collect_client name s sl))"
    unfolding map_append common_keys client_keys by (simp add: common_keys_def label_lists)
  show "\<forall>k \<in> mkey ` set (collect_common b name s @ collect_client name s sl).
     hd (snd k) = name \<and> fst k \<noteq> F_build \<and> fst k \<noteq> F_srvRejected"
    unfolding e map_append common_keys client_keys by (simp add: common_keys_def label_lists)
  show "\<forall>m \<in> set (collect_common b name s @ collect_client name s sl). fits x m" if "x_role x \<noteq> ''server''"
    using that by (cases b) (simp_all add: scrape_defs upt_small Describe_def)
qed

lemma collect_service_ok:
  assumes "collect_service x (name, s) = Some ms"
  shows "distinct (map mkey ms)"
    and "\<forall>k \<in> mkey ` set ms. hd (snd k) = name \<and> fst k \<noteq> F_build \<and> fst k \<noteq> F_srvRejected"
    and "\<forall>m \<in> set ms. fits x m"
  using assms server_service(1,2) [of name s] server_service(3) [of x name s]
    client_service(1,2) [of _ name s] client_service(3) [of x _ name s]
  by (auto simp: collect_service_def split: if_splits)

lemma collect_all_ok:
  assumes "distinct (map fst ns)" and "collect_all x ns = Some ms"
  shows "distinct (map mkey ms) \<and> (\<forall>m \<in> set ms. fits x m)
    \<and> (\<forall>k \<in> mkey ` set ms. hd (snd k) \<in> fst ` set ns \<and> fst k \<noteq> F_build \<and> fst k \<noteq> F_srvRejected)"
  using assms
proof (induction ns arbitrary: ms)
  case (Cons n ns)
  obtain name s where n: "n = (name, s)" by (cases n)
  obtain m1 m2 where m: "collect_service x (name, s) = Some m1" "collect_all x ns = Some m2" "ms = m1 @ m2"
    using Cons.prems(2) n by (auto split: option.splits)
  note 1 = collect_service_ok [OF m(1)]
  note 2 = Cons.IH [OF _ m(2)]
  have "mkey ` set m1 \<inter> mkey ` set m2 = {}"
    using 1(2) 2 Cons.prems(1) n by fastforce
  then show ?case using 1 2 Cons.prems(1) n m(3) by auto
qed simp

lemma collect_all_returns:
  "(x_role x = ''server'' \<Longrightarrow> \<forall>n \<in> fst ` set ns. x_pools x n \<noteq> None) \<Longrightarrow> \<exists>ms. collect_all x ns = Some ms"
  by (induction ns) (auto simp: collect_service_def split: option.splits)

lemma Collect_ok:
  assumes "distinct (map fst (x_services x))"
    and "x_role x = ''server'' \<Longrightarrow> \<forall>n \<in> fst ` set (x_services x). x_pools x n \<noteq> None"
  shows "\<exists>ms. Collect_metrics info goversion x = Some ms \<and> distinct (map mkey ms) \<and> (\<forall>m \<in> set ms. fits x m)"
proof -
  obtain ms where ms: "collect_all x (x_services x) = Some ms"
    using collect_all_returns assms(2) by blast
  let ?r = "if x_role x = ''server'' then counters_of F_srvRejected [] rejectCodes (x_rejected x) else []"
  have r: "distinct (map mkey ?r)" "\<forall>k \<in> mkey ` set ?r. fst k = F_srvRejected" "\<forall>m \<in> set ?r. fits x m"
    by (auto simp: counters_of_def label_lists upt_small Describe_def)
  note a = collect_all_ok [OF assms(1) ms]
  have "mkey ` set ms \<inter> mkey ` set ?r = {}" using a r(2) by fastforce
  moreover have "(F_build, [x_role x, buildVersion info, goversion]) \<notin> mkey ` set ms"
    "(F_build, [x_role x, buildVersion info, goversion]) \<notin> mkey ` set ?r"
    using a r(2) by (metis fst_conv, metis family.distinct(11) fst_conv)
  moreover have "fits x (gauge F_build 1 [x_role x, buildVersion info, goversion])" by (simp add: Describe_def)
  ultimately have "distinct (map mkey (gauge F_build 1 [x_role x, buildVersion info, goversion] # ms @ ?r))"
    "\<forall>m \<in> set (gauge F_build 1 [x_role x, buildVersion info, goversion] # ms @ ?r). fits x m"
    using a r(1,3) by auto
  then show ?thesis
    using ms by (simp add: Collect_metrics_def)
qed

text \<open>
  C30. A scrape is consistent. With distinct service names, and a pool for every service of a
  server, \<open>Collect\<close> does not panic; every metric belongs to a family the collector described for
  its role, with as many label values as the family has labels; and no two metrics of a scrape have
  the same family and labels (the library would refuse the whole scrape otherwise).
\<close>

theorem Collect_consistent:
  assumes "distinct (map fst (x_services x))"
    and "x_role x = ''server'' \<Longrightarrow> \<forall>n \<in> fst ` set (x_services x). x_pools x n \<noteq> None"
  shows "case Collect_metrics info goversion x of
      None \<Rightarrow> False
    | Some ms \<Rightarrow> distinct (map (\<lambda>m. (mt_family m, mt_labels m)) ms)
        \<and> list_all (\<lambda>m. mt_family m \<in> set (Describe x)
            \<and> length (mt_labels m) = length (snd (newDescs (mt_family m)))) ms"
proof -
  have m: "(\<lambda>m. (mt_family m, mt_labels m)) = mkey" by (auto simp: mkey_def)
  obtain ms where "Collect_metrics info goversion x = Some ms" "distinct (map mkey ms)" "\<forall>m \<in> set ms. fits x m"
    using Collect_ok [OF assms] by blast
  then show ?thesis by (simp add: m fits_def list_all_iff)
qed

subsection \<open>Events\<close>

text \<open>
  Each event counts once, under its own label. On counters of the declared lengths no event
  indexes out of range and the lengths stay; an event adds one (modulo 64 bits) to exactly the
  counter of its label and changes no other. A reason or code that is not listed counts under the
  last label, and every failed dispatch under the label of its error, wrapped or not.
\<close>

theorem events_count_once:
  assumes "stats_ok s"
  shows "stats_ok (ClosedFor r s) \<and> stats_ok (Retired r s) \<and> stats_ok (Rejected r s)
      \<and> stats_ok (DispatchFailed e s) \<and> stats_ok (LeaseDone oc d s)
    \<and> s_closed (ClosedFor r s) = map (\<lambda>(n, v). if n = (if r \<in> set closeReasons then r else ''error'')
        then v + 1 else v) (zip closeReasons (s_closed s))
    \<and> s_retired (Retired r s) = map (\<lambda>(n, v). if n = (if r \<in> set retireReasons then r else ''error'')
        then v + 1 else v) (zip retireReasons (s_retired s))
    \<and> s_rejected (Rejected r s) = map (\<lambda>(n, v). if n = (if r \<in> set rejectCodes then r else ''other'')
        then v + 1 else v) (zip rejectCodes (s_rejected s))
    \<and> s_dispatch (DispatchFailed e s) = map (\<lambda>(n, v). if n = (if errors_Is e ErrStopped then ''stopped''
          else if errors_Is e ErrFull then ''full'' else if errors_Is e ErrExpired then ''expired'' else ''canceled'')
        then v + 1 else v) (zip dispatchErrors (s_dispatch s))
    \<and> s_leases (LeaseDone oc d s) = map (\<lambda>(n, v). if n = (case oc of LeaseOK \<Rightarrow> ''ok''
          | LeaseDialFailed \<Rightarrow> ''dial_failed'' | LeaseClientClose \<Rightarrow> ''client_close'' | LeaseError \<Rightarrow> ''error'')
        then v + 1 else v) (zip leaseOutcomes (s_leases s))"
proof -
  have b: "bump i xs = map (\<lambda>(n, v). if n = names ! i then v + 1 else v) (zip names xs)"
    if "distinct names" "i < length names" "length xs = length names" for i names xs
    using that by (intro nth_equalityI) (auto simp: nth_bump nth_eq_iff_index_eq)
  have d: "distinct closeReasons" "distinct retireReasons" "distinct rejectCodes" "distinct dispatchErrors"
    "distinct leaseOutcomes" by (simp_all add: label_lists)
  have n: "closeReasons \<noteq> []" "retireReasons \<noteq> []" "rejectCodes \<noteq> []" by (simp_all add: label_lists)
  have l: "last closeReasons = ''error''" "last retireReasons = ''error''" "last rejectCodes = ''other''"
    by (simp_all add: label_lists)
  have i: "dispatchErrors ! dispatch_index e = (if errors_Is e ErrStopped then ''stopped''
      else if errors_Is e ErrFull then ''full'' else if errors_Is e ErrExpired then ''expired'' else ''canceled'')"
    by (simp add: dispatch_index_def dispatchErrors_def)
  have o: "leaseOutcomes ! outcome_index oc = (case oc of LeaseOK \<Rightarrow> ''ok''
      | LeaseDialFailed \<Rightarrow> ''dial_failed'' | LeaseClientClose \<Rightarrow> ''client_close'' | LeaseError \<Rightarrow> ''error'')"
    by (cases oc) (simp_all add: leaseOutcomes_def)
  have "s_leases (LeaseDone oc d s) = bump (outcome_index oc) (s_leases s)"
    by (simp add: LeaseDone_def Let_def split: option.split)
  then show ?thesis
    using assms stats_ok_events [OF assms] index_names [OF n(1), of r] index_names [OF n(2), of r]
      index_names [OF n(3), of r]
      b [OF d(1), of "index closeReasons r" "s_closed s"] b [OF d(2), of "index retireReasons r" "s_retired s"]
      b [OF d(3), of "index rejectCodes r" "s_rejected s"]
      b [OF d(4) dispatch_index_bound, of "s_dispatch s" e] b [OF d(5) outcome_index_bound, of "s_leases s" oc]
    by (simp add: stats_ok_def ClosedFor_def Retired_def Rejected_def DispatchFailed_def i o l)
qed

subsection \<open>Access\<close>

text \<open>
  Access to the metrics. A request is served exactly if it carries credentials whose hashes are
  the configured ones, asks for \<^verbatim>\<open>/metrics\<close>, and uses GET or HEAD. A request without such
  credentials gets the same answer, 401, whatever its path and method, so it learns nothing else;
  and what the loader stored lets in exactly the configured name and password, up to collisions of
  the hash.
\<close>

theorem metrics_access:
  "(Handler sha cfg r = ServeMetrics \<longleftrightarrow>
      (\<exists>u p. q_creds r = Some (u, p) \<and> sha u = UsernameHash cfg \<and> sha p = PasswordHash cfg)
      \<and> q_path r = ''/metrics'' \<and> q_method r \<in> {''GET'', ''HEAD''})
    \<and> (Handler sha cfg r = Unauthorized \<longleftrightarrow>
      (case q_creds r of None \<Rightarrow> True | Some (u, p) \<Rightarrow> \<not> (sha u = UsernameHash cfg \<and> sha p = PasswordHash cfg)))"
  by (auto simp: Handler_def Let_def split: option.splits if_splits)

subsection \<open>Concrete scrapes\<close>

definition demo_exporter :: exporter where
  "demo_exporter = NewServer [''a'', ''b''] (\<lambda>_. Some (new_pool 4))"

theorem Collect_consistent_witness:
  "case Collect_metrics (Some ''v'') ''go'' demo_exporter of
     None \<Rightarrow> False | Some ms \<Rightarrow> distinct (map (\<lambda>m. (mt_family m, mt_labels m)) ms) \<and> length ms = 60"
proof -
  have x: "map fst (x_services demo_exporter) = [''a'', ''b'']" "x_role demo_exporter = ''server''"
    "x_pools demo_exporter n \<noteq> None" for n
    by (simp_all add: demo_exporter_def NewServer_def newExporter_def)
  have "distinct (map fst (x_services demo_exporter))" by (simp add: x)
  from Collect_consistent [OF this, of "Some ''v''" "''go''"] x(3)
  have "case Collect_metrics (Some ''v'') ''go'' demo_exporter of
     None \<Rightarrow> False | Some ms \<Rightarrow> distinct (map (\<lambda>m. (mt_family m, mt_labels m)) ms)"
    by (auto split: option.splits)
  moreover have "map_option length (Collect_metrics (Some ''v'') ''go'' demo_exporter) = Some 60"
    by (simp add: demo_exporter_def NewServer_def newExporter_def Collect_metrics_def collect_service_def
        scrape_defs upt_small)
  ultimately show ?thesis by (auto split: option.splits)
qed

theorem events_count_once_witness:
  "s_closed (ClosedFor ''nobody knows'' zero_stats) = [0, 0, 0, 1]
    \<and> s_dispatch (DispatchFailed (Wrap ''x: '' ErrFull) zero_stats) = [0, 1, 0, 0]"
  using events_count_once [OF stats_ok_zero(1), of "''nobody knows''" "Wrap ''x: '' ErrFull" LeaseOK 0]
  by (simp add: zero_stats_def label_lists ErrFull_def ErrStopped_def)

end
