(* ===== verification/Server_Worker.thy ===== *)
theory Server_Worker
  imports Metrics Relay
begin

text \<open>
  The tunnel connections of the server, \<^verbatim>\<open>internal/server/worker.go\<close>: registration and
  authentication, the loop that serves visitors, heartbeats and leases. A function here is one
  handler; it works on the connection (any reader and writer), and on the shared runtime. What the
  pool, the clock and the other goroutines answer at a call is an argument. Deadlines show as errors
  of the network operations they end. Logging is left out.
\<close>

subsection \<open>Connections and messages\<close>

text \<open>A connection: its reader, its writer, and what \<open>Close\<close> makes of it.\<close>

record 's duplex =
  dx_rd :: "'s reader"
  dx_wr :: "'s writer"
  dx_close :: "'s \<Rightarrow> 's"

definition net_duplex :: "net_conn duplex" where
  "net_duplex = \<lparr>dx_rd = net_read, dx_wr = net_write, dx_close = net_close\<rparr>"

text \<open>The JSON codec: \<open>DecodeJSON\<close> into a HELLO or a code, and the encoders.\<close>

record json =
  js_hello :: "bytes \<Rightarrow> error + hello"
  js_code :: "bytes \<Rightarrow> error + string"
  js_put_hello :: "hello \<Rightarrow> bytes"
  js_put_code :: "string \<Rightarrow> bytes"

definition plain_frame :: "byte \<Rightarrow> u64 \<Rightarrow> frame" where
  "plain_frame t i = \<lparr>Typ = t, LeaseID = i, Payload = []\<rparr>"

subsection \<open>Pool timings\<close>

text \<open>\<^verbatim>\<open>time.Duration(v) * time.Millisecond\<close> in 64-bit arithmetic, behind its range check.\<close>

definition ms :: "int \<Rightarrow> duration" where
  "ms v = (if v < 0 \<or> v > 2 ^ 40 then - 1
     else sint ((word_of_int v :: 64 word) * word_of_int millisecond))"

definition poolOptions :: "pool_params \<Rightarrow> error + options" where
  "poolOptions p =
     (let c = \<lparr>cp_MinIdle = 1, cp_MaxIdle = 1, cp_Heartbeat = ms (HeartbeatMS p),
               cp_IdleTimeout = ms (IdleTimeoutMS p), cp_IdleJitter = ms (IdleJitterMS p),
               cp_MaxLifetime = ms (MaxLifetimeMS p), cp_LifetimeJitter = ms (LifetimeJitterMS p)\<rparr>
      in case ValidatePool c of
           Some e \<Rightarrow> Inl e
         | None \<Rightarrow> Inr \<lparr>Heartbeat = cp_Heartbeat c, IdleTimeout = cp_IdleTimeout c,
             IdleJitter = cp_IdleJitter c, MaxLifetime = cp_MaxLifetime c,
             LifetimeJitter = cp_LifetimeJitter c\<rparr>)"

subsection \<open>Registration\<close>

text \<open>\<open>srt_workers\<close> is the wait group of the worker goroutines.\<close>

record server_rt =
  srt_services :: "string \<rightharpoonup> service"
  srt_pools :: "string \<rightharpoonup> pool"
  srt_metrics :: "exporter option"
  srt_ids :: u64
  srt_workers :: nat

definition put_pool :: "string \<Rightarrow> pool \<Rightarrow> server_rt \<Rightarrow> server_rt" where
  "put_pool n p r = r\<lparr>srt_pools := (srt_pools r)(n \<mapsto> p)\<rparr>"

text \<open>\<open>Opened.Add(1)\<close> on the counters of a configured service; detached counters are dropped.\<close>

fun update_service :: "string \<Rightarrow> (svc_stats \<Rightarrow> svc_stats) \<Rightarrow> (string \<times> svc_stats) list \<Rightarrow> (string \<times> svc_stats) list" where
  "update_service n f [] = []"
| "update_service n f ((m, s) # xs) = (if m = n then (m, f s) # xs else (m, s) # update_service n f xs)"

definition count_service :: "string \<Rightarrow> (svc_stats \<Rightarrow> svc_stats) \<Rightarrow> exporter option \<Rightarrow> exporter option" where
  "count_service n f = map_option (\<lambda>x. x\<lparr>x_services := update_service n f (x_services x)\<rparr>)"

definition dummyHash :: "(string \<Rightarrow> bytes) \<Rightarrow> bytes" where
  "dummyHash sha = sha ''not a registered service token''"

definition reject :: "'s duplex \<Rightarrow> json \<Rightarrow> string \<Rightarrow> server_rt \<times> 's \<Rightarrow> server_rt \<times> 's" where
  "reject X J code rc =
     (case rc of (r, c) \<Rightarrow>
        (r\<lparr>srt_metrics := RejectedBy code (srt_metrics r)\<rparr>,
         dx_close X (fst (write_frame (dx_wr X) c
           \<lparr>Typ = HELLO_ERR, LeaseID = 0, Payload = js_put_code J code\<rparr>))))"

text \<open>The checks of a HELLO, in the order of the code: \<open>Inl\<close> the rejection code.\<close>

definition check_hello ::
    "(string \<Rightarrow> bytes) \<Rightarrow> (string \<rightharpoonup> service) \<Rightarrow> hello \<Rightarrow> string + options" where
  "check_hello sha services h =
     (let known = (services (Service h) \<noteq> None);
          expected = (case services (Service h) of Some s \<Rightarrow> TokenHash s | None \<Rightarrow> dummyHash sha);
          given = sha (hello.Token h);
          valid_token = (expected = given)
      in if Version h \<noteq> 2 \<or> Compression h \<noteq> ''zstd'' then Inl ''incompatible_protocol''
         else if \<not> known \<or> \<not> valid_token then Inl ''authentication_failed''
         else case poolOptions (Pool h) of
                Inl e \<Rightarrow> Inl ''invalid_pool''
              | Inr os \<Rightarrow> Inr os)"

text \<open>
  What became of a registration: refused with a code; registered as worker \<open>w\<close> of a service and
  closed again; registered and handed to its goroutine; or a nil pointer (a service without a pool).
\<close>

datatype reg_result = RegRejected string | RegClosed string nat | RegWorking string nat | RegPanic

text \<open>
  After \<open>Register\<close>: HELLO_OK, READY, \<open>CompleteAuth\<close> (its answer is \<open>auth\<close>). \<open>env\<close> is what the other
  goroutines did to the runtime before the next access to it.
\<close>

definition reg_finish ::
    "'s duplex \<Rightarrow> (server_rt \<Rightarrow> server_rt) \<Rightarrow> error option \<Rightarrow> string \<Rightarrow> nat \<Rightarrow> server_rt \<times> 's
     \<Rightarrow> (server_rt \<times> 's \<times> effect list \<times> reg_result) option" where
  "reg_finish X env auth name w rc =
     (case rc of (r, c) \<Rightarrow>
        (let closed = (\<lambda>c1. case srt_pools (env r) name of
               None \<Rightarrow> (env r, c1, [], RegPanic)
             | Some p \<Rightarrow> (case Pool.Closed w p of (p1, eff) \<Rightarrow>
                 (put_pool name p1 (env r), dx_close X c1, eff, RegClosed name w)))
         in case write_frame (dx_wr X) c (plain_frame HELLO_OK 0) of
              (c1, Some e) \<Rightarrow> Some (closed c1)
            | (c1, None) \<Rightarrow>
                (case read_frame (dx_rd X) c1 of
                   None \<Rightarrow> None
                 | Some (c2, Inl e) \<Rightarrow> Some (closed c2)
                 | Some (c2, Inr f) \<Rightarrow>
                     if Typ f \<noteq> READY \<or> LeaseID f \<noteq> 0 then Some (closed c2)
                     else if auth \<noteq> None then Some (closed c2)
                     else Some ((env r)\<lparr>srt_metrics := count_service name (\<lambda>s. s\<lparr>s_Opened := s_Opened s + 1\<rparr>)
                                    (srt_metrics (env r)),
                                  srt_workers := srt_workers (env r) + 1\<rparr>,
                                c2, [], RegWorking name w))))"

text \<open>\<open>Closed\<close> runs the worker's close function, which closes the connection.\<close>

definition register ::
    "'s duplex \<Rightarrow> json \<Rightarrow> (string \<Rightarrow> bytes) \<Rightarrow> (server_rt \<Rightarrow> server_rt) \<Rightarrow> error option \<Rightarrow> instant \<Rightarrow> int
     \<Rightarrow> server_rt \<times> 's \<Rightarrow> (server_rt \<times> 's \<times> effect list \<times> reg_result) option" where
  "register X J sha env auth now rnd rc =
     (case rc of (r0, c) \<Rightarrow>
        (let cid = srt_ids r0 + 1; r = r0\<lparr>srt_ids := cid\<rparr>;
             rejected = (\<lambda>code c1. case reject X J code (r, c1) of (r1, c2) \<Rightarrow> (r1, c2, [], RegRejected code))
         in case read_frame (dx_rd X) c of
              None \<Rightarrow> None
            | Some (c1, Inl e) \<Rightarrow> Some (rejected ''incompatible_protocol'' c1)
            | Some (c1, Inr f) \<Rightarrow>
                if Typ f \<noteq> HELLO \<or> LeaseID f \<noteq> 0 then Some (rejected ''incompatible_protocol'' c1)
                else case js_hello J (Payload f) of
                       Inl e \<Rightarrow> Some (rejected ''incompatible_protocol'' c1)
                     | Inr h \<Rightarrow>
                         (case check_hello sha (srt_services r) h of
                            Inl code \<Rightarrow> Some (rejected code c1)
                          | Inr os \<Rightarrow>
                              (case srt_pools r (Service h) of
                                 None \<Rightarrow> Some (r, c1, [], RegPanic)
                               | Some p \<Rightarrow>
                                   (case Register cid os now rnd p of
                                      (p1, Inl e) \<Rightarrow> Some (rejected ''shutting_down'' c1)
                                    | (p1, Inr w) \<Rightarrow>
                                        reg_finish X env auth (Service h) w (put_pool (Service h) p1 r, c1))))))"

subsection \<open>Heartbeats and leases\<close>

definition errClientClose :: error where
  "errClientClose = Errmsg ''client closed connection at release''"

definition goodbye :: "'s duplex \<Rightarrow> 's \<Rightarrow> 's" where
  "goodbye X c = fst (write_frame (dx_wr X) c (plain_frame CLOSE 0))"

text \<open>\<open>nonce\<close>: what \<^verbatim>\<open>rand.Read\<close> gave.\<close>

definition heartbeat :: "'s duplex \<Rightarrow> error + bytes \<Rightarrow> 's \<Rightarrow> ('s \<times> error option) option" where
  "heartbeat X nonce c =
     (case nonce of
        Inl e \<Rightarrow> Some (c, Some e)
      | Inr n \<Rightarrow>
          (case write_frame (dx_wr X) c \<lparr>Typ = PING, LeaseID = 0, Payload = n\<rparr> of
             (c1, Some e) \<Rightarrow> Some (c1, Some e)
           | (c1, None) \<Rightarrow>
               (case read_frame (dx_rd X) c1 of
                  None \<Rightarrow> None
                | Some (c2, Inl e) \<Rightarrow> Some (c2, Some e)
                | Some (c2, Inr f) \<Rightarrow>
                    if Typ f \<noteq> PONG \<or> LeaseID f \<noteq> 0 \<or> Payload f \<noteq> n
                    then Some (c2, Some (Errmsg ''invalid PONG''))
                    else Some (c2, None))))"

text \<open>
  A lease works on the connection and the visitor's socket; \<open>relay\<close> is \<open>codec.Run\<close> on the two with the
  lease ID. The flags: whether \<open>Releasing\<close> was called, and whether the client could not dial.
\<close>

record 's lease_state =
  ls_conn :: 's
  ls_tcp :: net_conn
  ls_releasing :: bool
  ls_dialFailed :: bool

type_synonym 's relay_fun = "'s \<Rightarrow> net_conn \<Rightarrow> u64 \<Rightarrow> ('s \<times> net_conn \<times> error option) option"

text \<open>The release barrier, from \<open>Releasing\<close> on.\<close>

definition release_barrier :: "'s duplex \<Rightarrow> u64 \<Rightarrow> 's lease_state \<Rightarrow> ('s lease_state \<times> error option) option" where
  "release_barrier X cid l =
     (let l1 = l\<lparr>ls_releasing := True\<rparr>
      in case write_frame (dx_wr X) (ls_conn l1) (plain_frame RELEASE cid) of
           (c, Some e) \<Rightarrow> Some (l1\<lparr>ls_conn := c\<rparr>, Some e)
         | (c, None) \<Rightarrow>
             (case read_frame (dx_rd X) c of
                None \<Rightarrow> None
              | Some (c1, Inl e) \<Rightarrow> Some (l1\<lparr>ls_conn := c1\<rparr>, Some e)
              | Some (c1, Inr f) \<Rightarrow>
                  if Typ f = CLOSE \<and> LeaseID f = 0 then Some (l1\<lparr>ls_conn := c1\<rparr>, Some errClientClose)
                  else if Typ f \<noteq> READY \<or> LeaseID f \<noteq> cid
                  then Some (l1\<lparr>ls_conn := c1\<rparr>, Some (Errmsg ''invalid release barrier''))
                  else Some (l1\<lparr>ls_conn := c1\<rparr>, None)))"

definition lease_body ::
    "'s duplex \<Rightarrow> json \<Rightarrow> 's relay_fun \<Rightarrow> u64 \<Rightarrow> 's lease_state \<Rightarrow> ('s lease_state \<times> error option) option" where
  "lease_body X J relay cid l =
     (case write_frame (dx_wr X) (ls_conn l) (plain_frame OPEN cid) of
        (c, Some e) \<Rightarrow> Some (l\<lparr>ls_conn := c\<rparr>, Some e)
      | (c, None) \<Rightarrow>
          (case read_frame (dx_rd X) c of
             None \<Rightarrow> None
           | Some (c1, Inl e) \<Rightarrow> Some (l\<lparr>ls_conn := c1\<rparr>, Some e)
           | Some (c1, Inr f) \<Rightarrow>
               if LeaseID f \<noteq> cid then Some (l\<lparr>ls_conn := c1\<rparr>, Some (Errmsg ''wrong OPEN id''))
               else if Typ f = OPEN_OK
               then (case relay c1 (ls_tcp l) cid of
                       None \<Rightarrow> None
                     | Some (c2, t, Some e) \<Rightarrow> Some (l\<lparr>ls_conn := c2, ls_tcp := t\<rparr>, Some e)
                     | Some (c2, t, None) \<Rightarrow> release_barrier X cid (l\<lparr>ls_conn := c2, ls_tcp := t\<rparr>))
               else if Typ f = OPEN_ERR
               then (case js_code J (Payload f) of
                       Inl e \<Rightarrow> Some (l\<lparr>ls_conn := c1\<rparr>, Some (Errmsg ''invalid OPEN_ERR''))
                     | Inr code \<Rightarrow>
                         if code \<noteq> ''dial_failed''
                         then Some (l\<lparr>ls_conn := c1\<rparr>, Some (Errmsg ''invalid OPEN_ERR''))
                         else release_barrier X cid
                           (l\<lparr>ls_conn := c1, ls_dialFailed := True, ls_tcp := net_close (ls_tcp l)\<rparr>))
               else Some (l\<lparr>ls_conn := c1\<rparr>, Some (Errmsg ''unexpected OPEN reply''))))"

text \<open>The deferred classification.\<close>

definition lease_outcome :: "error option \<Rightarrow> bool \<Rightarrow> lease_outcome" where
  "lease_outcome err dialFailed =
     (case err of
        Some e \<Rightarrow> if errors_Is e errClientClose then LeaseClientClose else LeaseError
      | None \<Rightarrow> if dialFailed then LeaseDialFailed else LeaseOK)"

definition lease ::
    "'s duplex \<Rightarrow> json \<Rightarrow> 's relay_fun \<Rightarrow> u64 \<Rightarrow> 's \<Rightarrow> net_conn
     \<Rightarrow> ('s lease_state \<times> error option \<times> lease_outcome) option" where
  "lease X J relay cid c tcp =
     map_option (\<lambda>(l, e). (l, e, lease_outcome e (ls_dialFailed l)))
       (lease_body X J relay cid
          \<lparr>ls_conn = c, ls_tcp = tcp, ls_releasing = False, ls_dialFailed = False\<rparr>)"

subsection \<open>The worker loop\<close>

text \<open>
  What the goroutine does to the pool, the sockets and the counters, in order: calls of \<open>Idle\<close> and
  \<open>Next\<close> with their answers, the parts of a lease, and the deferred end.
\<close>

datatype wact =
    AIdle outcome
  | ANext "nat option" outcome
  | ABeat bool
  | ALease u64 bool lease_outcome
  | ACloseTCP nat
  | AClosed
  | AStat string

text \<open>
  One turn of the loop: what \<open>Next\<close> answers (a socket comes with its state), what \<open>Idle\<close> will answer
  when it is called again, and the random bytes of a heartbeat.
\<close>

record turn =
  tn_next :: "nat option \<times> outcome"
  tn_tcp :: net_conn
  tn_idle :: outcome
  tn_nonce :: "error + bytes"

text \<open>The deferred function: \<open>w.Closed()\<close>, which closes the connection, then the reason is counted.\<close>

definition wend :: "'s duplex \<Rightarrow> string \<Rightarrow> 's \<Rightarrow> wact list \<Rightarrow> 's \<times> wact list" where
  "wend X reason c tr = (dx_close X c, tr @ [AClosed, AStat reason])"

text \<open>
  The loop with its variables \<open>last\<close> and \<open>outcome\<close>; \<open>tr\<close> collects the actions. \<open>None\<close>: still running
  after the given turns, or a call that does not return.
\<close>

fun work_loop ::
    "'s duplex \<Rightarrow> json \<Rightarrow> 's relay_fun \<Rightarrow> turn list \<Rightarrow> u64 \<Rightarrow> outcome \<Rightarrow> 's \<Rightarrow> wact list
     \<Rightarrow> ('s \<times> wact list) option" where
  "work_loop X J relay turns lastid oc c tr =
     (if oc = Expired then Some (wend X ''expired'' (goodbye X c) tr)
      else if oc \<noteq> Ready then Some (wend X ''shutdown'' c tr)
      else case turns of
             [] \<Rightarrow> None
           | tn # rest \<Rightarrow>
               (case tn_next tn of (t, nx) \<Rightarrow>
                 (let tr1 = tr @ [ANext t nx]
                  in if nx = Check
                     then (case heartbeat X (tn_nonce tn) c of
                             None \<Rightarrow> None
                           | Some (c1, Some e) \<Rightarrow> Some (wend X ''error'' c1 (tr1 @ [ABeat False]))
                           | Some (c1, None) \<Rightarrow>
                               work_loop X J relay rest lastid (tn_idle tn) c1
                                 (tr1 @ [ABeat True, AIdle (tn_idle tn)]))
                     else if nx = Expired then Some (wend X ''expired'' (goodbye X c) tr1)
                     else if nx \<noteq> Leased then Some (wend X ''shutdown'' c tr1)
                     else case t of
                            None \<Rightarrow> None
                          | Some v \<Rightarrow>
                              if lastid = - 1 then Some (wend X ''error'' c (tr1 @ [ACloseTCP v]))
                              else (case lease X J relay (lastid + 1) c (tn_tcp tn) of
                                      None \<Rightarrow> None
                                    | Some (l, e, out) \<Rightarrow>
                                        (let tr2 = tr1 @ [ALease (lastid + 1) (ls_releasing l) out, ACloseTCP v]
                                         in case e of
                                              Some x \<Rightarrow>
                                                Some (wend X (if errors_Is x errClientClose then ''client_close'' else ''error'')
                                                        (ls_conn l) tr2)
                                            | None \<Rightarrow>
                                                work_loop X J relay rest (lastid + 1) (tn_idle tn) (ls_conn l)
                                                  (tr2 @ [AIdle (tn_idle tn)]))))))"

declare work_loop.simps [simp del]

definition work ::
    "'s duplex \<Rightarrow> json \<Rightarrow> 's relay_fun \<Rightarrow> turn list \<Rightarrow> outcome \<Rightarrow> 's \<Rightarrow> ('s \<times> wact list) option" where
  "work X J relay turns oc c = work_loop X J relay turns 0 oc c [AIdle oc]"

end
