(* ===== verification/Client_Worker.thy ===== *)
theory Client_Worker
  imports Server_Worker
begin

text \<open>
  The tunnel connections of the client, \<^verbatim>\<open>internal/client/worker.go\<close>: the controller that keeps
  enough connections open, the life of a connection, leases, and shutdown. Each critical section
  under \<^verbatim>\<open>r.mu\<close> is a function on the runtime; readings of the clock and random numbers are arguments.
  Slots are heap objects addressed by number; connections and sockets held by a slot are numbers.
\<close>

subsection \<open>State\<close>

definition baseBackoff :: duration where "baseBackoff = 250 * millisecond"
definition maxBackoff :: duration where "maxBackoff = 30 * second"
definition stableAfter :: duration where "stableAfter = 30 * second"

lemmas backoff_defs = baseBackoff_def maxBackoff_def stableAfter_def time_consts

definition errSurplus :: error where "errSurplus = Errmsg ''surplus idle connection''"

datatype slotState = Connecting | IdleSlot | BusySlot

text \<open>A service of the client; \<open>cs_wake\<close> is the one-slot channel.\<close>

record client_svc =
  cs_wake :: bool
  cs_idle :: int
  cs_connecting :: int
  cs_backoff :: duration
  cs_notBefore :: instant
  cs_stats :: svc_stats

record slot =
  so_conn :: "nat option"
  so_tcp :: "nat option"
  so_state :: slotState
  so_svc :: string

text \<open>\<open>crt_slots\<close>: the keys of the map of slots; \<open>crt_heap\<close>: the slot objects.\<close>

record client_rt =
  crt_pool :: client_pool
  crt_names :: "string list"
  crt_svcs :: "string \<Rightarrow> client_svc"
  crt_slots :: "nat list"
  crt_heap :: "nat \<Rightarrow> slot"
  crt_next :: nat
  crt_stopping :: bool

definition upd_svc :: "string \<Rightarrow> (client_svc \<Rightarrow> client_svc) \<Rightarrow> client_rt \<Rightarrow> client_rt" where
  "upd_svc n f r = r\<lparr>crt_svcs := (crt_svcs r)(n := f (crt_svcs r n))\<rparr>"

definition upd_slot :: "nat \<Rightarrow> (slot \<Rightarrow> slot) \<Rightarrow> client_rt \<Rightarrow> client_rt" where
  "upd_slot s f r = r\<lparr>crt_heap := (crt_heap r)(s := f (crt_heap r s))\<rparr>"

definition svc_of :: "client_rt \<Rightarrow> nat \<Rightarrow> string" where
  "svc_of r s = so_svc (crt_heap r s)"

text \<open>The runtime \<open>Run\<close> starts with.\<close>

definition new_service :: client_svc where
  "new_service = \<lparr>cs_wake = False, cs_idle = 0, cs_connecting = 0, cs_backoff = baseBackoff,
     cs_notBefore = zero_instant, cs_stats = zero_stats\<lparr>s_duration := Some []\<rparr>\<rparr>"

definition new_client :: "client_pool \<Rightarrow> string list \<Rightarrow> client_rt" where
  "new_client p names = \<lparr>crt_pool = p, crt_names = names, crt_svcs = (\<lambda>_. new_service), crt_slots = [],
     crt_heap = (\<lambda>_. \<lparr>so_conn = None, so_tcp = None, so_state = Connecting, so_svc = ''''\<rparr>),
     crt_next = 0, crt_stopping = False\<rparr>"

subsection \<open>The controller\<close>

definition snapshot :: "client_rt \<Rightarrow> string \<rightharpoonup> slot_counts" where
  "snapshot r n =
     (if n \<in> set (crt_names r)
      then Some \<lparr>sl_Connecting = cs_connecting (crt_svcs r n), sl_Idle = cs_idle (crt_svcs r n),
        sl_Busy = int (length (filter (\<lambda>s. so_state (crt_heap r s) = BusySlot \<and> svc_of r s = n) (crt_slots r)))\<rparr>
      else None)"

definition wake_service :: "string \<Rightarrow> client_rt \<Rightarrow> client_rt" where
  "wake_service n = upd_svc n (\<lambda>v. v\<lparr>cs_wake := True\<rparr>)"

text \<open>One pass of the controller under the lock: leave, arm the timer, start connections, or nothing.\<close>

datatype control = CtlExit | CtlWait duration | CtlSpawn nat | CtlSleep

definition control_top :: "bool \<Rightarrow> instant \<Rightarrow> string \<Rightarrow> client_rt \<Rightarrow> client_rt \<times> control" where
  "control_top ctx now n r =
     (if crt_stopping r \<or> ctx then (r, CtlExit)
      else let v = crt_svcs r n; need = cp_MinIdle (crt_pool r) - cs_idle v - cs_connecting v
           in if need > 0
              then (let wait = cs_notBefore v - now
                    in if wait > 0 then (r, CtlWait wait)
                       else (upd_svc n (\<lambda>v. v\<lparr>cs_connecting := cs_connecting v + need\<rparr>) r, CtlSpawn (nat need)))
              else (r, CtlSleep))"

text \<open>Its \<^verbatim>\<open>select\<close>: an event on the wake channel empties it.\<close>

definition control_woken :: "string \<Rightarrow> client_rt \<Rightarrow> client_rt" where
  "control_woken n = upd_svc n (\<lambda>v. v\<lparr>cs_wake := False\<rparr>)"

subsection \<open>The life of a connection\<close>

definition runConn_start :: "string \<Rightarrow> client_rt \<Rightarrow> client_rt \<times> nat" where
  "runConn_start n r =
     (let s = crt_next r
      in (r\<lparr>crt_heap := (crt_heap r)(s := \<lparr>so_conn = None, so_tcp = None, so_state = Connecting, so_svc = n\<rparr>),
            crt_next := Suc s, crt_slots := s # crt_slots r\<rparr>, s))"

text \<open>\<open>dialAndServe\<close> once it has connection \<open>k\<close>: \<open>False\<close> when the client is stopping (then it closes \<open>k\<close>).\<close>

definition attach_conn :: "nat \<Rightarrow> nat \<Rightarrow> client_rt \<Rightarrow> client_rt \<times> bool" where
  "attach_conn s k r =
     (if crt_stopping r then (r, False) else (upd_slot s (\<lambda>x. x\<lparr>so_conn := Some k\<rparr>) r, True))"

definition drop_slot :: "nat \<Rightarrow> client_rt \<Rightarrow> client_rt \<times> nat option \<times> nat option" where
  "drop_slot s r =
     (upd_slot s (\<lambda>x. x\<lparr>so_conn := None, so_tcp := None\<rparr>) r, so_tcp (crt_heap r s), so_conn (crt_heap r s))"

definition setTCP :: "nat \<Rightarrow> nat option \<Rightarrow> client_rt \<Rightarrow> client_rt" where
  "setTCP s t = upd_slot s (\<lambda>x. x\<lparr>so_tcp := t\<rparr>)"

text \<open>The critical sections of \<open>serveSlot\<close> and \<open>lease\<close>.\<close>

definition slot_registered :: "nat \<Rightarrow> client_rt \<Rightarrow> client_rt" where
  "slot_registered s r =
     upd_svc (svc_of r s) (\<lambda>v. v\<lparr>cs_connecting := cs_connecting v - 1, cs_idle := cs_idle v + 1\<rparr>)
       (upd_slot s (\<lambda>x. x\<lparr>so_state := IdleSlot\<rparr>) r)"

definition slot_busy :: "nat \<Rightarrow> client_rt \<Rightarrow> client_rt" where
  "slot_busy s r =
     upd_svc (svc_of r s) (\<lambda>v. v\<lparr>cs_idle := cs_idle v - 1\<rparr>) (upd_slot s (\<lambda>x. x\<lparr>so_state := BusySlot\<rparr>) r)"

definition release_decide :: "nat \<Rightarrow> client_rt \<Rightarrow> client_rt \<times> bool" where
  "release_decide s r =
     (let v = crt_svcs r (svc_of r s);
          surplus = crt_stopping r \<or> cs_idle v + cs_connecting v \<ge> cp_MaxIdle (crt_pool r)
      in if surplus then (r, True)
         else (upd_svc (svc_of r s) (\<lambda>v. v\<lparr>cs_idle := cs_idle v + 1\<rparr>)
                 (upd_slot s (\<lambda>x. x\<lparr>so_state := IdleSlot\<rparr>) r), False))"

text \<open>
  The end of \<open>runConn\<close>: \<open>failing\<close> is \<^verbatim>\<open>e != nil\<close>, \<open>ctx\<close> is \<^verbatim>\<open>ctx.Err() != nil\<close>; \<open>now\<close> and \<open>now2\<close> are the
  two readings of the clock and \<open>rnd\<close> the number behind \<^verbatim>\<open>rand.Int64N\<close>.
\<close>

definition next_backoff :: "bool \<Rightarrow> instant \<Rightarrow> int \<Rightarrow> client_svc \<Rightarrow> client_svc" where
  "next_backoff lasted now2 rnd v =
     (let b = (if lasted then baseBackoff else cs_backoff v)
      in v\<lparr>cs_notBefore := now2 + rnd mod (b + 1), cs_backoff := min (b * 2) maxBackoff\<rparr>)"

definition runConn_end ::
    "nat \<Rightarrow> bool \<Rightarrow> bool \<Rightarrow> instant \<Rightarrow> instant \<Rightarrow> instant \<Rightarrow> int \<Rightarrow> client_rt \<Rightarrow> client_rt \<times> bool" where
  "runConn_end s failing ctx started now now2 rnd r =
     (let n = svc_of r s; st = so_state (crt_heap r s);
          r1 = r\<lparr>crt_slots := remove1 s (crt_slots r)\<rparr>;
          r2 = (case st of
                  Connecting \<Rightarrow> upd_svc n (\<lambda>v. v\<lparr>cs_connecting := cs_connecting v - 1\<rparr>) r1
                | IdleSlot \<Rightarrow> upd_svc n (\<lambda>v. v\<lparr>cs_idle := cs_idle v - 1\<rparr>) r1
                | BusySlot \<Rightarrow> r1);
          failed = (failing \<and> \<not> ctx \<and> \<not> crt_stopping r2);
          r3 = (if failed
                then upd_svc n (\<lambda>v. next_backoff (now - started \<ge> stableAfter) now2 rnd
                       (v\<lparr>cs_stats := (if st = Connecting
                            then (cs_stats v)\<lparr>s_DialFailures := s_DialFailures (cs_stats v) + 1\<rparr>
                            else Retired ''error'' (cs_stats v))\<rparr>)) r2
                else if \<not> failing then upd_svc n (\<lambda>v. v\<lparr>cs_backoff := baseBackoff\<rparr>) r2
                else r2)
      in (wake_service n r3, failed))"

subsection \<open>Shutdown\<close>

definition opt_list :: "nat option \<Rightarrow> nat list" where
  "opt_list x = (case x of None \<Rightarrow> [] | Some k \<Rightarrow> [k])"

text \<open>\<open>stop\<close> and \<open>force\<close> close what they collected after unlocking.\<close>

definition stop_client :: "client_rt \<Rightarrow> client_rt \<times> nat list" where
  "stop_client r =
     (r\<lparr>crt_stopping := True\<rparr>,
      concat (map (\<lambda>s. if so_state (crt_heap r s) \<noteq> BusySlot then opt_list (so_conn (crt_heap r s)) else [])
        (crt_slots r)))"

definition force_client :: "client_rt \<Rightarrow> nat list \<times> nat list" where
  "force_client r =
     (concat (map (\<lambda>s. opt_list (so_conn (crt_heap r s))) (crt_slots r)),
      concat (map (\<lambda>s. opt_list (so_tcp (crt_heap r s))) (crt_slots r)))"

subsection \<open>The protocol of a connection\<close>

definition poolParams :: "client_pool \<Rightarrow> pool_params" where
  "poolParams p = \<lparr>HeartbeatMS = cp_Heartbeat p sdiv millisecond, IdleTimeoutMS = cp_IdleTimeout p sdiv millisecond,
     IdleJitterMS = cp_IdleJitter p sdiv millisecond, MaxLifetimeMS = cp_MaxLifetime p sdiv millisecond,
     LifetimeJitterMS = cp_LifetimeJitter p sdiv millisecond\<rparr>"

text \<open>
  What the goroutine of a slot does to the runtime and the counters, in order: the critical sections
  above (\<open>KDecide\<close> with the answer), \<open>setTCP\<close>, the wake-up of the controller, and the counters.
\<close>

datatype cact =
    KRegistered | KBusy | KDecide bool | KSetTCP bool | KNotify
  | KOpened | KRejected string | KRetired string | KLocalDialFailed | KLease u64 lease_outcome

text \<open>
  One turn of the loop of \<open>serveSlot\<close>: whether the context is done, how the dial to the local service
  goes, whether the connection is surplus at the release barrier.
\<close>

record client_turn =
  ctn_ctx :: bool
  ctn_dial :: "error + net_conn"
  ctn_surplus :: bool

text \<open>The end of a lease: RELEASE, the decision, and READY or CLOSE.\<close>

definition client_release ::
    "'s duplex \<Rightarrow> bool \<Rightarrow> u64 \<Rightarrow> 's \<Rightarrow> ('s \<times> cact list \<times> error option) option" where
  "client_release X surplus cid c =
     (case read_frame (dx_rd X) c of
        None \<Rightarrow> None
      | Some (c1, Inl e) \<Rightarrow> Some (c1, [], Some e)
      | Some (c1, Inr f) \<Rightarrow>
          if Typ f \<noteq> RELEASE \<or> LeaseID f \<noteq> cid then Some (c1, [], Some (Errmsg ''invalid RELEASE''))
          else if surplus
          then (case write_frame (dx_wr X) c1 (plain_frame CLOSE 0) of
                  (c2, Some e) \<Rightarrow> Some (c2, [KDecide True], Some e)
                | (c2, None) \<Rightarrow> Some (c2, [KDecide True], Some errSurplus))
          else (case write_frame (dx_wr X) c1 (plain_frame READY cid) of
                  (c2, e) \<Rightarrow> Some (c2, [KDecide False], e)))"

text \<open>The result also has the local socket, which the deferred function closed.\<close>

definition client_lease_body ::
    "'s duplex \<Rightarrow> json \<Rightarrow> 's relay_fun \<Rightarrow> client_turn \<Rightarrow> u64 \<Rightarrow> 's
     \<Rightarrow> ('s \<times> net_conn option \<times> bool \<times> cact list \<times> error option) option" where
  "client_lease_body X J relay tn cid c =
     (case ctn_dial tn of
        Inl _ \<Rightarrow>
          (case write_frame (dx_wr X) c
                  \<lparr>Typ = OPEN_ERR, LeaseID = cid, Payload = js_put_code J ''dial_failed''\<rparr> of
             (c1, Some e) \<Rightarrow> Some (c1, None, True, [KLocalDialFailed], Some e)
           | (c1, None) \<Rightarrow>
               map_option (\<lambda>(c2, tr, e). (c2, None, True, KLocalDialFailed # tr, e))
                 (client_release X (ctn_surplus tn) cid c1))
      | Inr tcp \<Rightarrow>
          (case write_frame (dx_wr X) c (plain_frame OPEN_OK cid) of
             (c1, Some e) \<Rightarrow> Some (c1, Some (net_close tcp), False, [KSetTCP True, KSetTCP False], Some e)
           | (c1, None) \<Rightarrow>
               (case relay c1 tcp cid of
                  None \<Rightarrow> None
                | Some (c2, t, Some e) \<Rightarrow>
                    Some (c2, Some (net_close t), False, [KSetTCP True, KSetTCP False], Some e)
                | Some (c2, t, None) \<Rightarrow>
                    map_option (\<lambda>(c3, tr, e). (c3, Some (net_close t), False, KSetTCP True # tr @ [KSetTCP False], e))
                      (client_release X (ctn_surplus tn) cid c2))))"

definition client_outcome :: "error option \<Rightarrow> bool \<Rightarrow> lease_outcome" where
  "client_outcome err dialFailed =
     (if (case err of None \<Rightarrow> False | Some e \<Rightarrow> \<not> errors_Is e errSurplus) then LeaseError
      else if dialFailed then LeaseDialFailed else LeaseOK)"

definition client_lease ::
    "'s duplex \<Rightarrow> json \<Rightarrow> 's relay_fun \<Rightarrow> client_turn \<Rightarrow> u64 \<Rightarrow> 's
     \<Rightarrow> ('s \<times> net_conn option \<times> cact list \<times> error option) option" where
  "client_lease X J relay tn cid c =
     map_option (\<lambda>(c1, t, df, tr, e). (c1, t, tr @ [KLease cid (client_outcome e df)], e))
       (client_lease_body X J relay tn cid c)"

text \<open>
  The idle loop: \<open>lastid\<close> is the ID of the last lease. \<open>None\<close>: still running after the given turns, or a
  call that does not return. The error is what \<open>serveSlot\<close> returns.
\<close>

fun serve_loop_client ::
    "'s duplex \<Rightarrow> json \<Rightarrow> 's relay_fun \<Rightarrow> client_turn list \<Rightarrow> u64 \<Rightarrow> 's \<Rightarrow> cact list
     \<Rightarrow> ('s \<times> cact list \<times> error option) option" where
  "serve_loop_client X J relay [] lastid c tr = None"
| "serve_loop_client X J relay (tn # rest) lastid c tr =
     (if ctn_ctx tn then Some (c, tr, None)
      else case read_frame (dx_rd X) c of
             None \<Rightarrow> None
           | Some (c1, Inl e) \<Rightarrow> Some (c1, tr, Some e)
           | Some (c1, Inr f) \<Rightarrow>
               if Typ f = PING
               then (if LeaseID f \<noteq> 0 then Some (c1, tr, Some (Errmsg ''wrong PING id''))
                     else case write_frame (dx_wr X) c1 \<lparr>Typ = PONG, LeaseID = 0, Payload = Payload f\<rparr> of
                            (c2, Some e) \<Rightarrow> Some (c2, tr, Some e)
                          | (c2, None) \<Rightarrow> serve_loop_client X J relay rest lastid c2 tr)
               else if Typ f = CLOSE
               then (if LeaseID f \<noteq> 0 then Some (c1, tr, Some (Errmsg ''wrong CLOSE id''))
                     else Some (c1, tr @ [KRetired ''server_close''], None))
               else if Typ f = OPEN
               then (if lastid = - 1 \<or> LeaseID f \<noteq> lastid + 1
                     then Some (c1, tr, Some (Errmsg ''nonmonotonic OPEN''))
                     else case client_lease X J relay tn (LeaseID f) c1 of
                            None \<Rightarrow> None
                          | Some (c2, t, tr1, Some e) \<Rightarrow>
                              if errors_Is e errSurplus
                              then Some (c2, tr @ [KBusy, KNotify] @ tr1 @ [KRetired ''surplus''], None)
                              else Some (c2, tr @ [KBusy, KNotify] @ tr1, Some e)
                          | Some (c2, t, tr1, None) \<Rightarrow>
                              serve_loop_client X J relay rest (LeaseID f) c2 (tr @ [KBusy, KNotify] @ tr1))
               else Some (c1, tr, Some (Errmsg ''unexpected idle frame'')))"

definition serveSlot ::
    "'s duplex \<Rightarrow> json \<Rightarrow> 's relay_fun \<Rightarrow> hello \<Rightarrow> client_turn list \<Rightarrow> 's
     \<Rightarrow> ('s \<times> cact list \<times> error option) option" where
  "serveSlot X J relay h turns c =
     (case write_frame (dx_wr X) c \<lparr>Typ = HELLO, LeaseID = 0, Payload = js_put_hello J h\<rparr> of
        (c1, Some e) \<Rightarrow> Some (c1, [], Some e)
      | (c1, None) \<Rightarrow>
          (case read_frame (dx_rd X) c1 of
             None \<Rightarrow> None
           | Some (c2, Inl e) \<Rightarrow> Some (c2, [], Some e)
           | Some (c2, Inr f) \<Rightarrow>
               if LeaseID f \<noteq> 0 then Some (c2, [], Some (Errmsg ''invalid HELLO reply''))
               else if Typ f = HELLO_ERR
               then (case js_code J (Payload f) of
                       Inr code \<Rightarrow> Some (c2, [KRejected code], Some (Errmsg (''registration: '' @ code)))
                     | Inl e \<Rightarrow> Some (c2, [KRejected ''other''], Some (Errmsg ''invalid HELLO_ERR'')))
               else if Typ f \<noteq> HELLO_OK then Some (c2, [], Some (Errmsg ''invalid HELLO reply''))
               else case write_frame (dx_wr X) c2 (plain_frame READY 0) of
                      (c3, Some e) \<Rightarrow> Some (c3, [KRegistered, KOpened], Some e)
                    | (c3, None) \<Rightarrow> serve_loop_client X J relay turns 0 c3 [KRegistered, KOpened]))"

definition client_hello :: "string \<Rightarrow> service \<Rightarrow> client_pool \<Rightarrow> hello" where
  "client_hello name s p = \<lparr>Version = 2, Service = name, Token = service.Token s,
     Compression = ''zstd'', Pool = poolParams p\<rparr>"

end
