(* ===== verification/Client_System.thy ===== *)
theory Client_System
  imports Client_Worker Config_Props "HOL-Library.Multiset"
begin

text \<open>
  The client runtime under concurrency: one controller per service, one goroutine per connection,
  \<open>stop\<close> and \<open>force\<close>, interleaved at the granularity of the critical sections. The invariant ties the
  counters of every service to the slots that exist.
\<close>

subsection \<open>The transition system\<close>

text \<open>
  Where the goroutine of a slot is: not started; in \<open>dialAndServe\<close>; returned from it; after \<open>drop\<close>;
  finished. \<open>cpend\<close>: goroutines a controller has started that have not made their slot yet; \<open>cobl\<close>:
  connections that \<open>stop\<close> or \<open>force\<close> collected to close.
\<close>

datatype cphase = CNone | CRun | CEnd | CDrop | CDone

record csys =
  crt :: client_rt
  cpc :: "nat \<Rightarrow> cphase"
  cpend :: "string \<Rightarrow> nat"
  cobl :: "nat set"

definition csys_start :: "csys \<Rightarrow> bool" where
  "csys_start s \<longleftrightarrow> (\<exists>p names. crt s = new_client p names \<and> ValidatePool p = None)
     \<and> cpc s = (\<lambda>_. CNone) \<and> cpend s = (\<lambda>_. 0) \<and> cobl s = {}"

fun spawned :: "control \<Rightarrow> nat" where
  "spawned (CtlSpawn k) = k"
| "spawned _ = 0"

inductive cstep :: "csys \<Rightarrow> csys \<Rightarrow> bool" where
  c_control: "control_top ctx now n (crt s) = (r', a) \<Longrightarrow>
    cstep s (s\<lparr>crt := r', cpend := (cpend s)(n := cpend s n + spawned a)\<rparr>)"
| c_woken: "cstep s (s\<lparr>crt := control_woken n (crt s)\<rparr>)"
| c_spawn: "0 < cpend s n \<Longrightarrow> runConn_start n (crt s) = (r', x) \<Longrightarrow>
    cstep s (s\<lparr>crt := r', cpc := (cpc s)(x := CRun), cpend := (cpend s)(n := cpend s n - 1)\<rparr>)"
| c_attach: "cpc s x = CRun \<Longrightarrow> so_state (crt_heap (crt s) x) = Connecting \<Longrightarrow>
    so_conn (crt_heap (crt s) x) = None \<Longrightarrow> attach_conn x k (crt s) = (r', ok) \<Longrightarrow>
    cstep s (s\<lparr>crt := r', cpc := (cpc s)(x := if ok then CRun else CEnd)\<rparr>)"
| c_register: "cpc s x = CRun \<Longrightarrow> so_state (crt_heap (crt s) x) = Connecting \<Longrightarrow>
    cstep s (s\<lparr>crt := slot_registered x (crt s)\<rparr>)"
| c_busy: "cpc s x = CRun \<Longrightarrow> so_state (crt_heap (crt s) x) = IdleSlot \<Longrightarrow>
    cstep s (s\<lparr>crt := slot_busy x (crt s)\<rparr>)"
| c_decide: "cpc s x = CRun \<Longrightarrow> so_state (crt_heap (crt s) x) = BusySlot \<Longrightarrow>
    release_decide x (crt s) = (r', surplus) \<Longrightarrow>
    cstep s (s\<lparr>crt := r', cpc := (cpc s)(x := if surplus then CEnd else CRun)\<rparr>)"
| c_tcp: "cpc s x \<in> {CRun, CEnd} \<Longrightarrow> cstep s (s\<lparr>crt := setTCP x t (crt s)\<rparr>)"
| c_notify: "cstep s (s\<lparr>crt := wake_service n (crt s)\<rparr>)"
| c_return: "cpc s x = CRun \<Longrightarrow> cstep s (s\<lparr>cpc := (cpc s)(x := CEnd)\<rparr>)"
| c_drop: "cpc s x = CEnd \<Longrightarrow> drop_slot x (crt s) = (r', t, k) \<Longrightarrow>
    cstep s (s\<lparr>crt := r', cpc := (cpc s)(x := CDrop)\<rparr>)"
| c_finish: "cpc s x = CDrop \<Longrightarrow> runConn_end x failing ctx t0 t1 t2 rnd (crt s) = (r', failed) \<Longrightarrow>
    cstep s (s\<lparr>crt := r', cpc := (cpc s)(x := CDone)\<rparr>)"
| c_stop: "stop_client (crt s) = (r', ks) \<Longrightarrow> cstep s (s\<lparr>crt := r', cobl := cobl s \<union> set ks\<rparr>)"
| c_force: "force_client (crt s) = (ks, ts) \<Longrightarrow> cstep s (s\<lparr>cobl := cobl s \<union> set ks\<rparr>)"

abbreviation creach :: "csys \<Rightarrow> bool" where
  "creach \<equiv> reach csys_start cstep"

subsection \<open>The invariant\<close>

text \<open>State and service of every slot in the map.\<close>

definition slot_keys :: "client_rt \<Rightarrow> (slotState \<times> string) multiset" where
  "slot_keys r = image_mset (\<lambda>x. (so_state (crt_heap r x), so_svc (crt_heap r x))) (mset (crt_slots r))"

text \<open>One service: its counters against the slots \<open>K\<close>, the limit, and its backoff.\<close>

definition svc_ok :: "int \<Rightarrow> (slotState \<times> string) multiset \<Rightarrow> nat \<Rightarrow> string \<Rightarrow> client_svc \<Rightarrow> bool" where
  "svc_ok m K pend n v \<longleftrightarrow>
     cs_connecting v = int pend + int (count K (Connecting, n)) \<and> cs_idle v = int (count K (IdleSlot, n))
     \<and> cs_idle v + cs_connecting v \<le> m \<and> baseBackoff \<le> cs_backoff v \<and> cs_backoff v \<le> maxBackoff"

definition live_ok :: "client_rt \<Rightarrow> (nat \<Rightarrow> cphase) \<Rightarrow> bool" where
  "live_ok r p \<longleftrightarrow> distinct (crt_slots r) \<and> set (crt_slots r) = {x. p x \<in> {CRun, CEnd, CDrop}}
     \<and> (\<forall>x. crt_next r \<le> x \<longrightarrow> p x = CNone)"

definition closing_ok :: "client_rt \<Rightarrow> (nat \<Rightarrow> cphase) \<Rightarrow> nat set \<Rightarrow> bool" where
  "closing_ok r p obl \<longleftrightarrow>
     (\<forall>x. (p x = CDrop \<longrightarrow> so_conn (crt_heap r x) = None \<and> so_tcp (crt_heap r x) = None)
        \<and> (crt_stopping r \<longrightarrow> p x \<in> {CRun, CEnd, CDrop} \<longrightarrow> so_state (crt_heap r x) \<noteq> BusySlot \<longrightarrow>
            set (opt_list (so_conn (crt_heap r x))) \<subseteq> obl))"

definition cinv :: "csys \<Rightarrow> bool" where
  "cinv s \<longleftrightarrow>
     ValidatePool (crt_pool (crt s)) = None
     \<and> live_ok (crt s) (cpc s) \<and> closing_ok (crt s) (cpc s) (cobl s)
     \<and> (\<forall>n. svc_ok (cp_MaxIdle (crt_pool (crt s))) (slot_keys (crt s)) (cpend s n) n (crt_svcs (crt s) n))"

lemma valid_pool: "ValidatePool p = None \<Longrightarrow> 1 \<le> cp_MinIdle p \<and> cp_MinIdle p \<le> cp_MaxIdle p"
  by (auto simp: ValidatePool_iff client_pool_ok_def)

lemma cinv_start: "csys_start s \<Longrightarrow> cinv s"
  by (auto simp: csys_start_def cinv_def new_client_def live_ok_def closing_ok_def svc_ok_def slot_keys_def
      new_service_def backoff_defs dest: valid_pool)

lemma opt_list_simps [simp]: "opt_list None = []" "opt_list (Some k) = [k]"
  by (simp_all add: opt_list_def)

text \<open>The parts of the runtime the invariant reads, after each kind of update.\<close>

lemma upd_svc_sel [simp]:
  "crt_pool (upd_svc n f r) = crt_pool r" "crt_slots (upd_svc n f r) = crt_slots r"
  "crt_heap (upd_svc n f r) = crt_heap r" "crt_next (upd_svc n f r) = crt_next r"
  "crt_stopping (upd_svc n f r) = crt_stopping r" "crt_names (upd_svc n f r) = crt_names r"
  "crt_svcs (upd_svc n f r) = (crt_svcs r)(n := f (crt_svcs r n))"
  by (simp_all add: upd_svc_def)

lemma upd_slot_sel [simp]:
  "crt_pool (upd_slot x f r) = crt_pool r" "crt_slots (upd_slot x f r) = crt_slots r"
  "crt_heap (upd_slot x f r) = (crt_heap r)(x := f (crt_heap r x))" "crt_next (upd_slot x f r) = crt_next r"
  "crt_stopping (upd_slot x f r) = crt_stopping r" "crt_names (upd_slot x f r) = crt_names r"
  "crt_svcs (upd_slot x f r) = crt_svcs r"
  by (simp_all add: upd_slot_def)

lemma slot_keys_svc [simp]: "slot_keys (upd_svc n f r) = slot_keys r"
  by (simp add: slot_keys_def)

lemma slot_keys_cong:
  "crt_slots r' = crt_slots r \<Longrightarrow> crt_heap r' = crt_heap r \<Longrightarrow> slot_keys r' = slot_keys r"
  by (simp add: slot_keys_def)

lemma slot_keys_same:
  assumes "so_state (f (crt_heap r x)) = so_state (crt_heap r x)"
    and "so_svc (f (crt_heap r x)) = so_svc (crt_heap r x)"
  shows "slot_keys (upd_slot x f r) = slot_keys r"
  using assms by (auto simp: slot_keys_def intro!: image_mset_cong)

lemma slot_keys_upd:
  assumes "distinct (crt_slots r)" and "x \<in> set (crt_slots r)"
  shows "slot_keys (upd_slot x f r) + {#(so_state (crt_heap r x), so_svc (crt_heap r x))#}
    = slot_keys r + {#(so_state (f (crt_heap r x)), so_svc (f (crt_heap r x)))#}"
proof -
  let ?k = "\<lambda>h y. (so_state (h y), so_svc (h y))"
  obtain M where M: "mset (crt_slots r) = add_mset x M" using assms(2) by (metis insert_DiffM set_mset_mset)
  have "x \<notin># M" using assms(1) M by (metis count_add_mset distinct_count_atmost_1 not_in_iff
      in_multiset_in_set assms(2) Suc_inject One_nat_def)
  then have "image_mset (?k ((crt_heap r)(x := f (crt_heap r x)))) M = image_mset (?k (crt_heap r)) M"
    by (intro image_mset_cong) auto
  then show ?thesis by (simp add: slot_keys_def M)
qed

lemma slot_keys_remove:
  assumes "x \<in> set (crt_slots r)"
  shows "slot_keys (r\<lparr>crt_slots := remove1 x (crt_slots r)\<rparr>) + {#(so_state (crt_heap r x), so_svc (crt_heap r x))#}
    = slot_keys r"
proof -
  obtain M where "mset (crt_slots r) = add_mset x M" using assms by (metis insert_DiffM set_mset_mset)
  then show ?thesis by (simp add: slot_keys_def)
qed

text \<open>
  A step that leaves the limits, the stop flag and the set of slots as they are, and every counter in
  agreement, keeps the invariant.
\<close>

lemma cinv_live: "cinv s \<Longrightarrow> cpc s x \<in> {CRun, CEnd, CDrop} \<Longrightarrow> x \<in> set (crt_slots (crt s)) \<and> distinct (crt_slots (crt s))"
  by (simp add: cinv_def live_ok_def)

lemma cinv_svc: "cinv s \<Longrightarrow>
    svc_ok (cp_MaxIdle (crt_pool (crt s))) (slot_keys (crt s)) (cpend s n) n (crt_svcs (crt s) n)"
  by (simp add: cinv_def)

lemma cinvI:
  assumes "cinv s" and "crt_pool (crt s') = crt_pool (crt s)"
    and "live_ok (crt s') (cpc s')" and "closing_ok (crt s') (cpc s') (cobl s')"
    and "\<And>n. svc_ok (cp_MaxIdle (crt_pool (crt s))) (slot_keys (crt s')) (cpend s' n) n (crt_svcs (crt s') n)"
  shows "cinv s'"
  using assms by (simp add: cinv_def)

text \<open>A slot \<open>x\<close> that changes state from \<open>a\<close> to \<open>b\<close>; the counters of its service follow.\<close>

lemma svc_ok_move:
  assumes "K' + {#(a, m)#} = K + {#(b, m)#}" and "svc_ok mx K p n v"
    and "m \<noteq> n \<Longrightarrow> v' = v"
    and "m = n \<Longrightarrow> cs_connecting v' = cs_connecting v
        - (if a = Connecting then 1 else 0) + (if b = Connecting then 1 else 0)
      \<and> cs_idle v' = cs_idle v - (if a = IdleSlot then 1 else 0) + (if b = IdleSlot then 1 else 0)
      \<and> cs_idle v' + cs_connecting v' \<le> mx \<and> cs_backoff v' = cs_backoff v"
  shows "svc_ok mx K' p n v'"
proof -
  have "count K' z + (if z = (a, m) then 1 else 0) = count K z + (if z = (b, m) then 1 else 0)" for z
    using arg_cong [OF assms(1), of "\<lambda>M. count M z"] by (auto split: if_splits)
  from this [of "(Connecting, n)"] this [of "(IdleSlot, n)"] assms(2-4) show ?thesis
    by (cases "m = n"; cases a; cases b) (auto simp: svc_ok_def)
qed

lemma slot_move:
  assumes inv: "cinv s" and x: "cpc s x = CRun" and st: "so_state (crt_heap (crt s) x) = a"
    and f: "\<And>y. so_state (f y) = b \<and> so_svc (f y) = so_svc y \<and> so_conn (f y) = so_conn y \<and> so_tcp (f y) = so_tcp y"
    and g: "cs_connecting (g (crt_svcs (crt s) (svc_of (crt s) x))) = cs_connecting (crt_svcs (crt s) (svc_of (crt s) x))
        - (if a = Connecting then 1 else 0) + (if b = Connecting then 1 else 0)
      \<and> cs_idle (g (crt_svcs (crt s) (svc_of (crt s) x))) = cs_idle (crt_svcs (crt s) (svc_of (crt s) x))
        - (if a = IdleSlot then 1 else 0) + (if b = IdleSlot then 1 else 0)
      \<and> cs_idle (g (crt_svcs (crt s) (svc_of (crt s) x))) + cs_connecting (g (crt_svcs (crt s) (svc_of (crt s) x)))
        \<le> cp_MaxIdle (crt_pool (crt s))
      \<and> cs_backoff (g (crt_svcs (crt s) (svc_of (crt s) x))) = cs_backoff (crt_svcs (crt s) (svc_of (crt s) x))"
    and r': "r' = upd_svc (svc_of (crt s) x) g (upd_slot x f (crt s))"
    and cl: "crt_stopping (crt s) \<Longrightarrow> a \<noteq> BusySlot \<or> b = BusySlot"
  shows "cinv (s\<lparr>crt := r'\<rparr>)"
proof (rule cinvI [OF inv])
  have l: "x \<in> set (crt_slots (crt s))" "distinct (crt_slots (crt s))" using cinv_live [OF inv, of x] x by auto
  have c: "closing_ok (crt s) (cpc s) (cobl s)" using inv by (simp add: cinv_def)
  show "live_ok (crt (s\<lparr>crt := r'\<rparr>)) (cpc (s\<lparr>crt := r'\<rparr>))"
    using inv by (simp add: cinv_def live_ok_def r')
  show "closing_ok (crt (s\<lparr>crt := r'\<rparr>)) (cpc (s\<lparr>crt := r'\<rparr>)) (cobl (s\<lparr>crt := r'\<rparr>))"
    using c f cl st x by (auto simp: closing_ok_def r')
  have k: "slot_keys r' + {#(a, svc_of (crt s) x)#} = slot_keys (crt s) + {#(b, svc_of (crt s) x)#}"
    using slot_keys_upd [OF l(2,1), of f] f st by (simp add: r' svc_of_def)
  show "svc_ok (cp_MaxIdle (crt_pool (crt s))) (slot_keys (crt (s\<lparr>crt := r'\<rparr>))) (cpend (s\<lparr>crt := r'\<rparr>) n) n
      (crt_svcs (crt (s\<lparr>crt := r'\<rparr>)) n)" for n
    using svc_ok_move [OF k cinv_svc [OF inv, of n]] g by (auto simp: r')
qed (simp add: r')

lemma cinv_register:
  assumes "cinv s" and "cpc s x = CRun" and "so_state (crt_heap (crt s) x) = Connecting"
  shows "cinv (s\<lparr>crt := slot_registered x (crt s)\<rparr>)"
  using cinv_svc [OF assms(1), of "svc_of (crt s) x"]
  by (intro slot_move [OF assms, where b = IdleSlot]) (auto simp: slot_registered_def svc_ok_def)

lemma cinv_busy:
  assumes "cinv s" and "cpc s x = CRun" and "so_state (crt_heap (crt s) x) = IdleSlot"
  shows "cinv (s\<lparr>crt := slot_busy x (crt s)\<rparr>)"
  using cinv_svc [OF assms(1), of "svc_of (crt s) x"]
  by (intro slot_move [OF assms, where b = BusySlot]) (auto simp: slot_busy_def svc_ok_def)

text \<open>A goroutine that moves on without touching the runtime.\<close>

lemma cinv_pc:
  assumes "cinv s" and "cpc s x = CRun" and "c \<in> {CRun, CEnd}"
  shows "cinv (s\<lparr>cpc := (cpc s)(x := c)\<rparr>)"
proof (rule cinvI [OF assms(1)])
  show "live_ok (crt (s\<lparr>cpc := (cpc s)(x := c)\<rparr>)) (cpc (s\<lparr>cpc := (cpc s)(x := c)\<rparr>))"
    using assms by (auto simp: cinv_def live_ok_def)
  show "closing_ok (crt (s\<lparr>cpc := (cpc s)(x := c)\<rparr>)) (cpc (s\<lparr>cpc := (cpc s)(x := c)\<rparr>)) (cobl (s\<lparr>cpc := (cpc s)(x := c)\<rparr>))"
    using assms by (auto simp: cinv_def closing_ok_def)
qed (use cinv_svc [OF assms(1)] in auto)

lemma cinv_decide:
  assumes "cinv s" and "cpc s x = CRun" and "so_state (crt_heap (crt s) x) = BusySlot"
    and "release_decide x (crt s) = (r', surplus)"
  shows "cinv (s\<lparr>crt := r', cpc := (cpc s)(x := if surplus then CEnd else CRun)\<rparr>)"
proof (cases surplus)
  case True
  then have "r' = crt s" using assms(4) by (auto simp: release_decide_def Let_def split: if_splits)
  then show ?thesis using cinv_pc [OF assms(1,2), of CEnd] True by simp
next
  case False
  let ?g = "\<lambda>v. v\<lparr>cs_idle := cs_idle v + 1\<rparr>"
  have r: "r' = upd_svc (svc_of (crt s) x) ?g (upd_slot x (\<lambda>y. y\<lparr>so_state := IdleSlot\<rparr>) (crt s))"
    "\<not> crt_stopping (crt s)"
    "cs_idle (crt_svcs (crt s) (svc_of (crt s) x)) + cs_connecting (crt_svcs (crt s) (svc_of (crt s) x))
      < cp_MaxIdle (crt_pool (crt s))"
    using assms(4) False by (auto simp: release_decide_def Let_def split: if_splits)
  have "cinv (s\<lparr>crt := r'\<rparr>)"
    using r(2,3) by (intro slot_move [OF assms(1-3), where b = IdleSlot, OF _ _ r(1)]) auto
  then show ?thesis using False assms(2) by (simp add: fun_upd_idem)
qed

text \<open>Steps that change one service and nothing about the slots.\<close>

lemma cinv_service:
  assumes "cinv s" and "svc_ok (cp_MaxIdle (crt_pool (crt s))) (slot_keys (crt s)) p n (f (crt_svcs (crt s) n))"
  shows "cinv (s\<lparr>crt := upd_svc n f (crt s), cpend := (cpend s)(n := p)\<rparr>)"
  using assms by (auto simp: cinv_def live_ok_def closing_ok_def)

lemma cinv_control:
  assumes "cinv s" and "control_top ctx now n (crt s) = (r', a)"
  shows "cinv (s\<lparr>crt := r', cpend := (cpend s)(n := cpend s n + spawned a)\<rparr>)"
proof (cases a)
  case (CtlSpawn k)
  let ?need = "cp_MinIdle (crt_pool (crt s)) - cs_idle (crt_svcs (crt s) n) - cs_connecting (crt_svcs (crt s) n)"
  let ?f = "\<lambda>v. v\<lparr>cs_connecting := cs_connecting v + ?need\<rparr>"
  have k: "k = nat ?need" "0 < ?need" "r' = upd_svc n ?f (crt s)"
    using assms(2) CtlSpawn by (auto simp: control_top_def Let_def split: if_splits)
  moreover have "cp_MinIdle (crt_pool (crt s)) \<le> cp_MaxIdle (crt_pool (crt s))"
    using assms(1) valid_pool by (simp add: cinv_def)
  ultimately show ?thesis
    using cinv_service [OF assms(1), of "cpend s n + k" n ?f] cinv_svc [OF assms(1), of n] CtlSpawn
    by (auto simp: svc_ok_def)
qed (use assms in \<open>auto simp: control_top_def Let_def split: if_splits\<close>)

lemma cinv_upd_same:
  assumes "cinv s" and "\<And>v. cs_connecting (f v) = cs_connecting v \<and> cs_idle (f v) = cs_idle v \<and> cs_backoff (f v) = cs_backoff v"
  shows "cinv (s\<lparr>crt := upd_svc n f (crt s)\<rparr>)"
  using cinv_service [OF assms(1), of "cpend s n" n f] cinv_svc [OF assms(1), of n] assms(2)
  by (simp add: svc_ok_def)

lemma cinv_wake: "cinv s \<Longrightarrow> cinv (s\<lparr>crt := wake_service n (crt s)\<rparr>)"
  and cinv_woken: "cinv s \<Longrightarrow> cinv (s\<lparr>crt := control_woken n (crt s)\<rparr>)"
  unfolding wake_service_def control_woken_def by (rule cinv_upd_same; simp)+

lemma cinv_spawn:
  assumes "cinv s" and "0 < cpend s n" and "runConn_start n (crt s) = (r', x)"
  shows "cinv (s\<lparr>crt := r', cpc := (cpc s)(x := CRun), cpend := (cpend s)(n := cpend s n - 1)\<rparr>)"
proof (rule cinvI [OF assms(1)])
  let ?y = "\<lparr>so_conn = None, so_tcp = None, so_state = Connecting, so_svc = n\<rparr>"
  let ?s' = "s\<lparr>crt := r', cpc := (cpc s)(x := CRun), cpend := (cpend s)(n := cpend s n - 1)\<rparr>"
  have r: "r' = (crt s)\<lparr>crt_heap := (crt_heap (crt s))(x := ?y), crt_next := Suc x, crt_slots := x # crt_slots (crt s)\<rparr>"
    "x = crt_next (crt s)"
    using assms(3) by (auto simp: runConn_start_def Let_def)
  have x: "cpc s x = CNone" "x \<notin> set (crt_slots (crt s))" using assms(1) r(2) by (auto simp: cinv_def live_ok_def)
  show "live_ok (crt ?s') (cpc ?s')" using assms(1) x r by (auto simp: cinv_def live_ok_def)
  show "closing_ok (crt ?s') (cpc ?s') (cobl ?s')" using assms(1) r(1) by (auto simp: cinv_def closing_ok_def)
  have k: "slot_keys r' = add_mset (Connecting, n) (slot_keys (crt s))"
    using x(2) by (auto simp: slot_keys_def r(1) intro!: image_mset_cong)
  show "svc_ok (cp_MaxIdle (crt_pool (crt s))) (slot_keys (crt ?s')) (cpend ?s' m) m (crt_svcs (crt ?s') m)" for m
  proof -
    have "crt_svcs r' = crt_svcs (crt s)" by (simp add: r(1))
    then show ?thesis using cinv_svc [OF assms(1), of m] assms(2) k by (auto simp: svc_ok_def)
  qed
qed (use assms(3) in \<open>auto simp: runConn_start_def Let_def\<close>)

text \<open>Steps that change what a slot holds, but not its state.\<close>

lemma cinv_slot_same:
  assumes "cinv s" and "\<And>y. so_state (f y) = so_state y \<and> so_svc (f y) = so_svc y"
    and "live_ok (crt s) p" and "closing_ok (upd_slot x f (crt s)) p (cobl s)"
  shows "cinv (s\<lparr>crt := upd_slot x f (crt s), cpc := p\<rparr>)"
  using assms cinv_svc [OF assms(1)] slot_keys_same [of f "crt s" x]
  by (intro cinvI [OF assms(1)]) (auto simp: live_ok_def)

lemma cinv_attach:
  assumes "cinv s" and "cpc s x = CRun" and "attach_conn x k (crt s) = (r', ok)"
  shows "cinv (s\<lparr>crt := r', cpc := (cpc s)(x := if ok then CRun else CEnd)\<rparr>)"
proof (cases ok)
  case True
  then have "r' = upd_slot x (\<lambda>y. y\<lparr>so_conn := Some k\<rparr>) (crt s)" "\<not> crt_stopping (crt s)"
    using assms(3) by (auto simp: attach_conn_def split: if_splits)
  then show ?thesis
    using True assms(1,2) cinv_slot_same [OF assms(1), of "\<lambda>y. y\<lparr>so_conn := Some k\<rparr>" "cpc s" x]
    by (auto simp: cinv_def closing_ok_def fun_upd_idem)
next
  case False
  then show ?thesis using assms cinv_pc [OF assms(1,2), of CEnd] by (auto simp: attach_conn_def split: if_splits)
qed

lemma cinv_tcp:
  assumes "cinv s" and "cpc s x \<in> {CRun, CEnd}"
  shows "cinv (s\<lparr>crt := setTCP x t (crt s)\<rparr>)"
  using assms cinv_slot_same [OF assms(1), of "\<lambda>y. y\<lparr>so_tcp := t\<rparr>" "cpc s" x]
  by (auto simp: setTCP_def cinv_def closing_ok_def)

lemma cinv_drop:
  assumes "cinv s" and "cpc s x = CEnd" and "drop_slot x (crt s) = (r', t, k)"
  shows "cinv (s\<lparr>crt := r', cpc := (cpc s)(x := CDrop)\<rparr>)"
proof -
  let ?f = "\<lambda>y. y\<lparr>so_conn := None, so_tcp := None\<rparr>"
  have r: "r' = upd_slot x ?f (crt s)" using assms(3) by (simp add: drop_slot_def)
  have l: "live_ok (crt s) (cpc s)" and c: "closing_ok (crt s) (cpc s) (cobl s)"
    using assms(1) by (simp_all add: cinv_def)
  have "live_ok (crt s) ((cpc s)(x := CDrop))" using l assms(2) by (auto simp: live_ok_def)
  moreover have "closing_ok (upd_slot x ?f (crt s)) ((cpc s)(x := CDrop)) (cobl s)"
    using c by (simp add: closing_ok_def)
  ultimately show ?thesis unfolding r by (intro cinv_slot_same [OF assms(1)]) simp_all
qed

text \<open>The end of a connection: its slot goes, its counter with it, and the backoff stays in bounds.\<close>

lemma next_backoff_ok:
  assumes "baseBackoff \<le> cs_backoff v" and "cs_backoff v \<le> maxBackoff"
  shows "baseBackoff \<le> cs_backoff (next_backoff b now rnd v) \<and> cs_backoff (next_backoff b now rnd v) \<le> maxBackoff
    \<and> now \<le> cs_notBefore (next_backoff b now rnd v)
    \<and> cs_notBefore (next_backoff b now rnd v) \<le> now + (if b then baseBackoff else cs_backoff v)"
  using assms pos_mod_sign [of "(if b then baseBackoff else cs_backoff v) + 1" rnd]
    pos_mod_bound [of "(if b then baseBackoff else cs_backoff v) + 1" rnd]
  by (auto simp: next_backoff_def Let_def backoff_defs)

text \<open>The critical section as one update of the service.\<close>

lemma runConn_end_upd:
  "\<exists>f. fst (runConn_end x failing ctx t0 t1 t2 rnd r)
      = upd_svc (svc_of r x) f (r\<lparr>crt_slots := remove1 x (crt_slots r)\<rparr>)
    \<and> (\<forall>v. baseBackoff \<le> cs_backoff v \<longrightarrow> cs_backoff v \<le> maxBackoff \<longrightarrow>
      cs_connecting (f v) = cs_connecting v - (if so_state (crt_heap r x) = Connecting then 1 else 0)
      \<and> cs_idle (f v) = cs_idle v - (if so_state (crt_heap r x) = IdleSlot then 1 else 0)
      \<and> baseBackoff \<le> cs_backoff (f v) \<and> cs_backoff (f v) \<le> maxBackoff)"
proof -
  let ?st = "so_state (crt_heap r x)"
  let ?failed = "failing \<and> \<not> ctx \<and> \<not> crt_stopping r"
  define g where "g v = (case ?st of Connecting \<Rightarrow> v\<lparr>cs_connecting := cs_connecting v - 1\<rparr>
    | IdleSlot \<Rightarrow> v\<lparr>cs_idle := cs_idle v - 1\<rparr> | BusySlot \<Rightarrow> v)" for v :: client_svc
  define h where "h v = (if ?failed then next_backoff (t1 - t0 \<ge> stableAfter) t2 rnd
      (v\<lparr>cs_stats := (if ?st = Connecting then (cs_stats v)\<lparr>s_DialFailures := s_DialFailures (cs_stats v) + 1\<rparr>
        else Retired ''error'' (cs_stats v))\<rparr>)
    else if \<not> failing then v\<lparr>cs_backoff := baseBackoff\<rparr> else v)" for v :: client_svc
  let ?f = "\<lambda>v. (h (g v))\<lparr>cs_wake := True\<rparr>"
  have "fst (runConn_end x failing ctx t0 t1 t2 rnd r)
      = upd_svc (svc_of r x) ?f (r\<lparr>crt_slots := remove1 x (crt_slots r)\<rparr>)"
    by (cases ?st) (auto simp: runConn_end_def Let_def g_def h_def wake_service_def upd_svc_def)
  moreover have "cs_connecting (?f v) = cs_connecting v - (if ?st = Connecting then 1 else 0)
      \<and> cs_idle (?f v) = cs_idle v - (if ?st = IdleSlot then 1 else 0)
      \<and> baseBackoff \<le> cs_backoff (?f v) \<and> cs_backoff (?f v) \<le> maxBackoff"
    if "baseBackoff \<le> cs_backoff v" "cs_backoff v \<le> maxBackoff" for v
    using that by (cases ?st) (auto simp: g_def h_def next_backoff_def Let_def backoff_defs)
  ultimately show ?thesis by (intro exI [of _ ?f]) blast
qed

lemma cinv_finish:
  assumes "cinv s" and "cpc s x = CDrop" and "runConn_end x failing ctx t0 t1 t2 rnd (crt s) = (r', failed)"
  shows "cinv (s\<lparr>crt := r', cpc := (cpc s)(x := CDone)\<rparr>)"
proof (rule cinvI [OF assms(1)])
  let ?s' = "s\<lparr>crt := r', cpc := (cpc s)(x := CDone)\<rparr>"
  let ?n = "svc_of (crt s) x"
  let ?a = "so_state (crt_heap (crt s) x)"
  have l: "x \<in> set (crt_slots (crt s))" "distinct (crt_slots (crt s))" using cinv_live [OF assms(1), of x] assms(2) by auto
  obtain f where r: "r' = upd_svc ?n f ((crt s)\<lparr>crt_slots := remove1 x (crt_slots (crt s))\<rparr>)"
    and f: "\<And>v. baseBackoff \<le> cs_backoff v \<Longrightarrow> cs_backoff v \<le> maxBackoff \<Longrightarrow>
      cs_connecting (f v) = cs_connecting v - (if ?a = Connecting then 1 else 0)
      \<and> cs_idle (f v) = cs_idle v - (if ?a = IdleSlot then 1 else 0)
      \<and> baseBackoff \<le> cs_backoff (f v) \<and> cs_backoff (f v) \<le> maxBackoff"
    using runConn_end_upd [of x failing ctx t0 t1 t2 rnd "crt s"] assms(3) by auto
  have k: "slot_keys r' + {#(?a, ?n)#} = slot_keys (crt s)"
    using slot_keys_remove [OF l(1)] by (simp add: r svc_of_def)
  show "live_ok (crt ?s') (cpc ?s')" using assms(1) l by (auto simp: cinv_def live_ok_def r)
  show "closing_ok (crt ?s') (cpc ?s') (cobl ?s')" using assms(1) by (auto simp: cinv_def closing_ok_def r)
  show "svc_ok (cp_MaxIdle (crt_pool (crt s))) (slot_keys (crt ?s')) (cpend ?s' m) m (crt_svcs (crt ?s') m)" for m
  proof -
    have c: "count (slot_keys (crt s)) z = count (slot_keys r') z + (if z = (?a, ?n) then 1 else 0)" for z
      using arg_cong [OF k, of "\<lambda>M. count M z"] by auto
    show ?thesis
      using cinv_svc [OF assms(1), of m] f [of "crt_svcs (crt s) m"] c [of "(Connecting, m)"] c [of "(IdleSlot, m)"]
      by (cases "m = ?n"; cases ?a) (auto simp: svc_ok_def r)
  qed
  show "crt_pool (crt ?s') = crt_pool (crt s)" by (simp add: r)
qed

lemma cinv_stop:
  assumes "cinv s" and "stop_client (crt s) = (r', ks)"
  shows "cinv (s\<lparr>crt := r', cobl := cobl s \<union> set ks\<rparr>)"
proof (rule cinvI [OF assms(1)])
  let ?s' = "s\<lparr>crt := r', cobl := cobl s \<union> set ks\<rparr>"
  have r: "r' = (crt s)\<lparr>crt_stopping := True\<rparr>" using assms(2) by (simp add: stop_client_def)
  show "live_ok (crt ?s') (cpc ?s')" using assms(1) by (simp add: cinv_def live_ok_def r)
  have "set (opt_list (so_conn (crt_heap (crt s) x))) \<subseteq> set ks"
    if "cpc s x \<in> {CRun, CEnd, CDrop}" "so_state (crt_heap (crt s) x) \<noteq> BusySlot" for x
    using assms(2) that cinv_live [OF assms(1) that(1)] by (auto simp: stop_client_def)
  then show "closing_ok (crt ?s') (cpc ?s') (cobl ?s')"
    using assms(1) by (auto simp: cinv_def closing_ok_def r)
  show "svc_ok (cp_MaxIdle (crt_pool (crt s))) (slot_keys (crt ?s')) (cpend ?s' m) m (crt_svcs (crt ?s') m)" for m
    using cinv_svc [OF assms(1), of m] by (simp add: r slot_keys_def)
qed (use assms(2) in \<open>auto simp: stop_client_def\<close>)

lemma cinv_force: "cinv s \<Longrightarrow> cinv (s\<lparr>cobl := cobl s \<union> ks\<rparr>)"
  by (auto simp: cinv_def closing_ok_def)

lemma cinv_step: assumes "cinv s" and "cstep s s'" shows "cinv s'"
  using assms(2,1)
proof (induction rule: cstep.induct)
  case (c_return s x)
  then show ?case using cinv_pc [of s x CEnd] by simp
qed (rule cinv_control cinv_woken cinv_spawn cinv_attach cinv_register cinv_busy cinv_decide cinv_tcp cinv_wake
    cinv_drop cinv_finish cinv_stop cinv_force; assumption)+

interpretation client_sys: inv_system csys_start cstep cinv
  by unfold_locales (auto intro: cinv_start cinv_step)

end
