(* ===== verification/Client_Props.thy ===== *)
theory Client_Props
  imports Client_System
begin

text \<open>
  Properties of the client runtime in every reachable state: the counters agree with the slots, the
  number of connections is bounded, reconnects are delayed within bounds, and shutdown reaches every
  connection.
\<close>

definition slots_in :: "slotState \<Rightarrow> string \<Rightarrow> client_rt \<Rightarrow> nat list" where
  "slots_in st n r = filter (\<lambda>x. so_state (crt_heap r x) = st \<and> svc_of r x = n) (crt_slots r)"

lemma count_slot_keys: "count (slot_keys r) (st, n) = length (slots_in st n r)"
proof -
  have "count (image_mset f (mset xs)) y = length (filter (\<lambda>x. f x = y) xs)" for f :: "nat \<Rightarrow> slotState \<times> string" and xs y
    by (induction xs) auto
  then show ?thesis by (simp add: slot_keys_def slots_in_def svc_of_def)
qed

text \<open>
  C5. The counters of a service are exact. In every reachable state, under every interleaving,
  \<open>connecting\<close> is the number of its connections being dialled (including goroutines just started),
  \<open>idle\<close> the number of its registered connections without a lease, and their sum never exceeds
  \<open>MaxIdle\<close>; so what \<open>snapshot\<close> reports is what there is.
\<close>

theorem client_counters:
  assumes "creach s"
  shows "cs_connecting (crt_svcs (crt s) n) = int (cpend s n + length (slots_in Connecting n (crt s)))
    \<and> cs_idle (crt_svcs (crt s) n) = int (length (slots_in IdleSlot n (crt s)))
    \<and> cs_idle (crt_svcs (crt s) n) + cs_connecting (crt_svcs (crt s) n) \<le> cp_MaxIdle (crt_pool (crt s))
    \<and> snapshot (crt s) n = (if n \<in> set (crt_names (crt s))
        then Some \<lparr>sl_Connecting = int (cpend s n + length (slots_in Connecting n (crt s))),
          sl_Idle = int (length (slots_in IdleSlot n (crt s))),
          sl_Busy = int (length (slots_in BusySlot n (crt s)))\<rparr>
        else None)"
  using cinv_svc [OF client_sys.inv_reach [OF assms], of n]
  by (simp add: svc_ok_def count_slot_keys snapshot_def slots_in_def)

text \<open>
  The controller. In every reachable state a pass of the controller leaves exactly when the
  client is stopping or its context is done; otherwise, once the backoff has passed, it starts as
  many connections as are missing to \<open>MinIdle\<close>, and none beyond: afterwards idle and connecting
  connections together are at least \<open>MinIdle\<close>, unless it is waiting for the backoff.
\<close>

theorem control_keeps_min:
  assumes "creach s" and "control_top ctx now n (crt s) = (r', a)"
  shows "case a of
      CtlExit \<Rightarrow> crt_stopping (crt s) \<or> ctx
    | CtlWait d \<Rightarrow> 0 < d \<and> now + d = cs_notBefore (crt_svcs (crt s) n) \<and> r' = crt s
    | CtlSpawn k \<Rightarrow> 0 < k \<and> cs_notBefore (crt_svcs (crt s) n) \<le> now
        \<and> cs_idle (crt_svcs r' n) + cs_connecting (crt_svcs r' n) = cp_MinIdle (crt_pool (crt s))
        \<and> cs_connecting (crt_svcs r' n) = cs_connecting (crt_svcs (crt s) n) + int k
    | CtlSleep \<Rightarrow> cp_MinIdle (crt_pool (crt s)) \<le> cs_idle (crt_svcs (crt s) n) + cs_connecting (crt_svcs (crt s) n)
        \<and> r' = crt s"
  using assms(2) by (auto simp: control_top_def Let_def split: if_splits)

text \<open>
  Reconnect backoff. In every reachable state the backoff of a service is between 250 ms and
  30 s. When a connection fails, the next dial is delayed by a random time of at most the backoff (at
  most 250 ms if the connection had lasted 30 s), and the backoff doubles up to 30 s; when one ends
  without error it is 250 ms again. The goroutine leaves the map and wakes the controller.
\<close>

theorem reconnect_backoff:
  assumes "creach s" and "cpc s x = CDrop"
    and "runConn_end x failing ctx t0 t1 t2 rnd (crt s) = (r', failed)"
  shows "let n = svc_of (crt s) x; v = crt_svcs (crt s) n; v' = crt_svcs r' n;
      b = (if t1 - t0 \<ge> 30 * second then 250 * millisecond else cs_backoff v)
    in 250 * millisecond \<le> cs_backoff v \<and> cs_backoff v \<le> 30 * second
      \<and> failed = (failing \<and> \<not> ctx \<and> \<not> crt_stopping (crt s))
      \<and> (if failed then t2 \<le> cs_notBefore v' \<and> cs_notBefore v' \<le> t2 + b
            \<and> cs_backoff v' = min (2 * b) (30 * second)
         else cs_notBefore v' = cs_notBefore v
            \<and> cs_backoff v' = (if failing then cs_backoff v else 250 * millisecond))
      \<and> cs_wake v' \<and> x \<notin> set (crt_slots r')"
proof -
  have inv: "cinv s" using assms(1) by (rule client_sys.inv_reach)
  have l: "distinct (crt_slots (crt s))" using cinv_live [OF inv, of x] assms(2) by simp
  have b: "baseBackoff \<le> cs_backoff (crt_svcs (crt s) (svc_of (crt s) x))"
    "cs_backoff (crt_svcs (crt s) (svc_of (crt s) x)) \<le> maxBackoff"
    using cinv_svc [OF inv, of "svc_of (crt s) x"] by (auto simp: svc_ok_def)
  define b0 where "b0 = (if t1 - t0 \<ge> 30 * second then 250 * millisecond
      else cs_backoff (crt_svcs (crt s) (svc_of (crt s) x)))"
  have "0 < b0 + 1" using b by (auto simp: b0_def backoff_defs)
  then have m: "0 \<le> rnd mod (b0 + 1)" "rnd mod (b0 + 1) \<le> b0"
    using pos_mod_sign [of "b0 + 1" rnd] pos_mod_bound [of "b0 + 1" rnd] by auto
  have r: "crt_slots r' = remove1 x (crt_slots (crt s))"
    using runConn_end_upd [of x failing ctx t0 t1 t2 rnd "crt s"] assms(3) by auto
  have f: "failed = (failing \<and> \<not> ctx \<and> \<not> crt_stopping (crt s))"
    using assms(3) by (auto simp: runConn_end_def Let_def wake_service_def split: slotState.splits)
  have v: "cs_wake (crt_svcs r' (svc_of (crt s) x))"
    "cs_notBefore (crt_svcs r' (svc_of (crt s) x)) = (if failed then t2 + rnd mod (b0 + 1)
      else cs_notBefore (crt_svcs (crt s) (svc_of (crt s) x)))"
    "cs_backoff (crt_svcs r' (svc_of (crt s) x)) = (if failed then min (2 * b0) (30 * second)
      else if failing then cs_backoff (crt_svcs (crt s) (svc_of (crt s) x)) else 250 * millisecond)"
    using assms(3) f unfolding b0_def
    by (auto simp: runConn_end_def Let_def wake_service_def next_backoff_def baseBackoff_def maxBackoff_def
        stableAfter_def split: slotState.splits if_splits)
  show ?thesis
    using b f m v l by (auto simp: Let_def r b0_def [symmetric] baseBackoff_def maxBackoff_def)
qed

text \<open>
  C19. Shutdown of the client. In every reachable state in which it is stopping: no connection is
  started or attached any more, every lease that ends closes its connection, and every connection
  in the map that is not serving a lease has been collected for closing. When the last slot is gone
  none is left.
\<close>

theorem client_shutdown:
  assumes "creach s" and "crt_stopping (crt s)"
  shows "snd (control_top ctx now n (crt s)) = CtlExit \<and> fst (control_top ctx now n (crt s)) = crt s
    \<and> attach_conn x k (crt s) = (crt s, False) \<and> release_decide x (crt s) = (crt s, True)
    \<and> (\<forall>y \<in> set (crt_slots (crt s)). case so_conn (crt_heap (crt s) y) of
         None \<Rightarrow> True | Some c \<Rightarrow> so_state (crt_heap (crt s) y) = BusySlot \<or> c \<in> cobl s)
    \<and> (\<forall>c. c \<in> set (fst (force_client (crt s))) \<longleftrightarrow>
         (\<exists>y \<in> set (crt_slots (crt s)). so_conn (crt_heap (crt s) y) = Some c))"
proof -
  have inv: "cinv s" using assms(1) by (rule client_sys.inv_reach)
  have "so_state (crt_heap (crt s) y) = BusySlot \<or> c \<in> cobl s"
    if "y \<in> set (crt_slots (crt s))" "so_conn (crt_heap (crt s) y) = Some c" for y c
    using inv assms(2) that by (fastforce simp: cinv_def live_ok_def closing_ok_def)
  moreover have "c \<in> set (fst (force_client (crt s))) \<longleftrightarrow>
      (\<exists>y \<in> set (crt_slots (crt s)). so_conn (crt_heap (crt s) y) = Some c)" for c
    by (auto simp: force_client_def opt_list_def split: option.splits) metis
  ultimately show ?thesis
    using assms(2) by (auto simp: control_top_def attach_conn_def release_decide_def Let_def split: option.split)
qed

subsection \<open>A concrete run\<close>

text \<open>
  A client with \<open>MinIdle\<close> = 1: one connection is started, attached, registered and leased; then the
  client stops. In the other branch the dial fails.
\<close>

definition demo_pool :: client_pool where
  "demo_pool = default_client_pool\<lparr>cp_MinIdle := 1, cp_IdleJitter := 0, cp_LifetimeJitter := 0\<rparr>"

definition crun0 :: csys where
  "crun0 = \<lparr>crt = new_client demo_pool [''a''], cpc = (\<lambda>_. CNone), cpend = (\<lambda>_. 0), cobl = {}\<rparr>"

definition crun1 :: csys where
  "crun1 = crun0\<lparr>crt := fst (control_top False 0 ''a'' (crt crun0)), cpend := (cpend crun0)(''a'' := cpend crun0 ''a'' + 1)\<rparr>"

definition crun2 :: csys where
  "crun2 = crun1\<lparr>crt := fst (runConn_start ''a'' (crt crun1)), cpc := (cpc crun1)(0 := CRun),
     cpend := (cpend crun1)(''a'' := cpend crun1 ''a'' - 1)\<rparr>"

definition crun3 :: csys where
  "crun3 = crun2\<lparr>crt := fst (attach_conn 0 50 (crt crun2)), cpc := (cpc crun2)(0 := CRun)\<rparr>"

definition crun4 :: csys where "crun4 = crun3\<lparr>crt := slot_registered 0 (crt crun3)\<rparr>"

definition crun5 :: csys where
  "crun5 = crun4\<lparr>crt := fst (stop_client (crt crun4)), cobl := cobl crun4 \<union> set (snd (stop_client (crt crun4)))\<rparr>"

definition crun6 :: csys where "crun6 = crun2\<lparr>cpc := (cpc crun2)(0 := CEnd)\<rparr>"

definition crun7 :: csys where
  "crun7 = crun6\<lparr>crt := fst (drop_slot 0 (crt crun6)), cpc := (cpc crun6)(0 := CDrop)\<rparr>"

lemmas crun_defs = crun0_def crun1_def crun2_def crun3_def crun4_def crun5_def crun6_def crun7_def

lemma demo_pool_valid: "ValidatePool demo_pool = None"
  by (simp add: demo_pool_def default_client_pool_def ValidatePool_def time_consts)

lemma demo_control: "control_top False 0 ''a'' (crt crun0) = (crt crun1, CtlSpawn 1)"
  by (simp add: crun1_def crun0_def control_top_def new_client_def new_service_def demo_pool_def
      default_client_pool_def Let_def zero_instant_def time_consts)

lemmas crun_eval = crun_defs control_top_def runConn_start_def attach_conn_def slot_registered_def new_client_def
  new_service_def demo_pool_def default_client_pool_def drop_slot_def Let_def zero_instant_def time_consts svc_of_def

lemma crun_reach: "creach crun2" "creach crun5" "creach crun7" "creach crun0"
proof -
  show 0: "creach crun0"
    by (rule reach_start) (auto simp: csys_start_def crun0_def intro: demo_pool_valid)
  have "cstep crun0 crun1" unfolding crun1_def
    using c_control [OF demo_control] by (simp add: crun1_def)
  with 0 have 1: "creach crun1" by (rule reach_step)
  have p: "0 < cpend crun1 ''a''" "runConn_start ''a'' (crt crun1) = (crt crun2, 0)"
    by (simp_all add: crun_eval)
  then have "cstep crun1 crun2" unfolding crun2_def using c_spawn [OF p] by (simp add: crun2_def)
  with 1 show 2: "creach crun2" by (rule reach_step)
  have a: "cpc crun2 0 = CRun" "so_state (crt_heap (crt crun2) 0) = Connecting" "so_conn (crt_heap (crt crun2) 0) = None"
    "attach_conn 0 50 (crt crun2) = (crt crun3, True)"
    by (simp_all add: crun_eval)
  have "cstep crun2 crun3" unfolding crun3_def using c_attach [OF a] by (simp add: crun3_def)
  with 2 have 3: "creach crun3" by (rule reach_step)
  have "cpc crun3 0 = CRun" "so_state (crt_heap (crt crun3) 0) = Connecting" by (simp_all add: crun_eval)
  then have "cstep crun3 crun4" unfolding crun4_def by (rule c_register)
  with 3 have 4: "creach crun4" by (rule reach_step)
  have "cstep crun4 crun5" unfolding crun5_def by (rule c_stop) simp
  with 4 show "creach crun5" by (rule reach_step)
  have "cstep crun2 crun6" unfolding crun6_def using a(1) by (rule c_return)
  with 2 have 6: "creach crun6" by (rule reach_step)
  have "cpc crun6 0 = CEnd" by (simp add: crun6_def)
  then have "cstep crun6 crun7" unfolding crun7_def
    by (rule c_drop [where t = "so_tcp (crt_heap (crt crun6) 0)" and k = "so_conn (crt_heap (crt crun6) 0)"])
      (simp add: drop_slot_def)
  with 6 show "creach crun7" by (rule reach_step)
qed

theorem client_counters_witness:
  "cs_connecting (crt_svcs (crt crun2) ''a'') = 1 \<and> cs_idle (crt_svcs (crt crun2) ''a'') = 0
    \<and> snapshot (crt crun2) ''a'' = Some \<lparr>sl_Connecting = 1, sl_Idle = 0, sl_Busy = 0\<rparr>"
proof -
  have "slots_in Connecting ''a'' (crt crun2) = [0]" "slots_in IdleSlot ''a'' (crt crun2) = []"
    "slots_in BusySlot ''a'' (crt crun2) = []" "cpend crun2 ''a'' = 0" "crt_names (crt crun2) = [''a'']"
    by (simp_all add: slots_in_def crun_eval)
  with client_counters [OF crun_reach(1), of "''a''"] show ?thesis by simp
qed

theorem control_keeps_min_witness:
  "cs_idle (crt_svcs (crt crun1) ''a'') + cs_connecting (crt_svcs (crt crun1) ''a'') = 1"
  using control_keeps_min [OF crun_reach(4) demo_control]
  by (simp add: crun0_def new_client_def demo_pool_def)

theorem reconnect_backoff_witness:
  "let v = crt_svcs (fst (runConn_end 0 True False 0 second second 77 (crt crun7))) ''a''
    in second \<le> cs_notBefore v \<and> cs_notBefore v \<le> 2 * second \<and> cs_backoff v = 500 * millisecond"
proof -
  have p: "cpc crun7 0 = CDrop" by (simp add: crun7_def)
  have n: "svc_of (crt crun7) 0 = ''a''" "\<not> crt_stopping (crt crun7)"
    "cs_backoff (crt_svcs (crt crun7) ''a'') = 250 * millisecond"
    by (simp_all add: crun_eval baseBackoff_def)
  obtain r' failed where r: "runConn_end 0 True False 0 second second 77 (crt crun7) = (r', failed)"
    by (cases "runConn_end 0 True False 0 second second 77 (crt crun7)")
  from reconnect_backoff [OF crun_reach(3) p r] n show ?thesis
    by (simp add: Let_def r) (auto simp: time_consts)
qed

theorem client_shutdown_witness:
  "attach_conn 3 9 (crt crun5) = (crt crun5, False) \<and> so_conn (crt_heap (crt crun5) 0) = Some 50 \<and> 50 \<in> cobl crun5"
proof -
  have s: "crt_stopping (crt crun5)" by (simp add: crun5_def stop_client_def)
  have "0 \<in> set (crt_slots (crt crun5))" "so_conn (crt_heap (crt crun5) 0) = Some 50"
    "so_state (crt_heap (crt crun5) 0) = IdleSlot"
    by (simp_all add: crun_eval stop_client_def)
  with client_shutdown [OF crun_reach(2) s, of False 0 "''a''" 3 9] show ?thesis by force
qed

end
