(* ===== verification/Worker_Props.thy ===== *)
theory Worker_Props
  imports Client_Worker Config_Props Pool_System
begin

text \<open>
  Properties of the two ends of a tunnel connection: what timings the server accepts, who gets
  registered, and that the goroutines of the server and the client follow the life cycle the pool
  and the client runtime assume of them.
\<close>

subsection \<open>Timings\<close>

text \<open>The product stays within 64 bits.\<close>

lemma ms_exact: "0 \<le> v \<Longrightarrow> v \<le> 2 ^ 40 \<Longrightarrow> ms v = v * 1000000"
proof -
  assume v: "0 \<le> v" "v \<le> 2 ^ 40"
  have "sint (word_of_int (v * 1000000) :: 64 word) = signed_take_bit 63 (v * 1000000)"
    by (simp only: sint_sbintrunc') simp
  also have "\<dots> = v * 1000000"
    using v by (intro signed_take_bit_int_eq_self) auto
  finally have "sint ((word_of_int v :: 64 word) * word_of_int 1000000) = v * 1000000"
    by (simp only: of_int_mult)
  then show ?thesis using v by (simp add: ms_def time_consts)
qed

lemma ms_out: "v < 0 \<or> 2 ^ 40 < v \<Longrightarrow> ms v = - 1"
  by (auto simp: ms_def)

lemma ms_between:
  assumes "0 \<le> a" and "b \<le> 2 ^ 40"
  shows "a * 1000000 \<le> ms v \<and> ms v \<le> b * 1000000 \<longleftrightarrow> a \<le> v \<and> v \<le> b"
proof (cases "0 \<le> v \<and> v \<le> 2 ^ 40")
  case True
  then show ?thesis by (simp add: ms_exact)
next
  case False
  then have "ms v = - 1" by (intro ms_out) auto
  then show ?thesis using assms False by auto
qed

lemma ms_jitter:
  assumes "0 \<le> v" and "v \<le> 2 ^ 40"
  shows "0 \<le> ms j \<and> ms j \<le> ms v \<longleftrightarrow> 0 \<le> j \<and> j \<le> v"
proof (cases "0 \<le> j \<and> j \<le> 2 ^ 40")
  case True
  then show ?thesis using assms by (simp add: ms_exact)
next
  case False
  then have "ms j = - 1" by (intro ms_out) auto
  then show ?thesis using assms False by auto
qed

definition params_ok :: "pool_params \<Rightarrow> bool" where
  "params_ok p \<longleftrightarrow> HeartbeatMS p \<in> {1000..600000} \<and> IdleTimeoutMS p \<in> {1000..86400000}
     \<and> IdleJitterMS p \<in> {0..IdleTimeoutMS p} \<and> MaxLifetimeMS p \<in> {1000..604800000}
     \<and> LifetimeJitterMS p \<in> {0..MaxLifetimeMS p}"

definition params_options :: "pool_params \<Rightarrow> options" where
  "params_options p = \<lparr>Heartbeat = HeartbeatMS p * millisecond, IdleTimeout = IdleTimeoutMS p * millisecond,
     IdleJitter = IdleJitterMS p * millisecond, MaxLifetime = MaxLifetimeMS p * millisecond,
     LifetimeJitter = LifetimeJitterMS p * millisecond\<rparr>"

lemma poolOptions_iff:
  "(case poolOptions p of Inr os \<Rightarrow> params_ok p \<and> os = params_options p | Inl e \<Rightarrow> \<not> params_ok p)"
proof -
  let ?c = "\<lparr>cp_MinIdle = 1, cp_MaxIdle = 1, cp_Heartbeat = ms (HeartbeatMS p),
      cp_IdleTimeout = ms (IdleTimeoutMS p), cp_IdleJitter = ms (IdleJitterMS p),
      cp_MaxLifetime = ms (MaxLifetimeMS p), cp_LifetimeJitter = ms (LifetimeJitterMS p)\<rparr>"
  have b: "ms (HeartbeatMS p) \<in> {second..10 * minute} \<longleftrightarrow> HeartbeatMS p \<in> {1000..600000}"
    "ms (IdleTimeoutMS p) \<in> {second..24 * hour} \<longleftrightarrow> IdleTimeoutMS p \<in> {1000..86400000}"
    "ms (MaxLifetimeMS p) \<in> {second..7 * 24 * hour} \<longleftrightarrow> MaxLifetimeMS p \<in> {1000..604800000}"
    using ms_between [of 1000 600000 "HeartbeatMS p"] ms_between [of 1000 86400000 "IdleTimeoutMS p"]
      ms_between [of 1000 604800000 "MaxLifetimeMS p"]
    by (simp_all add: time_consts)
  have j: "ms (IdleJitterMS p) \<in> {0..ms (IdleTimeoutMS p)} \<longleftrightarrow> IdleJitterMS p \<in> {0..IdleTimeoutMS p}"
    if "IdleTimeoutMS p \<in> {1000..86400000}"
    using ms_jitter [of "IdleTimeoutMS p" "IdleJitterMS p"] that by simp
  have l: "ms (LifetimeJitterMS p) \<in> {0..ms (MaxLifetimeMS p)} \<longleftrightarrow> LifetimeJitterMS p \<in> {0..MaxLifetimeMS p}"
    if "MaxLifetimeMS p \<in> {1000..604800000}"
    using ms_jitter [of "MaxLifetimeMS p" "LifetimeJitterMS p"] that by simp
  have v: "ValidatePool ?c = None \<longleftrightarrow> params_ok p"
    using b j l unfolding ValidatePool_iff client_pool_ok_def params_ok_def by auto
  have e: "ms (HeartbeatMS p) = HeartbeatMS p * millisecond" "ms (IdleTimeoutMS p) = IdleTimeoutMS p * millisecond"
    "ms (IdleJitterMS p) = IdleJitterMS p * millisecond" "ms (MaxLifetimeMS p) = MaxLifetimeMS p * millisecond"
    "ms (LifetimeJitterMS p) = LifetimeJitterMS p * millisecond" if "params_ok p"
    using that by (auto simp: params_ok_def millisecond_def intro!: ms_exact)
  show ?thesis
    using v e by (cases "ValidatePool ?c") (auto simp: poolOptions_def Let_def params_options_def)
qed

text \<open>
  C27. What timings a client may announce. The server accepts exactly the announcements whose
  millisecond values are in range (heartbeat 1 s to 10 min, idle timeout 1 s to 24 h, lifetime 1 s to
  7 days, each jitter at most its timeout); for those the options are exactly the values in
  nanoseconds: the 64-bit product of an untrusted number never wraps into range.
\<close>

theorem poolOptions_exact:
  "case poolOptions p of
     Inr os \<Rightarrow> params_ok p \<and> os = params_options p
   | Inl e \<Rightarrow> \<not> params_ok p"
  using poolOptions_iff [of p] .

lemma sdiv_ms: "0 \<le> d \<Longrightarrow> d sdiv millisecond = d div millisecond"
  by (simp add: signed_divide_int_def sgn_if time_consts)

lemma announced_params:
  assumes "ValidatePool p = None"
  shows "params_ok (poolParams p) \<and> poolParams p = \<lparr>HeartbeatMS = cp_Heartbeat p div millisecond, IdleTimeoutMS = cp_IdleTimeout p div millisecond,
     IdleJitterMS = cp_IdleJitter p div millisecond, MaxLifetimeMS = cp_MaxLifetime p div millisecond,
     LifetimeJitterMS = cp_LifetimeJitter p div millisecond\<rparr>"
proof -
  have r: "cp_Heartbeat p \<in> {second..10 * minute}" "cp_IdleTimeout p \<in> {second..24 * hour}"
    "cp_IdleJitter p \<in> {0..cp_IdleTimeout p}" "cp_MaxLifetime p \<in> {second..7 * 24 * hour}"
    "cp_LifetimeJitter p \<in> {0..cp_MaxLifetime p}"
    using assms by (auto simp: ValidatePool_iff client_pool_ok_def)
  have m: "a div millisecond \<le> b div millisecond" if "a \<le> b" for a b :: int
    using that by (intro zdiv_mono1) (auto simp: time_consts)
  have nn: "0 \<le> cp_Heartbeat p" "0 \<le> cp_IdleTimeout p" "0 \<le> cp_IdleJitter p" "0 \<le> cp_MaxLifetime p"
    "0 \<le> cp_LifetimeJitter p"
    using r by (auto simp: time_consts)
  have e: "poolParams p = \<lparr>HeartbeatMS = cp_Heartbeat p div millisecond, IdleTimeoutMS = cp_IdleTimeout p div millisecond,
     IdleJitterMS = cp_IdleJitter p div millisecond, MaxLifetimeMS = cp_MaxLifetime p div millisecond,
     LifetimeJitterMS = cp_LifetimeJitter p div millisecond\<rparr>"
    using nn by (simp add: poolParams_def sdiv_ms)
  have rg: "d div millisecond \<in> {l..u}" if "d \<in> {l * millisecond..u * millisecond}" for d l u :: int
    using that by (auto simp: time_consts)
  have "params_ok (poolParams p)"
    using r rg [of "cp_Heartbeat p" 1000 600000] rg [of "cp_IdleTimeout p" 1000 86400000]
      rg [of "cp_MaxLifetime p" 1000 604800000] m [of 0 "cp_IdleJitter p"] m [of "cp_IdleJitter p" "cp_IdleTimeout p"]
      m [of 0 "cp_LifetimeJitter p"] m [of "cp_LifetimeJitter p" "cp_MaxLifetime p"]
    unfolding params_ok_def e by (simp add: time_consts)
  with e show ?thesis by simp
qed

lemma poolOptions_announced: "ValidatePool p = None \<Longrightarrow> \<exists>os. poolOptions (poolParams p) = Inr os"
  using poolOptions_iff [of "poolParams p"] conjunct1 [OF announced_params [of p]]
  by (cases "poolOptions (poolParams p)") simp_all

text \<open>
  C28. Client and server agree on the timings. Every pool configuration a client can run with is
  accepted by the server, and each timing the server uses is the client's, rounded down to a
  millisecond.
\<close>

theorem announced_pool_accepted:
  assumes "ValidatePool p = None"
  shows "case poolOptions (poolParams p) of
      Inl e \<Rightarrow> False
    | Inr os \<Rightarrow> list_all (\<lambda>(a, b). a \<le> b \<and> b < a + millisecond)
        [(Heartbeat os, cp_Heartbeat p), (IdleTimeout os, cp_IdleTimeout p), (IdleJitter os, cp_IdleJitter p),
         (MaxLifetime os, cp_MaxLifetime p), (LifetimeJitter os, cp_LifetimeJitter p)]"
proof -
  have k: "d div millisecond * millisecond \<le> d \<and> d < d div millisecond * millisecond + millisecond" for d :: int
    using div_mult_mod_eq [of d millisecond] pos_mod_bound [of millisecond d] pos_mod_sign [of millisecond d]
    by (auto simp: time_consts)
  then show ?thesis
    using poolOptions_iff [of "poolParams p"] announced_params [OF assms]
    by (cases "poolOptions (poolParams p)") (auto simp: params_options_def)
qed

theorem announced_pool_accepted_witness:
  "case poolOptions (poolParams (default_client_pool\<lparr>cp_Heartbeat := second + 1\<rparr>)) of
     Inr os \<Rightarrow> Heartbeat os \<le> second + 1 \<and> second + 1 < Heartbeat os + millisecond | Inl e \<Rightarrow> False"
proof -
  have "ValidatePool (default_client_pool\<lparr>cp_Heartbeat := second + 1\<rparr>) = None"
    by (simp add: default_client_pool_def ValidatePool_def time_consts)
  from announced_pool_accepted [OF this] show ?thesis
    by (auto split: sum.splits simp: default_client_pool_def)
qed


subsection \<open>Registration\<close>

text \<open>
  What the server has checked of the HELLO on connection \<open>c\<close> before it registers a worker for service
  \<open>n\<close> with the timings \<open>os\<close>.
\<close>

definition authentic ::
    "'s duplex \<Rightarrow> json \<Rightarrow> (string \<Rightarrow> bytes) \<Rightarrow> (string \<rightharpoonup> service) \<Rightarrow> 's \<Rightarrow> string \<Rightarrow> bool" where
  "authentic X J sha services c n \<longleftrightarrow>
     (\<exists>c1 f h s. read_frame (dx_rd X) c = Some (c1, Inr f) \<and> Typ f = HELLO \<and> LeaseID f = 0
        \<and> js_hello J (Payload f) = Inr h \<and> Service h = n \<and> Version h = 2 \<and> Compression h = ''zstd''
        \<and> services n = Some s \<and> sha (hello.Token h) = TokenHash s \<and> params_ok (Pool h))"

lemma check_hello_iff:
  "check_hello sha services h = Inr os \<longleftrightarrow>
     Version h = 2 \<and> Compression h = ''zstd''
     \<and> (case services (Service h) of None \<Rightarrow> False | Some s \<Rightarrow> TokenHash s = sha (hello.Token h))
     \<and> poolOptions (Pool h) = Inr os"
  by (auto simp: check_hello_def Let_def split: option.splits sum.splits)

lemma check_hello_Inl:
  "check_hello sha services h = Inl code \<Longrightarrow>
     code \<in> {''incompatible_protocol'', ''authentication_failed'', ''invalid_pool''}"
  by (auto simp: check_hello_def Let_def split: option.splits sum.splits if_splits)

lemma poolOptions_ok: "poolOptions p = Inr os \<Longrightarrow> params_ok p"
  using poolOptions_iff [of p] by simp

lemma reg_finish_cases:
  assumes "reg_finish X env auth n w (r, c) = Some (r', c', eff, res)"
    and "srt_pools (env r) n \<noteq> None"
  shows "res = RegClosed n w \<and> srt_workers r' = srt_workers (env r)
    \<or> res = RegWorking n w \<and> auth = None \<and> eff = [] \<and> srt_workers r' = Suc (srt_workers (env r))
      \<and> srt_pools r' = srt_pools (env r)"
  using assms
  by (auto simp: reg_finish_def Let_def put_pool_def split: option.splits sum.splits prod.splits if_splits)

lemma reg_finish_names:
  "reg_finish X env auth n w rc = Some (r', c', eff, res) \<Longrightarrow> res \<in> {RegClosed n w, RegWorking n w, RegPanic}"
  by (auto simp: reg_finish_def Let_def split: option.splits sum.splits prod.splits if_splits)

lemma authentic_checked:
  assumes "read_frame (dx_rd X) c = Some (c1, Inr f)" and "Typ f = HELLO" and "LeaseID f = 0"
    and "js_hello J (Payload f) = Inr h" and "check_hello sha services h = Inr os"
  shows "authentic X J sha services c (Service h)"
  using assms poolOptions_ok unfolding authentic_def check_hello_iff by (auto split: option.splits)

lemma reject_sel:
  "reject X J code (r, c) = (r', c') \<Longrightarrow> srt_pools r' = srt_pools r \<and> srt_workers r' = srt_workers r"
  by (auto simp: reject_def)

lemma register_cases:
  assumes "register X J sha env auth now rnd (r, c) = Some (r', c', eff, res)"
  obtains (rejected) code where "res = RegRejected code" "eff = []" "srt_pools r' = srt_pools r"
      "srt_workers r' = srt_workers r"
      "code \<in> {''incompatible_protocol'', ''authentication_failed'', ''invalid_pool'', ''shutting_down''}"
  | (panic) n where "authentic X J sha (srt_services r) c n" "srt_pools r n = None" "res = RegPanic"
  | (registered) n p p1 os w c1 where "authentic X J sha (srt_services r) c n"
      "srt_pools r n = Some p" "Register (srt_ids r + 1) os now rnd p = (p1, Inr w)"
      "reg_finish X env auth n w (put_pool n p1 (r\<lparr>srt_ids := srt_ids r + 1\<rparr>), c1) = Some (r', c', eff, res)"
proof -
  note d = assms [unfolded register_def Let_def, simplified]
  show ?thesis
  proof (cases "read_frame (dx_rd X) c")
    case None
    with d show ?thesis by simp
  next
    case (Some x)
    obtain c1 g where x: "x = (c1, g)" by fastforce
    have rj: ?thesis if "Some (case reject X J code (r\<lparr>srt_ids := srt_ids r + 1\<rparr>, c1) of
          (r1, c2) \<Rightarrow> (r1, c2, [], RegRejected code)) = Some (r', c', eff, res)"
      "code \<in> {''incompatible_protocol'', ''authentication_failed'', ''invalid_pool'', ''shutting_down''}" for code
    proof -
      obtain r1 c2 where k: "reject X J code (r\<lparr>srt_ids := srt_ids r + 1\<rparr>, c1) = (r1, c2)" by fastforce
      note q = reject_sel [OF k]
      have z: "r1 = r'" "res = RegRejected code" "eff = []" using that(1) k by simp_all
      show ?thesis
        using q that(2) by (intro rejected [of code]) (simp_all only: z, simp_all)
    qed
    show ?thesis
    proof (cases g)
      case (Inl e)
      with d Some x show ?thesis by (intro rj [of "''incompatible_protocol''"]) simp_all
    next
      case (Inr f)
      show ?thesis
      proof (cases "Typ f = HELLO \<and> LeaseID f = 0")
        case False
        with d Some x Inr show ?thesis by (intro rj [of "''incompatible_protocol''"]) auto
      next
        case True
        show ?thesis
        proof (cases "js_hello J (Payload f)")
          case (Inl e)
          with d Some x Inr True show ?thesis by (intro rj [of "''incompatible_protocol''"]) simp_all
        next
          case h: (Inr h)
          show ?thesis
          proof (cases "check_hello sha (srt_services r) h")
            case (Inl code)
            have "code \<in> {''incompatible_protocol'', ''authentication_failed'', ''invalid_pool'', ''shutting_down''}"
              by (rule subsetD [OF _ check_hello_Inl [OF Inl]]) simp
            then show ?thesis using d Some x Inr True h Inl by (intro rj [of code]) simp_all
          next
            case os: (Inr os)
            have a: "authentic X J sha (srt_services r) c (Service h)"
              using Some x Inr True h os by (intro authentic_checked) auto
            show ?thesis
            proof (cases "srt_pools r (Service h)")
              case None
              then have "res = RegPanic" using d Some x Inr True h os by simp
              with a None show ?thesis by (intro panic)
            next
              case p: (Some p)
              obtain p1 y where R: "Register (srt_ids r + 1) os now rnd p = (p1, y)" by fastforce
              show ?thesis
              proof (cases y)
                case Inl
                then show ?thesis using d Some x Inr True h os p R by (intro rj [of "''shutting_down''"]) simp_all
              next
                case w: (Inr w)
                then show ?thesis
                  using d Some x Inr True h os p R by (intro registered [OF a p]) auto
              qed
            qed
          qed
        qed
      qed
    qed
  qed
qed

text \<open>
  C4. Who gets registered. Whatever a peer sends and whatever the other goroutines do: a connection
  becomes a worker of a service only after a HELLO of lease 0 with version 2 and zstd, naming a
  configured service, with a token whose hash is the configured one and timings in range, and only
  if the pool took it; its goroutine starts only once the authentication was completed. Every other
  connection is refused with one of four codes, without a trace in the pools.
\<close>

theorem register_authenticates:
  assumes "register X J sha env auth now rnd (r, c) = Some (r', c', eff, res)"
    and "dom (srt_services r) \<subseteq> dom (srt_pools r)"
    and "\<And>q. dom (srt_pools q) \<subseteq> dom (srt_pools (env q))"
  shows "case res of
      RegRejected code \<Rightarrow> eff = [] \<and> srt_pools r' = srt_pools r \<and> srt_workers r' = srt_workers r
        \<and> code \<in> {''incompatible_protocol'', ''authentication_failed'', ''invalid_pool'', ''shutting_down''}
    | RegPanic \<Rightarrow> False
    | RegClosed n w \<Rightarrow> authentic X J sha (srt_services r) c n
        \<and> (\<exists>p os p1. srt_pools r n = Some p \<and> Register (srt_ids r + 1) os now rnd p = (p1, Inr w))
    | RegWorking n w \<Rightarrow> authentic X J sha (srt_services r) c n
        \<and> (\<exists>p os p1. srt_pools r n = Some p \<and> Register (srt_ids r + 1) os now rnd p = (p1, Inr w)
          \<and> srt_pools r' = srt_pools (env (put_pool n p1 (r\<lparr>srt_ids := srt_ids r + 1\<rparr>))))
        \<and> auth = None \<and> eff = []"
  using assms(1)
proof (cases rule: register_cases)
  case (rejected code)
  then show ?thesis by simp
next
  case (panic n)
  then have "n \<in> dom (srt_services r)" by (auto simp: authentic_def)
  then have "srt_pools r n \<noteq> None" using assms(2) by auto
  with panic show ?thesis by simp
next
  case (registered n p p1 os w c1)
  let ?q = "put_pool n p1 (r\<lparr>srt_ids := srt_ids r + 1\<rparr>)"
  have "n \<in> dom (srt_pools ?q)" by (simp add: put_pool_def)
  then have "srt_pools (env ?q) n \<noteq> None" using assms(3) [of ?q] by auto
  note f = reg_finish_cases [OF registered(4) this]
  have "\<exists>p os p1. srt_pools r n = Some p \<and> Register (srt_ids r + 1) os now rnd p = (p1, Inr w)"
    using registered(2,3) by blast
  moreover have "\<exists>p os p2. srt_pools r n = Some p \<and> Register (srt_ids r + 1) os now rnd p = (p2, Inr w)
      \<and> srt_pools (env ?q) = srt_pools (env (put_pool n p2 (r\<lparr>srt_ids := srt_ids r + 1\<rparr>)))"
    using registered(2,3) by blast
  ultimately show ?thesis using f registered(1) by (elim disjE conjE) (simp_all only: reg_result.case simp_thms)
qed

text \<open>Reading frames leaves the send side of a connection alone.\<close>

definition same_sender :: "net_conn \<Rightarrow> net_conn \<Rightarrow> bool" where
  "same_sender a b \<longleftrightarrow> tx b = tx a \<and> tx_plan b = tx_plan a \<and> shut b = shut a"

lemma net_read_same: "net_read s n = (s', bs, e) \<Longrightarrow> same_sender s s'"
  by (auto simp: net_read_def same_sender_def split: if_splits list.splits)

lemma read_full_same: "read_full net_read s n got = Some (s', bs, e) \<Longrightarrow> same_sender s s'"
proof (induction "n - length got" arbitrary: s got rule: less_induct)
  case less
  show ?case
  proof (cases "n \<le> length got")
    case True
    with less.prems show ?thesis by (subst (asm) read_full.simps) (simp add: same_sender_def)
  next
    case False
    obtain s1 b x where r: "net_read s (n - length got) = (s1, b, x)"
      by (cases "net_read s (n - length got)") auto
    show ?thesis
    proof (cases x)
      case None
      with r False have "b \<noteq> []" using net_rd.rd_progress by auto
      then have "n - length (got @ b) < n - length got" using False by (cases b) auto
      moreover have "read_full net_read s1 n (got @ b) = Some (s', bs, e)"
        using less.prems r False None by (subst (asm) read_full.simps) simp
      ultimately show ?thesis using less.hyps net_read_same [OF r] by (fastforce simp: same_sender_def)
    next
      case (Some y)
      with less.prems r False net_read_same [OF r] show ?thesis
        by (subst (asm) read_full.simps) simp
    qed
  qed
qed

lemma read_frame_same: "read_frame net_read s = Some (s', r) \<Longrightarrow> same_sender s s'"
  by (auto simp: read_frame_def same_sender_def Let_def dest!: read_full_same
      split: option.splits prod.splits if_splits)

subsection \<open>Talking over a connection\<close>

definition steady :: "net_conn \<Rightarrow> bool" where
  "steady c \<longleftrightarrow> tx_plan c = [] \<and> \<not> shut c"

lemma steady_upd [simp]: "steady (c\<lparr>tx := b\<rparr>) = steady c"
  by (simp add: steady_def)

lemma content_tx [simp]: "net_content (c\<lparr>tx := b\<rparr>) = net_content c" "net_ending (c\<lparr>tx := b\<rparr>) = net_ending c"
  by (simp_all add: net_content_def net_ending_def)

lemma say: "steady c \<Longrightarrow> frame_ok f \<Longrightarrow>
    write_frame net_write c f = (c\<lparr>tx := tx c @ encode_frame f\<rparr>, None)"
  by (simp add: write_frame_def frame_ok_def steady_def write_full_clean encode_frame_def)

lemma hear:
  assumes "net_content c = encode_frame f @ rest" and "frame_ok f" and "steady c"
  obtains c' where "read_frame net_read c = Some (c', Inr f)" and "net_content c' = rest"
    and "tx c' = tx c" and "steady c'" and "net_ending c' = net_ending c"
proof -
  obtain c' where c': "read_frame net_read c = Some (c', Inr f)" "net_content c' = rest" "net_ending c' = net_ending c"
    using net_rd.read_frame_encoded [OF assms(1,2)] by blast
  have "tx c' = tx c" "steady c'"
    using read_frame_same [OF c'(1)] assms(3) by (auto simp: same_sender_def steady_def)
  with c' show ?thesis by (intro that)
qed

definition demo_os :: pool_params where
  "demo_os = \<lparr>HeartbeatMS = 15000, IdleTimeoutMS = 60000, IdleJitterMS = 0, MaxLifetimeMS = 3600000, LifetimeJitterMS = 0\<rparr>"

definition demo_hello :: hello where
  "demo_hello = \<lparr>Version = 2, Service = ''a'', Token = ''t'', Compression = ''zstd'', Pool = demo_os\<rparr>"

definition demo_json :: json where
  "demo_json = \<lparr>js_hello = (\<lambda>_. Inr demo_hello), js_code = (\<lambda>_. Inr ''dial_failed''),
     js_put_hello = (\<lambda>_. [123, 125]), js_put_code = (\<lambda>_. [123, 125])\<rparr>"

definition demo_sha :: "string \<Rightarrow> bytes" where
  "demo_sha s = map of_char s"

definition demo_server :: server_rt where
  "demo_server = \<lparr>srt_services = [''a'' \<mapsto> \<lparr>Addr = [], Token = [], TokenHash = demo_sha ''t''\<rparr>],
     srt_pools = [''a'' \<mapsto> new_pool 8], srt_metrics = None, srt_ids = 0, srt_workers = 0\<rparr>"

definition hello_frame :: frame where
  "hello_frame = \<lparr>Typ = HELLO, LeaseID = 0, Payload = [123, 125]\<rparr>"

definition demo_in :: net_conn where
  "demo_in = \<lparr>rx = [encode_frame hello_frame, encode_frame (plain_frame READY 0)], rx_end = EOF, tx = [],
     tx_plan = [], shut = False\<rparr>"

lemma plain_frame_sel [simp]: "Typ (plain_frame t i) = t" "LeaseID (plain_frame t i) = i" "Payload (plain_frame t i) = []"
  by (simp_all add: plain_frame_def)

lemma plain_frame_ok [simp]: "frame_ok (plain_frame t i) \<longleftrightarrow> t \<in> {HELLO_OK, READY, OPEN, OPEN_OK, FIN, RELEASE, CLOSE}"
  by (simp add: frame_ok_def valid_def)

lemma demo_register:
  obtains r' c' where "register net_duplex demo_json demo_sha (\<lambda>q. q) None 0 0 (demo_server, demo_in)
      = Some (r', c', [], RegWorking ''a'' 0)" and "srt_workers r' = 1"
proof -
  have ok: "frame_ok hello_frame" by (simp add: hello_frame_def frame_ok_def valid_def)
  have d: "net_content demo_in = encode_frame hello_frame @ encode_frame (plain_frame READY 0) @ []"
    "steady demo_in" by (simp_all add: demo_in_def net_content_def steady_def)
  obtain c1 where c1: "read_frame net_read demo_in = Some (c1, Inr hello_frame)"
    "net_content c1 = encode_frame (plain_frame READY 0) @ []" "steady c1"
    using hear [OF d(1) ok d(2)] by metis
  let ?c = "c1\<lparr>tx := tx c1 @ encode_frame (plain_frame HELLO_OK 0)\<rparr>"
  have w: "write_frame net_write c1 (plain_frame HELLO_OK 0) = (?c, None)" using c1(3) by (intro say) simp_all
  have k: "net_content ?c = encode_frame (plain_frame READY 0) @ []" "frame_ok (plain_frame READY 0)" "steady ?c"
    using c1 by simp_all
  obtain c2 where c2: "read_frame net_read ?c = Some (c2, Inr (plain_frame READY 0))" by (rule hear [OF k])
  have o: "poolOptions demo_os = Inr (params_options demo_os)"
    using poolOptions_iff [of demo_os] by (cases "poolOptions demo_os") (simp_all add: params_ok_def demo_os_def)
  have h: "check_hello demo_sha (srt_services demo_server) demo_hello = Inr (params_options demo_os)"
    using o by (simp add: check_hello_iff demo_hello_def demo_server_def)
  have j: "js_hello demo_json b = Inr demo_hello" "Service demo_hello = ''a''"
    "srt_pools demo_server ''a'' = Some (new_pool 8)" "stopping (new_pool 8) = False" "nwk (new_pool 8) = 0"
    "Typ hello_frame = HELLO" "LeaseID hello_frame = 0" "srt_workers demo_server = 0" for b
    by (simp_all add: demo_json_def demo_hello_def demo_server_def new_pool_def hello_frame_def)
  have "\<exists>r' c'. register net_duplex demo_json demo_sha (\<lambda>q. q) None 0 0 (demo_server, demo_in)
      = Some (r', c', [], RegWorking ''a'' 0) \<and> srt_workers r' = 1"
    by (simp add: register_def Let_def net_duplex_def c1 h j Register_def reg_finish_def w c2 put_pool_def)
  then show ?thesis using that by blast
qed

theorem register_authenticates_witness:
  "\<exists>r' c'. register net_duplex demo_json demo_sha (\<lambda>q. q) None 0 0 (demo_server, demo_in)
      = Some (r', c', [], RegWorking ''a'' 0)
    \<and> authentic net_duplex demo_json demo_sha (srt_services demo_server) demo_in ''a''"
proof -
  obtain r' c' where r: "register net_duplex demo_json demo_sha (\<lambda>q. q) None 0 0 (demo_server, demo_in)
      = Some (r', c', [], RegWorking ''a'' 0)" using demo_register by blast
  have "dom (srt_services demo_server) \<subseteq> dom (srt_pools demo_server)" by (simp add: demo_server_def)
  from register_authenticates [OF r this] r show ?thesis by auto
qed

end
