(* ===== verification/Worker_Trace.thy ===== *)
theory Worker_Trace
  imports Worker_Props Client_Props Relay_Props
begin

text \<open>
  The goroutines of \<open>Server_Worker\<close> and \<open>Client_Worker\<close> behave as \<open>Pool_System\<close> and \<open>Client_System\<close>
  assume: the calls they make, in order, are a path of the life cycle of a worker (of a slot), the
  IDs of their leases are 1, 2, 3, and so on, and each end is accounted for once.
\<close>

subsection \<open>The server\<close>

text \<open>
  The moves of a worker, on the positions of \<open>Pool_System\<close>. A visitor's socket is left by closing it.
\<close>

inductive wmove :: "wpc \<Rightarrow> wact \<Rightarrow> wpc \<Rightarrow> bool" where
  m_idle: "wmove PIdle (AIdle oc) (after_idle oc)"
| m_leased: "wmove PNext (ANext (Some t) Leased) (PServe t)"
| m_other: "oc \<noteq> Leased \<Longrightarrow> wmove PNext (ANext None oc) (after_select (Some (None, oc)))"
| m_beat: "wmove PBeat (ABeat ok) (if ok then PIdle else PQuit)"
| m_lease: "wmove (PServe t) (ALease i rel out) (PServe t)"
| m_close: "c \<in> {PIdle, PQuit} \<Longrightarrow> wmove (PServe t) (ACloseTCP t) c"
| m_closed: "wmove PQuit AClosed PDone"
| m_count: "wmove PDone (AStat reason) PDone"

inductive wrun :: "wpc \<Rightarrow> wact list \<Rightarrow> wpc \<Rightarrow> bool" where
  wrun_Nil: "wrun c [] c"
| wrun_Cons: "wmove c a c1 \<Longrightarrow> wrun c1 as c2 \<Longrightarrow> wrun c (a # as) c2"

lemmas wrun_intros = wmove.intros wrun.intros

fun lease_ids :: "wact list \<Rightarrow> u64 list" where
  "lease_ids [] = []"
| "lease_ids (ALease i rel out # as) = i # lease_ids as"
| "lease_ids (_ # as) = lease_ids as"

fun counts_from :: "nat \<Rightarrow> u64 list \<Rightarrow> bool" where
  "counts_from k [] = True"
| "counts_from k (i # is) = (unat i = k \<and> counts_from (Suc k) is)"

lemma counts_from_upt: "counts_from k is \<longleftrightarrow> map unat is = [k..<k + length is]"
proof (induction "is" arbitrary: k)
  case (Cons i "is")
  have "[k..<k + length (i # is)] = k # [Suc k..<Suc k + length is]" by (subst upt_conv_Cons) simp_all
  with Cons.IH [of "Suc k"] show ?case by simp
qed simp

lemma unat_next: "lastid \<noteq> - 1 \<Longrightarrow> unat (lastid + 1 :: u64) = Suc (unat lastid)"
  by (metis add.commute add_eq_0_iff unatSuc)

text \<open>\<open>Next\<close> hands over a socket exactly when it says so.\<close>

definition turn_ok :: "turn \<Rightarrow> bool" where
  "turn_ok tn \<longleftrightarrow> ((fst (tn_next tn) \<noteq> None) = (snd (tn_next tn) = Leased))"

lemma next_top_turn: "next_top w p = (p', Some (t, oc)) \<Longrightarrow> (t \<noteq> None) = (oc = Leased)"
  by (auto simp: next_top_def split: if_splits option.split_asm dest: sym)

lemma next_select_turn: "next_select w ev p = (p', Some (t, oc)) \<Longrightarrow> t = None \<and> oc \<noteq> Leased"
  by (cases ev) (auto simp: takeIdleLocked_def split: if_splits option.splits prod.splits)

text \<open>What the loop adds to its trace: a finished path, with consecutive lease IDs.\<close>

definition ends_well :: "outcome \<Rightarrow> u64 \<Rightarrow> wact list \<Rightarrow> bool" where
  "ends_well oc lastid d \<longleftrightarrow> wrun (after_idle oc) d PDone
     \<and> counts_from (Suc (unat lastid)) (lease_ids d)
     \<and> (\<exists>as reason. d = as @ [AClosed, AStat reason] \<and> reason \<in> set closeReasons)"

lemma ends_quit:
  assumes "after_idle oc = PQuit" and "reason \<in> set closeReasons"
  shows "ends_well oc lastid [AClosed, AStat reason]"
  using assms by (auto simp: ends_well_def intro!: wrun_intros exI [of _ "[]"])

lemma ends_turn:
  assumes "wmove PNext (ANext t nx) c" and "wrun c mid PQuit" and "lease_ids mid = []"
    and "reason \<in> set closeReasons"
  shows "ends_well Ready lastid (ANext t nx # mid @ [AClosed, AStat reason])"
proof -
  have "wrun c' (xs @ [AClosed, AStat reason]) PDone" if "wrun c' xs PQuit" for c' xs
    using that by (induction c' xs "PQuit :: wpc") (auto intro: wrun_intros)
  moreover have "lease_ids (mid @ [AClosed, AStat reason]) = lease_ids mid" for mid
    by (induction mid rule: lease_ids.induct) auto
  ultimately show ?thesis
    using assms by (auto simp: ends_well_def intro: wrun_Cons)
qed

lemma lease_ids_append [simp]: "lease_ids (xs @ ys) = lease_ids xs @ lease_ids ys"
  by (induction xs rule: lease_ids.induct) auto

lemma ends_beat:
  assumes "ends_well oc lastid d"
  shows "ends_well Ready lastid (ANext None Check # ABeat True # AIdle oc # d)"
proof -
  have "wmove PNext (ANext None Check) PBeat" "wmove PBeat (ABeat True) PIdle"
    using m_other [of Check] m_beat [of True] by simp_all
  then have "wrun PNext (ANext None Check # ABeat True # AIdle oc # d) PDone"
    using assms by (auto simp: ends_well_def intro: wrun_Cons m_idle)
  moreover obtain as reason where "d = as @ [AClosed, AStat reason]" "reason \<in> set closeReasons"
    using assms by (auto simp: ends_well_def)
  ultimately show ?thesis
    using assms by (auto simp: ends_well_def intro!: exI [of _ "ANext None Check # ABeat True # AIdle oc # as"])
qed

lemma ends_lease:
  assumes "ends_well oc (lastid + 1) d" and "lastid \<noteq> - 1"
  shows "ends_well Ready lastid
    (ANext (Some v) Leased # ALease (lastid + 1) rel out # ACloseTCP v # AIdle oc # d)"
proof -
  note u = unat_next [OF assms(2)]
  obtain as reason where d: "d = as @ [AClosed, AStat reason]" "reason \<in> set closeReasons"
    using assms(1) by (auto simp: ends_well_def)
  have "wrun PNext (ANext (Some v) Leased # ALease (lastid + 1) rel out # ACloseTCP v # AIdle oc # d) PDone"
    using assms(1) by (auto simp: ends_well_def intro!: wrun_Cons intro: wmove.intros)
  then show ?thesis
    using assms(1) d by (auto simp: ends_well_def u
        intro!: exI [of _ "ANext (Some v) Leased # ALease (lastid + 1) rel out # ACloseTCP v # AIdle oc # as"])
qed

lemma ends_last_lease:
  assumes "lastid \<noteq> - 1" and "reason \<in> set closeReasons"
  shows "ends_well Ready lastid
    [ANext (Some v) Leased, ALease (lastid + 1) rel out, ACloseTCP v, AClosed, AStat reason]"
proof -
  have "wrun PNext [ANext (Some v) Leased, ALease (lastid + 1) rel out, ACloseTCP v, AClosed, AStat reason] PDone"
    by (rule wrun_Cons [OF m_leased wrun_Cons [OF m_lease wrun_Cons [OF m_close [of PQuit] wrun_Cons [OF m_closed
      wrun_Cons [OF m_count wrun_Nil]]]]]) simp
  then show ?thesis
    using assms by (auto simp: ends_well_def unat_next
        intro!: exI [of _ "[ANext (Some v) Leased, ALease (lastid + 1) rel out, ACloseTCP v]"])
qed

lemma close_reasons: "''expired'' \<in> set closeReasons" "''shutdown'' \<in> set closeReasons"
  "''client_close'' \<in> set closeReasons" "''error'' \<in> set closeReasons"
  by (simp_all add: closeReasons_def)

text \<open>The shapes the trace of the loop can have.\<close>

inductive wtrace :: "outcome \<Rightarrow> u64 \<Rightarrow> wact list \<Rightarrow> bool" where
  wt_quit: "after_idle oc = PQuit \<Longrightarrow> reason \<in> set closeReasons \<Longrightarrow> wtrace oc lastid [AClosed, AStat reason]"
| wt_turn: "wmove PNext (ANext t nx) c \<Longrightarrow> wrun c mid PQuit \<Longrightarrow> lease_ids mid = [] \<Longrightarrow> reason \<in> set closeReasons
    \<Longrightarrow> wtrace Ready lastid (ANext t nx # mid @ [AClosed, AStat reason])"
| wt_beat: "wtrace oc lastid d \<Longrightarrow> wtrace Ready lastid (ANext None Check # ABeat True # AIdle oc # d)"
| wt_lease: "wtrace oc (lastid + 1) d \<Longrightarrow> lastid \<noteq> - 1 \<Longrightarrow> wtrace Ready lastid
    (ANext (Some v) Leased # ALease (lastid + 1) rel out # ACloseTCP v # AIdle oc # d)"
| wt_last_lease: "lastid \<noteq> - 1 \<Longrightarrow> reason \<in> set closeReasons \<Longrightarrow> wtrace Ready lastid
    [ANext (Some v) Leased, ALease (lastid + 1) rel out, ACloseTCP v, AClosed, AStat reason]"

lemma wtrace_ends: "wtrace oc lastid d \<Longrightarrow> ends_well oc lastid d"
  by (induction rule: wtrace.induct) (simp_all add: ends_quit ends_turn ends_beat ends_lease ends_last_lease)

text \<open>The loop, on its own variables.\<close>

lemma work_loop_trace:
  assumes "work_loop X J relay turns lastid oc c tr = Some (c', tr')" and "list_all turn_ok turns"
  shows "\<exists>d. tr' = tr @ d \<and> wtrace oc lastid d"
  using assms
proof (induction turns arbitrary: lastid oc c tr)
  case Nil
  then show ?case
    using wt_quit close_reasons
    by (cases oc; simp add: work_loop.simps wend_def; fastforce)
next
  case (Cons tn rest)
  show ?case
  proof (cases "oc = Ready")
    case False
    then show ?thesis
      using Cons.prems wt_quit close_reasons by (cases oc; simp add: work_loop.simps wend_def; fastforce)
  next
    case oc: True
    obtain t nx where tn: "tn_next tn = (t, nx)" by fastforce
    have ok: "(t \<noteq> None) = (nx = Leased)" "list_all turn_ok rest"
      using Cons.prems(2) tn turn_ok_def [of tn] by simp_all
    note w = Cons.prems(1) [unfolded work_loop.simps [of X J relay "tn # rest"] oc, simplified, unfolded tn Let_def, simplified]
    consider (check) "nx = Check" "t = None" | (leased) v where "nx = Leased" "t = Some v" | (other) "nx \<notin> {Check, Leased}" "t = None"
      using ok(1) by auto
    then show ?thesis
    proof cases
      case check
      obtain c1 e where h: "heartbeat X (tn_nonce tn) c = Some (c1, e)"
        using w check by (cases "heartbeat X (tn_nonce tn) c") auto
      show ?thesis
      proof (cases e)
        case None
        with w check h Cons.IH [OF _ ok(2)] obtain d where
          "tr' = tr @ (ANext None Check # ABeat True # AIdle (tn_idle tn) # d)" "wtrace (tn_idle tn) lastid d"
          by fastforce
        then show ?thesis using wt_beat oc by blast
      next
        case (Some x)
        with w check h have "tr' = tr @ (ANext None Check # [ABeat False] @ [AClosed, AStat ''error''])"
          by (auto simp: wend_def)
        moreover have "wrun PBeat [ABeat False] PQuit" using m_beat [of False] by (auto intro: wrun.intros)
        ultimately show ?thesis
          using wt_turn [OF m_other, of Check "[ABeat False]" "''error''"] oc close_reasons by auto
      qed
    next
      case (leased v)
      show ?thesis
      proof (cases "lastid = - 1")
        case True
        with w leased have "tr' = tr @ (ANext (Some v) Leased # [ACloseTCP v] @ [AClosed, AStat ''error''])"
          by (auto simp: wend_def)
        then show ?thesis
          using wt_turn [OF m_leased, of v "[ACloseTCP v]" "''error''"] oc close_reasons
          by (auto intro!: wrun_Cons [OF m_close] wrun_Nil)
      next
        case False
        obtain l e out where l: "lease X J relay (lastid + 1) c (tn_tcp tn) = Some (l, e, out)"
          using w leased False by (cases "lease X J relay (lastid + 1) c (tn_tcp tn)") auto
        show ?thesis
        proof (cases e)
          case None
          with w leased l False Cons.IH [OF _ ok(2)] obtain d where
            "tr' = tr @ (ANext (Some v) Leased # ALease (lastid + 1) (ls_releasing l) out # ACloseTCP v
              # AIdle (tn_idle tn) # d)" "wtrace (tn_idle tn) (lastid + 1) d"
            by fastforce
          then show ?thesis using wt_lease [OF _ False] oc by blast
        next
          case (Some x)
          with w leased l False have "\<exists>reason \<in> set closeReasons.
              tr' = tr @ [ANext (Some v) Leased, ALease (lastid + 1) (ls_releasing l) out, ACloseTCP v, AClosed, AStat reason]"
            using close_reasons by (auto simp: wend_def split: if_splits)
          then show ?thesis using wt_last_lease [OF False] oc by blast
        qed
      qed
    next
      case other
      then have "\<exists>reason \<in> set closeReasons. tr' = tr @ (ANext None nx # [] @ [AClosed, AStat reason])"
        using w close_reasons by (auto simp: wend_def split: if_splits)
      moreover have "after_select (Some (None, nx)) = PQuit" using other by (cases nx) auto
      ultimately show ?thesis
        using wt_turn [OF m_other, of nx "[]"] other oc by (auto intro: wrun_Nil)
    qed
  qed
qed

lemma work_trace:
  assumes "work X J relay turns oc c = Some (c', tr)" and "list_all turn_ok turns"
  shows "\<exists>d. tr = AIdle oc # d \<and> wtrace oc 0 d"
proof -
  have "work_loop X J relay turns 0 oc c [AIdle oc] = Some (c', tr)" using assms(1) by (simp add: work_def)
  from work_loop_trace [OF this assms(2)] show ?thesis by simp
qed

text \<open>
  C16. The worker goroutine keeps to the pool's life cycle. Whatever the network, the codec and the
  pool answer, when \<open>work\<close> returns its calls form a complete path through the positions that
  \<open>Pool_System\<close> gives a worker: it calls \<open>Idle\<close> and \<open>Next\<close> in turn, each socket it was handed is served
  and closed before anything else, the leases are numbered 1, 2, 3, ..., and it ends with exactly one
  \<open>Closed\<close>, counted under one of the four reasons.
\<close>

theorem work_follows_pool:
  assumes "work X J relay turns oc c = Some (c', tr)" and "list_all turn_ok turns"
  shows "wrun PIdle tr PDone
    \<and> map unat (lease_ids tr) = [1..<Suc (length (lease_ids tr))]
    \<and> (\<exists>as reason. tr = as @ [AClosed, AStat reason] \<and> reason \<in> set closeReasons)"
proof -
  obtain d where d: "tr = AIdle oc # d" "wtrace oc 0 d" using work_trace [OF assms] by blast
  from wtrace_ends [OF this(2)] have d: "tr = AIdle oc # d" "ends_well oc 0 d" using d(1) by simp_all
  then obtain as reason where "tr = (AIdle oc # as) @ [AClosed, AStat reason]" "reason \<in> set closeReasons"
    by (auto simp: ends_well_def)
  moreover have "wrun PIdle tr PDone" using d by (auto simp: ends_well_def intro: wrun_Cons m_idle)
  moreover have "counts_from 1 (lease_ids tr)" using d by (simp add: ends_well_def)
  ultimately show ?thesis using counts_from_upt [of 1 "lease_ids tr"] by auto
qed

text \<open>A worker that serves one visitor, whose relay is immediate, and then expires.\<close>

definition demo_relay :: "net_conn relay_fun" where
  "demo_relay c t i = Some (c, t, None)"

definition demo_turns :: "turn list" where
  "demo_turns = [\<lparr>tn_next = (Some 4, Leased), tn_tcp = demo_tunnel, tn_idle = Ready, tn_nonce = Inl EOF\<rparr>,
     \<lparr>tn_next = (None, Expired), tn_tcp = demo_tunnel, tn_idle = Ready, tn_nonce = Inl EOF\<rparr>]"

definition demo_worker :: net_conn where
  "demo_worker = demo_tunnel\<lparr>rx := [encode_frame (plain_frame OPEN_OK 1), encode_frame (plain_frame READY 1)]\<rparr>"

text \<open>One question and its answer on a steady connection.\<close>

lemma ask:
  assumes "steady c" and "frame_ok q" and "frame_ok a" and "net_content c = encode_frame a @ rest"
  obtains c1 where "write_frame net_write c q = (c\<lparr>tx := tx c @ encode_frame q\<rparr>, None)"
    and "read_frame net_read (c\<lparr>tx := tx c @ encode_frame q\<rparr>) = Some (c1, Inr a)"
    and "steady c1" and "net_content c1 = rest" and "tx c1 = tx c @ encode_frame q"
proof -
  have "net_content (c\<lparr>tx := tx c @ encode_frame q\<rparr>) = encode_frame a @ rest"
    "steady (c\<lparr>tx := tx c @ encode_frame q\<rparr>)" using assms by simp_all
  from hear [OF this(1) assms(3) this(2)] obtain c1 where
    "read_frame net_read (c\<lparr>tx := tx c @ encode_frame q\<rparr>) = Some (c1, Inr a)"
    "net_content c1 = rest" "tx c1 = tx (c\<lparr>tx := tx c @ encode_frame q\<rparr>)" "steady c1" by blast
  then show ?thesis using say [OF assms(1,2)] that by simp
qed

lemma demo_work:
  "\<exists>c'. work net_duplex demo_json demo_relay demo_turns Ready demo_worker
    = Some (c', [AIdle Ready, ANext (Some 4) Leased, ALease 1 True LeaseOK, ACloseTCP 4, AIdle Ready,
        ANext None Expired, AClosed, AStat ''expired''])"
proof -
  have s: "steady demo_worker" by (simp add: demo_worker_def demo_tunnel_def steady_def)
  have n: "net_content demo_worker = encode_frame (plain_frame OPEN_OK 1) @ encode_frame (plain_frame READY 1) @ []"
    by (simp add: demo_worker_def demo_tunnel_def net_content_def)
  have k: "frame_ok (plain_frame OPEN 1)" "frame_ok (plain_frame OPEN_OK 1)"
    "frame_ok (plain_frame RELEASE 1)" "frame_ok (plain_frame READY 1)" by simp_all
  from ask [OF s k(1,2) n] obtain c1 where
    1: "write_frame net_write demo_worker (plain_frame OPEN 1)
        = (demo_worker\<lparr>tx := tx demo_worker @ encode_frame (plain_frame OPEN 1)\<rparr>, None)"
      "read_frame net_read (demo_worker\<lparr>tx := tx demo_worker @ encode_frame (plain_frame OPEN 1)\<rparr>)
        = Some (c1, Inr (plain_frame OPEN_OK 1))"
    and c1: "steady c1" "net_content c1 = encode_frame (plain_frame READY 1) @ []" by metis
  from ask [OF c1(1) k(3,4) c1(2)] obtain c2 where
    2: "write_frame net_write c1 (plain_frame RELEASE 1) = (c1\<lparr>tx := tx c1 @ encode_frame (plain_frame RELEASE 1)\<rparr>, None)"
      "read_frame net_read (c1\<lparr>tx := tx c1 @ encode_frame (plain_frame RELEASE 1)\<rparr>) = Some (c2, Inr (plain_frame READY 1))"
    by metis
  have "lease net_duplex demo_json demo_relay 1 demo_worker demo_tunnel
      = Some (\<lparr>ls_conn = c2, ls_tcp = demo_tunnel, ls_releasing = True, ls_dialFailed = False\<rparr>, None, LeaseOK)"
    by (simp add: lease_def lease_body_def release_barrier_def net_duplex_def 1 2 demo_relay_def lease_outcome_def Let_def)
  then show ?thesis
    by (simp add: work_def work_loop.simps demo_turns_def wend_def net_duplex_def Let_def)
qed

theorem work_follows_pool_witness:
  "wrun PIdle [AIdle Ready, ANext (Some 4) Leased, ALease 1 True LeaseOK, ACloseTCP 4, AIdle Ready,
    ANext None Expired, AClosed, AStat ''expired''] PDone"
proof -
  obtain c' where "work net_duplex demo_json demo_relay demo_turns Ready demo_worker
      = Some (c', [AIdle Ready, ANext (Some 4) Leased, ALease 1 True LeaseOK, ACloseTCP 4, AIdle Ready,
          ANext None Expired, AClosed, AStat ''expired''])" using demo_work by blast
  moreover have "list_all turn_ok demo_turns" by (simp add: demo_turns_def turn_ok_def)
  ultimately have "wrun PIdle [AIdle Ready, ANext (Some 4) Leased, ALease 1 True LeaseOK, ACloseTCP 4,
      AIdle Ready, ANext None Expired, AClosed, AStat ''expired''] PDone \<and> True"
    by (rule conjI [OF conjunct1 [OF work_follows_pool] TrueI])
  then show ?thesis by simp
qed

subsection \<open>The client\<close>

text \<open>
  The moves of a slot, on the states the runtime keeps for it. The critical sections are the ones
  that \<open>Client_System\<close> guards by that state; everything else leaves it.
\<close>

fun moves_slot :: "cact \<Rightarrow> bool" where
  "moves_slot KRegistered = True"
| "moves_slot KBusy = True"
| "moves_slot (KDecide _) = True"
| "moves_slot _ = False"

inductive kmove :: "slotState \<Rightarrow> cact \<Rightarrow> slotState \<Rightarrow> bool" where
  k_registered: "kmove Connecting KRegistered IdleSlot"
| k_busy: "kmove IdleSlot KBusy BusySlot"
| k_decide: "kmove BusySlot (KDecide surplus) (if surplus then BusySlot else IdleSlot)"
| k_other: "\<not> moves_slot a \<Longrightarrow> kmove st a st"

inductive krun :: "slotState \<Rightarrow> cact list \<Rightarrow> slotState \<Rightarrow> bool" where
  krun_Nil: "krun st [] st"
| krun_Cons: "kmove st a st1 \<Longrightarrow> krun st1 as st2 \<Longrightarrow> krun st (a # as) st2"

fun klease_ids :: "cact list \<Rightarrow> u64 list" where
  "klease_ids [] = []"
| "klease_ids (KLease i out # as) = i # klease_ids as"
| "klease_ids (_ # as) = klease_ids as"

fun retired :: "cact list \<Rightarrow> string list" where
  "retired [] = []"
| "retired (KRetired reason # as) = reason # retired as"
| "retired (_ # as) = retired as"

lemma klease_ids_append [simp]: "klease_ids (xs @ ys) = klease_ids xs @ klease_ids ys"
  by (induction xs rule: klease_ids.induct) auto

lemma retired_append [simp]: "retired (xs @ ys) = retired xs @ retired ys"
  by (induction xs rule: retired.induct) auto

lemma krun_append: "krun st xs st1 \<Longrightarrow> krun st1 ys st2 \<Longrightarrow> krun st (xs @ ys) st2"
  by (induction rule: krun.induct) (auto intro: krun_Cons)

lemma krun_decide: "krun BusySlot [KDecide True] BusySlot" "krun BusySlot [KDecide False] IdleSlot"
  using k_decide [of True] k_decide [of False] by (auto intro: krun.intros)

lemma krun_other: "list_all (\<lambda>a. \<not> moves_slot a) as \<Longrightarrow> krun st as st"
  by (induction as) (auto intro: krun.intros k_other)

text \<open>One lease: from busy to idle, or still busy (surplus, or failed on the way).\<close>

definition lease_trace :: "cact list \<Rightarrow> error option \<Rightarrow> bool" where
  "lease_trace tr e \<longleftrightarrow> retired tr = [] \<and> klease_ids tr = [] \<and> KOpened \<notin> set tr
     \<and> (\<exists>st. krun BusySlot tr st \<and> st \<noteq> Connecting \<and> (e = None \<longrightarrow> st = IdleSlot))"

lemma client_release_trace: "client_release X surplus cid c = Some (c', tr, e) \<Longrightarrow> lease_trace tr e"
  using krun_decide krun_Nil [of BusySlot]
  by (fastforce simp: client_release_def lease_trace_def split: option.splits sum.splits prod.splits if_splits)

lemma lease_trace_wrap:
  assumes "lease_trace tr e" and "list_all (\<lambda>a. \<not> moves_slot a) xs" and "list_all (\<lambda>a. \<not> moves_slot a) ys"
    and "retired xs = []" "retired ys = []" "klease_ids xs = []" "klease_ids ys = []"
    and "KOpened \<notin> set xs" "KOpened \<notin> set ys"
  shows "lease_trace (xs @ tr @ ys) e"
proof -
  obtain st where st: "krun BusySlot tr st" "st \<noteq> Connecting" "e = None \<longrightarrow> st = IdleSlot"
    using assms(1) unfolding lease_trace_def by blast
  have "krun BusySlot (xs @ tr @ ys) st"
    by (rule krun_append [OF krun_other [OF assms(2)] krun_append [OF st(1) krun_other [OF assms(3)]]])
  with st assms show ?thesis unfolding lease_trace_def by auto
qed

lemma client_lease_trace:
  assumes "client_lease_body X J relay tn cid c = Some (c', t, df, tr, e)"
  shows "lease_trace tr e"
proof -
  have fail: "lease_trace [KLocalDialFailed] (Some x)" "lease_trace [KSetTCP True, KSetTCP False] (Some x)" for x
    using krun_other [of _ BusySlot] by (auto simp: lease_trace_def intro!: exI [of _ BusySlot])
  from assms show ?thesis
    using fail lease_trace_wrap [of _ _ "[KLocalDialFailed]" "[]"]
      lease_trace_wrap [of _ _ "[KSetTCP True]" "[KSetTCP False]"] client_release_trace
    by (fastforce simp: client_lease_body_def split: sum.splits prod.splits option.splits)
qed

lemma client_lease_ids:
  assumes "client_lease X J relay tn cid c = Some (c', t, tr, e)"
  shows "\<exists>tr0 out. tr = tr0 @ [KLease cid out] \<and> lease_trace tr0 e"
  using assms client_lease_trace by (fastforce simp: client_lease_def)

text \<open>What the loop adds to its trace, from an idle slot.\<close>

definition slot_trace :: "u64 \<Rightarrow> cact list \<Rightarrow> error option \<Rightarrow> bool" where
  "slot_trace lastid d e \<longleftrightarrow> counts_from (Suc (unat lastid)) (klease_ids d) \<and> KOpened \<notin> set d
     \<and> (\<exists>st. krun IdleSlot d st \<and> st \<noteq> Connecting)
     \<and> retired d \<in> (if e = None then {[], [''server_close''], [''surplus'']} else {[]})"

lemma slot_trace_end: "slot_trace lastid [] e" "slot_trace lastid [KRetired ''server_close''] None"
  using krun_other [of "[KRetired ''server_close'']" IdleSlot] krun_Nil [of IdleSlot]
  by (auto simp: slot_trace_def)

lemma krun_lease:
  assumes "krun BusySlot tr0 st"
  shows "krun IdleSlot (KBusy # KNotify # tr0 @ [KLease cid out]) st"
proof -
  have "krun st [KLease cid out] st" by (simp add: krun_other)
  then have "krun BusySlot (tr0 @ [KLease cid out]) st" using assms by (rule krun_append [rotated])
  then show ?thesis by (intro krun_Cons [OF k_busy] krun_Cons [OF k_other]) simp_all
qed

lemma slot_trace_lease:
  assumes "lease_trace tr0 e" and "lastid \<noteq> - 1"
  shows "slot_trace lastid (KBusy # KNotify # tr0 @ [KLease (lastid + 1) out]) (Some x)"
    and "slot_trace lastid ((KBusy # KNotify # tr0 @ [KLease (lastid + 1) out]) @ [KRetired ''surplus'']) None"
    and "e = None \<Longrightarrow> slot_trace (lastid + 1) d y
      \<Longrightarrow> slot_trace lastid ((KBusy # KNotify # tr0 @ [KLease (lastid + 1) out]) @ d) y"
proof -
  let ?l = "KBusy # KNotify # tr0 @ [KLease (lastid + 1) out]"
  obtain st where st: "krun BusySlot tr0 st" "st \<noteq> Connecting" "e = None \<longrightarrow> st = IdleSlot"
    using assms(1) by (auto simp: lease_trace_def)
  note l = krun_lease [OF st(1), of "lastid + 1" out]
  have f: "retired ?l = []" "klease_ids ?l = [lastid + 1]" "KOpened \<notin> set ?l"
    using assms(1) by (auto simp: lease_trace_def)
  have u: "unat (lastid + 1) = Suc (unat lastid)" using assms(2) by (rule unat_next)
  show "slot_trace lastid ?l (Some x)"
    using l st(2) f u unfolding slot_trace_def by auto
  have "krun IdleSlot (?l @ [KRetired ''surplus'']) st"
    by (rule krun_append [OF l]) (simp add: krun_other)
  then show "slot_trace lastid (?l @ [KRetired ''surplus'']) None"
    using st(2) f u unfolding slot_trace_def retired_append klease_ids_append by auto
  assume "e = None" and d: "slot_trace (lastid + 1) d y"
  then obtain st2 where "krun IdleSlot d st2" "st2 \<noteq> Connecting" by (auto simp: slot_trace_def)
  moreover have "krun IdleSlot ?l IdleSlot" using l st(3) \<open>e = None\<close> by simp
  ultimately have "\<exists>st. krun IdleSlot (?l @ d) st \<and> st \<noteq> Connecting" using krun_append by blast
  then show "slot_trace lastid (?l @ d) y"
    using d f u unfolding slot_trace_def retired_append klease_ids_append by auto
qed

lemma serve_loop_trace:
  assumes "serve_loop_client X J relay turns lastid c tr = Some (c', tr', e)"
  shows "\<exists>d. tr' = tr @ d \<and> slot_trace lastid d e"
  using assms
proof (induction turns arbitrary: lastid c tr)
  case Nil
  then show ?case by simp
next
  case (Cons tn rest)
  have fin: ?case if "tr' = tr" using that slot_trace_end(1) by simp
  show ?case
  proof (cases "ctn_ctx tn \<or> (\<exists>c1 f. read_frame (dx_rd X) c = Some (c1, Inr f) \<and> Typ f = OPEN) = False")
    case True
    show ?thesis
    proof (cases "tr' = tr")
      case True
      then show ?thesis by (rule fin)
    next
      case False
      with True Cons.prems Cons.IH slot_trace_end(2) show ?thesis
        by (auto split: option.splits sum.splits prod.splits if_splits)
    qed
  next
    case False
    then obtain c1 f where f: "\<not> ctn_ctx tn" "read_frame (dx_rd X) c = Some (c1, Inr f)" "Typ f = OPEN" by auto
    show ?thesis
    proof (cases "lastid = - 1 \<or> LeaseID f \<noteq> lastid + 1")
      case True
      with Cons.prems f show ?thesis by (intro fin) auto
    next
      case ids: False
      then obtain c2 t tr1 y where l: "client_lease X J relay tn (lastid + 1) c1 = Some (c2, t, tr1, y)"
        using Cons.prems f by (cases "client_lease X J relay tn (lastid + 1) c1") auto
      obtain tr0 out where tr1: "tr1 = tr0 @ [KLease (lastid + 1) out]" "lease_trace tr0 y"
        using client_lease_ids [OF l] by blast
      note st = slot_trace_lease [where lastid = lastid and out = out, OF tr1(2)]
      show ?thesis
      proof (cases y)
        case None
        with Cons.prems f ids l have "serve_loop_client X J relay rest (lastid + 1) c2
            (tr @ KBusy # KNotify # tr0 @ [KLease (lastid + 1) out]) = Some (c', tr', e)"
          by (simp add: tr1)
        from Cons.IH [OF this] st(3) ids None show ?thesis by fastforce
      next
        case (Some x)
        show ?thesis
        proof (cases "errors_Is x errSurplus")
          case True
          with Cons.prems f ids l Some have
            "tr' = tr @ (KBusy # KNotify # tr0 @ [KLease (lastid + 1) out]) @ [KRetired ''surplus'']" "e = None"
            by (auto simp: tr1)
          then show ?thesis using st(2) ids by blast
        next
          case False
          with Cons.prems f ids l Some have
            "tr' = tr @ (KBusy # KNotify # tr0 @ [KLease (lastid + 1) out])" "e = Some x"
            by (auto simp: tr1)
          then show ?thesis using st(1) ids by blast
        qed
      qed
    qed
  qed
qed

lemma serveSlot_krun:
  assumes "serveSlot X J relay h turns c = Some (c', tr, e)"
  shows "\<exists>st. krun Connecting tr st \<and> (st = Connecting) = (KOpened \<notin> set tr)
    \<and> map unat (klease_ids tr) = [1..<Suc (length (klease_ids tr))]
    \<and> retired tr \<in> (if e = None then {[], [''server_close''], [''surplus'']} else {[]})"
proof -
  have early: ?thesis if "tr \<in> {[]} \<union> range (\<lambda>code. [KRejected code])"
    using that by (auto intro!: exI [of _ Connecting] krun_other)
  consider "tr \<in> {[]} \<union> range (\<lambda>code. [KRejected code])"
    | d where "tr = KRegistered # KOpened # d" "slot_trace 0 d e"
    using assms slot_trace_end(1) [of 0] serve_loop_trace
    by (fastforce simp: serveSlot_def split: option.splits sum.splits prod.splits if_splits)
  then show ?thesis
  proof cases
    case 1
    then show ?thesis by (rule early)
  next
    case (2 d)
    then obtain st where "krun IdleSlot d st" "st \<noteq> Connecting" by (auto simp: slot_trace_def)
    then have "krun Connecting tr st" unfolding 2
      by (intro krun_Cons [OF k_registered] krun_Cons [OF k_other]) simp_all
    moreover have "map unat (klease_ids tr) = [1..<Suc (length (klease_ids tr))]"
      using 2 counts_from_upt [of 1 "klease_ids d"] by (simp add: slot_trace_def)
    ultimately show ?thesis
      using 2 \<open>st \<noteq> Connecting\<close> by (intro exI [of _ st]) (auto simp: slot_trace_def)
  qed
qed

text \<open>
  C17. The goroutine of a client connection keeps to the runtime's life cycle. Whatever the server
  sends, the critical sections it runs are, in order, a path of the slot's states; leases are numbered
  1, 2, 3, ...; it is registered once, or never; and it counts at most one retirement, none if it
  ends with an error (which \<open>runConn\<close> counts).
\<close>

theorem slot_follows_runtime:
  assumes "serveSlot X J relay h turns c = Some (c', tr, e)"
  shows "\<exists>st. krun Connecting tr st \<and> (st = Connecting) = (KOpened \<notin> set tr)
    \<and> map unat (klease_ids tr) = [1..<Suc (length (klease_ids tr))]
    \<and> retired tr \<in> (if e = None then {[], [''server_close''], [''surplus'']} else {[]})"
  by (rule serveSlot_krun [OF assms])

text \<open>A client connection that is registered, serves one lease and is retired as surplus.\<close>

definition demo_client :: net_conn where
  "demo_client = demo_tunnel\<lparr>rx := map (\<lambda>(t, i). encode_frame (plain_frame t i)) [(HELLO_OK, 0), (OPEN, 1), (RELEASE, 1)]\<rparr>"

definition demo_cturn :: client_turn where
  "demo_cturn = \<lparr>ctn_ctx = False, ctn_dial = Inr demo_tunnel, ctn_surplus = True\<rparr>"

lemma demo_serve:
  "\<exists>c'. serveSlot net_duplex demo_json demo_relay demo_hello [demo_cturn] demo_client
    = Some (c', [KRegistered, KOpened, KBusy, KNotify, KSetTCP True, KDecide True, KSetTCP False,
        KLease 1 LeaseOK, KRetired ''surplus''], None)"
proof -
  have s: "steady demo_client" by (simp add: demo_client_def demo_tunnel_def steady_def)
  have n: "net_content demo_client = encode_frame (plain_frame HELLO_OK 0) @ encode_frame (plain_frame OPEN 1)
      @ encode_frame (plain_frame RELEASE 1) @ []"
    by (simp add: demo_client_def demo_tunnel_def net_content_def)
  have k: "frame_ok \<lparr>Typ = HELLO, LeaseID = 0, Payload = [123, 125]\<rparr>" "frame_ok (plain_frame HELLO_OK 0)"
    "frame_ok (plain_frame READY 0)" "frame_ok (plain_frame OPEN 1)"
    "frame_ok (plain_frame OPEN_OK 1)" "frame_ok (plain_frame RELEASE 1)" "frame_ok (plain_frame CLOSE 0)"
    by (simp_all add: frame_ok_def valid_def plain_frame_def)
  from ask [OF s k(1,2) n] obtain c1 where
    1: "write_frame net_write demo_client \<lparr>Typ = HELLO, LeaseID = 0, Payload = [123, 125]\<rparr>
        = (demo_client\<lparr>tx := tx demo_client @ encode_frame \<lparr>Typ = HELLO, LeaseID = 0, Payload = [123, 125]\<rparr>\<rparr>, None)"
      "read_frame net_read (demo_client\<lparr>tx := tx demo_client @ encode_frame \<lparr>Typ = HELLO, LeaseID = 0, Payload = [123, 125]\<rparr>\<rparr>)
        = Some (c1, Inr (plain_frame HELLO_OK 0))"
    and c1: "steady c1" "net_content c1 = encode_frame (plain_frame OPEN 1) @ encode_frame (plain_frame RELEASE 1) @ []"
    by metis
  from ask [OF c1(1) k(3,4) c1(2)] obtain c2 where
    2: "write_frame net_write c1 (plain_frame READY 0) = (c1\<lparr>tx := tx c1 @ encode_frame (plain_frame READY 0)\<rparr>, None)"
      "read_frame net_read (c1\<lparr>tx := tx c1 @ encode_frame (plain_frame READY 0)\<rparr>) = Some (c2, Inr (plain_frame OPEN 1))"
    and c2: "steady c2" "net_content c2 = encode_frame (plain_frame RELEASE 1) @ []" by metis
  from ask [OF c2(1) k(5,6) c2(2)] obtain c3 where
    3: "write_frame net_write c2 (plain_frame OPEN_OK 1) = (c2\<lparr>tx := tx c2 @ encode_frame (plain_frame OPEN_OK 1)\<rparr>, None)"
      "read_frame net_read (c2\<lparr>tx := tx c2 @ encode_frame (plain_frame OPEN_OK 1)\<rparr>) = Some (c3, Inr (plain_frame RELEASE 1))"
    and c3: "steady c3" by metis
  note 4 = say [OF c3 k(7)]
  have j: "js_put_hello demo_json h = [123, 125]" for h by (simp add: demo_json_def)
  show ?thesis
    by (simp add: serveSlot_def net_duplex_def j 1 2 3 4 demo_cturn_def client_lease_def client_lease_body_def
        client_release_def demo_relay_def client_outcome_def errSurplus_def)
qed

theorem slot_follows_runtime_witness:
  "\<exists>st. krun Connecting [KRegistered, KOpened, KBusy, KNotify, KSetTCP True, KDecide True, KSetTCP False,
      KLease 1 LeaseOK, KRetired ''surplus''] st \<and> st \<noteq> Connecting"
proof -
  obtain c' where "serveSlot net_duplex demo_json demo_relay demo_hello [demo_cturn] demo_client
    = Some (c', [KRegistered, KOpened, KBusy, KNotify, KSetTCP True, KDecide True, KSetTCP False,
        KLease 1 LeaseOK, KRetired ''surplus''], None)" using demo_serve by blast
  from slot_follows_runtime [OF this] show ?thesis by auto
qed

end
