(* ===== verification/Session.thy ===== *)
theory Session
  imports Worker_Trace
begin

text \<open>
  A whole lease, with both ends of the tunnel connection: the server's \<open>lease\<close>, the client's \<open>lease\<close>
  and the relay between them, over plain connections.
\<close>

subsection \<open>The relay as the workers call it\<close>

text \<open>A connection whose two halves were used by different goroutines: \<open>w\<close> wrote, \<open>r\<close> read.\<close>

definition join_conn :: "net_conn \<Rightarrow> net_conn \<Rightarrow> net_conn" where
  "join_conn w r = w\<lparr>rx := rx r, rx_end := rx_end r, shut := shut w \<or> shut r\<rparr>"

text \<open>
  \<open>codec.Run\<close> with a codec that starts each lease in its reset state; an abort closes both
  connections. \<open>closew\<close> and \<open>up_first\<close> are as in \<open>Run\<close>; the counters are left out.
\<close>

definition relay_run ::
    "'z encoder \<Rightarrow> 'd decoder \<Rightarrow> 'z \<Rightarrow> 'd \<Rightarrow> (net_conn \<Rightarrow> error option) \<Rightarrow> bool \<Rightarrow> net_conn relay_fun" where
  "relay_run Z D z0 d0 closew up_first c t cid =
     (case Run net_write net_read Z D (\<lambda>_. None) closew None None None up_first
             (run_up c cid t None None z0) (run_down c cid t None None d0) of
        None \<Rightarrow> None
      | Some (u, v, aborts, dropped, e) \<Rightarrow>
          (let c' = join_conn (fw_conn (up_fw u)) (fr_conn (dn_fr v));
               t' = join_conn (dw_conn (dn_dw v)) (up_tcp u)
           in Some (if aborts > 0 then (net_close c', net_close t', e) else (c', t', e))))"

subsection \<open>Sending on a steady connection\<close>

definition up_frames :: "u64 \<Rightarrow> bytes list \<Rightarrow> bytes" where
  "up_frames cid bs = data_bytes cid (concat (map chunks bs))"

lemma frame_write_steady:
  "steady (fw_conn w) \<Longrightarrow> \<exists>w'. frame_write_loop net_write w p k = (w', k + length p, None)
     \<and> fw_conn w' = (fw_conn w)\<lparr>tx := tx (fw_conn w) @ data_bytes (fw_id w) (chunks p)\<rparr> \<and> fw_id w' = fw_id w"
proof (induction "length p" arbitrary: w p k rule: less_induct)
  case less
  show ?case
  proof (cases "p = []")
    case True
    then show ?thesis by (subst frame_write_loop.simps) simp
  next
    case False
    let ?n = "min (length p) 32768"
    have t: "take ?n p = take chunk p" "drop ?n p = drop chunk p" by (auto simp: min_def)
    let ?f = "data_frame (fw_id w) (take ?n p)"
    have "frame_ok ?f" using False by (intro data_frame_ok) (auto simp: piece_ok_def)
    note w = say [OF less.prems this]
    let ?w = "w\<lparr>fw_conn := (fw_conn w)\<lparr>tx := tx (fw_conn w) @ encode_frame ?f\<rparr>,
      fw_bytes := add_count ?n (fw_bytes w)\<rparr>"
    have "length (drop ?n p) < length p" "steady (fw_conn ?w)" using False less.prems by simp_all
    from less.hyps [OF this, of "k + ?n"] obtain w' where
      "frame_write_loop net_write ?w (drop ?n p) (k + ?n) = (w', k + ?n + length (drop ?n p), None)"
      "fw_conn w' = (fw_conn ?w)\<lparr>tx := tx (fw_conn ?w) @ data_bytes (fw_id ?w) (chunks (drop ?n p))\<rparr>"
      "fw_id w' = fw_id w" by auto
    moreover have "k + ?n + length (drop ?n p) = k + length p" by simp
    moreover have "frame_write_loop net_write w p k = frame_write_loop net_write ?w (drop ?n p) (k + ?n)"
      using False w by (subst frame_write_loop.simps) (simp add: Let_def)
    moreover have "chunks p = take ?n p # chunks (drop ?n p)"
      using False by (subst chunks.simps) (simp add: t)
    ultimately show ?thesis by (intro exI [of _ w']) (simp add: data_bytes_def)
  qed
qed

lemma emit_steady:
  "steady (fw_conn w) \<Longrightarrow> \<exists>w'. emit net_write w bs = (w', None)
     \<and> fw_conn w' = (fw_conn w)\<lparr>tx := tx (fw_conn w) @ up_frames (fw_id w) bs\<rparr> \<and> fw_id w' = fw_id w"
proof (induction bs arbitrary: w)
  case Nil
  then show ?case by (simp add: up_frames_def)
next
  case (Cons b bs)
  obtain w1 where w1: "frame_write_loop net_write w b 0 = (w1, length b, None)"
    "fw_conn w1 = (fw_conn w)\<lparr>tx := tx (fw_conn w) @ data_bytes (fw_id w) (chunks b)\<rparr>" "fw_id w1 = fw_id w"
    using frame_write_steady [OF Cons.prems, of b 0] by auto
  then have "steady (fw_conn w1)" using Cons.prems by simp
  from Cons.IH [OF this] w1 show ?case by (auto simp: frame_write_def up_frames_def)
qed

text \<open>What the sending goroutine puts on a steady connection depends on the local socket only.\<close>

lemma up_loop_steady:
  "net_ending t = EOF \<Longrightarrow> \<exists>S. \<forall>u. up_tcp u = t \<longrightarrow> up_z u = z \<longrightarrow> fw_id (up_fw u) = cid \<longrightarrow> steady (fw_conn (up_fw u)) \<longrightarrow>
     (\<exists>u'. up_loop net_write Z u = Some (u', None)
        \<and> fw_conn (up_fw u') = (fw_conn (up_fw u))\<lparr>tx := tx (fw_conn (up_fw u)) @ S\<rparr>)"
proof (induction "length (net_content t)" arbitrary: t z rule: less_induct)
  case less
  obtain t1 b e where r: "net_read t 32768 = (t1, b, e)" by (cases "net_read t 32768") auto
  show ?case
  proof (cases e)
    case (Some x)
    with r have "b = []" "x = EOF" using net_rd.rd_err less.prems by auto
    obtain z1 o1 where z: "ze_close Z z = (z1, o1)" by fastforce
    let ?S = "up_frames cid o1 @ encode_frame (fin_frame cid)"
    have "\<exists>u'. up_loop net_write Z u = Some (u', None)
        \<and> fw_conn (up_fw u') = (fw_conn (up_fw u))\<lparr>tx := tx (fw_conn (up_fw u)) @ ?S\<rparr>"
      if u: "up_tcp u = t" "up_z u = z" "fw_id (up_fw u) = cid" "steady (fw_conn (up_fw u))" for u
    proof -
      obtain w1 where w1: "emit net_write (up_fw u) o1 = (w1, None)"
        "fw_conn w1 = (fw_conn (up_fw u))\<lparr>tx := tx (fw_conn (up_fw u)) @ up_frames cid o1\<rparr>" "fw_id w1 = cid"
        using emit_steady [OF u(4), of o1] u(3) by auto
      have "steady (fw_conn w1)" using w1(2) u(4) by simp
      note f = say [OF this fin_frame_ok [of cid]]
      show ?thesis
        using Some r u \<open>b = []\<close> \<open>x = EOF\<close> z w1 f
        by (simp add: up_loop_step [where t = t1 and b = b and e = e] up_end_def fin_frame_def)
    qed
    then show ?thesis by blast
  next
    case None
    with r have c: "b \<noteq> []" "net_content t = b @ net_content t1" "net_ending t1 = EOF"
      using net_rd.rd_ok net_rd.rd_progress less.prems by auto
    then have lt: "length (net_content t1) < length (net_content t)" by simp
    obtain z1 o1 where z1: "ze_write Z z b = (z1, o1)" by fastforce
    obtain z2 o2 where z2: "ze_flush Z z1 = (z2, o2)" by fastforce
    obtain S where S: "\<And>u. up_tcp u = t1 \<Longrightarrow> up_z u = z2 \<Longrightarrow> fw_id (up_fw u) = cid \<Longrightarrow> steady (fw_conn (up_fw u)) \<Longrightarrow>
       (\<exists>u'. up_loop net_write Z u = Some (u', None)
          \<and> fw_conn (up_fw u') = (fw_conn (up_fw u))\<lparr>tx := tx (fw_conn (up_fw u)) @ S\<rparr>)"
      using less.hyps [OF lt c(3), of z2] by blast
    let ?S = "up_frames cid o1 @ up_frames cid o2 @ S"
    have "\<exists>u'. up_loop net_write Z u = Some (u', None)
        \<and> fw_conn (up_fw u') = (fw_conn (up_fw u))\<lparr>tx := tx (fw_conn (up_fw u)) @ ?S\<rparr>"
      if u: "up_tcp u = t" "up_z u = z" "fw_id (up_fw u) = cid" "steady (fw_conn (up_fw u))" for u
    proof -
      obtain w1 where w1: "emit net_write (up_fw u) o1 = (w1, None)"
        "fw_conn w1 = (fw_conn (up_fw u))\<lparr>tx := tx (fw_conn (up_fw u)) @ up_frames cid o1\<rparr>" "fw_id w1 = cid"
        using emit_steady [OF u(4), of o1] u(3) by auto
      then have s1: "steady (fw_conn w1)" using u(4) by simp
      obtain w2 where w2: "emit net_write w1 o2 = (w2, None)"
        "fw_conn w2 = (fw_conn w1)\<lparr>tx := tx (fw_conn w1) @ up_frames cid o2\<rparr>" "fw_id w2 = cid"
        using emit_steady [OF s1, of o2] w1(3) by auto
      let ?u = "u\<lparr>up_tcp := t1, up_raw := add_count (length b) (up_raw u), up_z := z2, up_fw := w2\<rparr>"
      have "steady (fw_conn (up_fw ?u))" using w2(2) s1 by simp
      from S [of ?u, OF _ _ _ this] w2(3) obtain u' where "up_loop net_write Z ?u = Some (u', None)"
        "fw_conn (up_fw u') = (fw_conn w2)\<lparr>tx := tx (fw_conn w2) @ S\<rparr>" by auto
      moreover have "up_loop net_write Z u = up_loop net_write Z ?u"
        using None r u c(1) z1 z2 w1(1) w2(1)
        by (simp add: up_loop_step [where t = t1 and b = b and e = e] up_push_def)
      ultimately show ?thesis using w1(2) w2(2) by simp
    qed
    then show ?thesis by blast
  qed
qed

subsection \<open>One side of the relay\<close>

definition streams :: "'z encoder \<Rightarrow> 'z \<Rightarrow> u64 \<Rightarrow> net_conn \<Rightarrow> bytes \<Rightarrow> bool" where
  "streams Z z0 cid t S \<longleftrightarrow> (\<forall>u. up_tcp u = t \<longrightarrow> up_z u = z0 \<longrightarrow> fw_id (up_fw u) = cid \<longrightarrow> steady (fw_conn (up_fw u)) \<longrightarrow>
     (\<exists>u'. up_loop net_write Z u = Some (u', None)
        \<and> fw_conn (up_fw u') = (fw_conn (up_fw u))\<lparr>tx := tx (fw_conn (up_fw u)) @ S\<rparr>))"

lemma streams_ex: "net_ending t = EOF \<Longrightarrow> \<exists>S. streams Z z0 cid t S"
  unfolding streams_def by (rule up_loop_steady)

lemma streams_run:
  assumes "streams Z z0 cid t S" and "steady c"
  obtains u where "up_loop net_write Z (run_up c cid t None None z0) = Some (u, None)"
    and "fw_conn (up_fw u) = c\<lparr>tx := tx c @ S\<rparr>"
proof -
  have "\<exists>u'. up_loop net_write Z (run_up c cid t None None z0) = Some (u', None)
      \<and> fw_conn (up_fw u') = c\<lparr>tx := tx c @ S\<rparr>"
    using assms(1) [unfolded streams_def, rule_format, of "run_up c cid t None None z0"] assms(2)
    by (simp add: run_up_def)
  then show ?thesis using that by blast
qed

lemma relay_run_side:
  assumes codec: "codec_ok Z z0 D d0" and cw: "\<And>c. closew c = None \<or> closew c = Some ENOTCONN"
    and S: "streams Z z0 cid t S" and S2: "streams Z z0 cid t2 S2"
    and c: "steady c" "net_content c = S2 @ rest" and t: "steady t" and rest: "rest \<noteq> []"
  obtains c' t' where "relay_run Z D z0 d0 closew first c t cid = Some (c', t', None)"
    and "steady c'" and "tx c' = tx c @ S" and "net_content c' = rest" and "tx t' = tx t @ net_content t2"
proof -
  obtain u where u: "up_loop net_write Z (run_up c cid t None None z0) = Some (u, None)"
    "fw_conn (up_fw u) = c\<lparr>tx := tx c @ S\<rparr>" using streams_run [OF S c(1)] .
  obtain u2 where u2: "up_loop net_write Z (run_up c cid t2 None None z0) = Some (u2, None)"
    "fw_conn (up_fw u2) = c\<lparr>tx := tx c @ S2\<rparr>" using streams_run [OF S2 c(1)] .
  have link: "net_content c = p @ rest" if "tx (fw_conn (up_fw u2)) = tx c @ p" for p
    using that u2(2) c(2) by simp
  have "tx_plan t = []" "\<not> shut t" using t by (simp_all add: steady_def)
  then obtain v where v: "down net_read (\<lambda>_. None) closew D (run_down c cid t None None d0) = Some (v, None)"
    "tx (dw_conn (dn_dw v)) = tx t @ net_content t2" "net_content (fr_conn (dn_fr v)) = rest"
    using relay_delivers [where closew = closew,
      OF net_wr.sends.sender_axioms net_rd.byte_reader_axioms codec u2(1) link _ _ cw] by blast
  have open_v: "\<not> shut (fr_conn (dn_fr v))" using v(3) rest by (auto simp: net_content_def)
  let ?c = "join_conn (fw_conn (up_fw u)) (fr_conn (dn_fr v))"
  have k: "relay_run Z D z0 d0 closew first c t cid = Some (?c, join_conn (dw_conn (dn_dw v)) (up_tcp u), None)"
    by (simp add: relay_run_def Run_def u(1) v(1) run_end_def)
  have "steady ?c" "net_content ?c = rest" "tx ?c = tx c @ S"
    using u(2) v(3) open_v c(1) by (simp_all add: join_conn_def steady_def net_content_def)
  moreover have "tx (join_conn (dw_conn (dn_dw v)) (up_tcp u)) = tx t @ net_content t2"
    using v(2) by (simp add: join_conn_def)
  ultimately show ?thesis using that k by blast
qed

subsection \<open>A lease at both ends\<close>

definition barrier_frame :: "bool \<Rightarrow> u64 \<Rightarrow> frame" where
  "barrier_frame surplus cid = (if surplus then plain_frame CLOSE 0 else plain_frame READY cid)"

lemma barrier_ok [simp]: "frame_ok (barrier_frame surplus cid)"
  by (simp add: barrier_frame_def)

lemma encode_ne [simp]: "encode_frame f \<noteq> []" "encode_frame f @ r \<noteq> []"
  using encode_frame_not_Nil by auto

lemma server_side:
  assumes codec: "codec_ok Z z0 D d0" and cw: "\<And>c. closew c = None \<or> closew c = Some ENOTCONN"
    and S: "streams Z z0 cid t S" and S2: "streams Z z0 cid t2 S2"
    and a: "steady a" "net_content a = encode_frame (plain_frame OPEN_OK cid) @ S2
      @ encode_frame (barrier_frame surplus cid) @ ra" and t: "steady t"
  shows "\<exists>l. lease net_duplex J (relay_run Z D z0 d0 closew first) cid a t
      = Some (l, if surplus then Some errClientClose else None, if surplus then LeaseClientClose else LeaseOK)
    \<and> tx (ls_conn l) = tx a @ encode_frame (plain_frame OPEN cid) @ S @ encode_frame (plain_frame RELEASE cid)
    \<and> tx (ls_tcp l) = tx t @ net_content t2 \<and> net_content (ls_conn l) = ra \<and> steady (ls_conn l)
    \<and> ls_releasing l \<and> \<not> ls_dialFailed l"
proof -
  have k: "frame_ok (plain_frame OPEN cid)" "frame_ok (plain_frame OPEN_OK cid)" "frame_ok (plain_frame RELEASE cid)"
    by simp_all
  from ask [OF a(1) k(1,2) a(2)] obtain c1 where
    1: "write_frame net_write a (plain_frame OPEN cid) = (a\<lparr>tx := tx a @ encode_frame (plain_frame OPEN cid)\<rparr>, None)"
      "read_frame net_read (a\<lparr>tx := tx a @ encode_frame (plain_frame OPEN cid)\<rparr>) = Some (c1, Inr (plain_frame OPEN_OK cid))"
    and c1: "steady c1" "net_content c1 = S2 @ encode_frame (barrier_frame surplus cid) @ ra"
      "tx c1 = tx a @ encode_frame (plain_frame OPEN cid)" by metis
  obtain c2 t' where
    2: "relay_run Z D z0 d0 closew first c1 t cid = Some (c2, t', None)"
    and c2: "steady c2" "tx c2 = tx c1 @ S" "net_content c2 = encode_frame (barrier_frame surplus cid) @ ra"
    and t': "tx t' = tx t @ net_content t2"
    by (rule relay_run_side [where closew = closew, OF codec cw S S2 c1(1,2) t]) simp_all
  from ask [OF c2(1) k(3) barrier_ok c2(3)] obtain c3 where
    3: "write_frame net_write c2 (plain_frame RELEASE cid) = (c2\<lparr>tx := tx c2 @ encode_frame (plain_frame RELEASE cid)\<rparr>, None)"
      "read_frame net_read (c2\<lparr>tx := tx c2 @ encode_frame (plain_frame RELEASE cid)\<rparr>) = Some (c3, Inr (barrier_frame surplus cid))"
    and c3: "steady c3" "net_content c3 = ra" "tx c3 = tx c2 @ encode_frame (plain_frame RELEASE cid)" by metis
  let ?l = "\<lparr>ls_conn = c3, ls_tcp = t', ls_releasing = True, ls_dialFailed = False\<rparr>"
  have "lease net_duplex J (relay_run Z D z0 d0 closew first) cid a t
      = Some (?l, if surplus then Some errClientClose else None, if surplus then LeaseClientClose else LeaseOK)"
    by (simp add: lease_def lease_body_def release_barrier_def net_duplex_def 1 2 3 Let_def barrier_frame_def
        lease_outcome_def)
  then show ?thesis
    using c1 c2 c3 t' by (intro exI [of _ ?l]) simp
qed

lemma client_side:
  assumes codec: "codec_ok Z z0 D d0" and cw: "\<And>c. closew c = None \<or> closew c = Some ENOTCONN"
    and S: "streams Z z0 cid t S" and S2: "streams Z z0 cid t2 S2"
    and b: "steady b" "net_content b = S @ encode_frame (plain_frame RELEASE cid) @ rb" and t: "steady t2"
  shows "\<exists>b' t'. client_lease net_duplex J (relay_run Z D z0 d0 closew first)
        \<lparr>ctn_ctx = False, ctn_dial = Inr t2, ctn_surplus = surplus\<rparr> cid b
      = Some (b', Some t', [KSetTCP True, KDecide surplus, KSetTCP False] @ [KLease cid LeaseOK],
          if surplus then Some errSurplus else None)
    \<and> tx b' = tx b @ encode_frame (plain_frame OPEN_OK cid) @ S2 @ encode_frame (barrier_frame surplus cid)
    \<and> tx t' = tx t2 @ net_content t \<and> net_content b' = rb \<and> steady b'"
proof -
  have k: "frame_ok (plain_frame OPEN_OK cid)" "frame_ok (plain_frame RELEASE cid)" by simp_all
  note 1 = say [OF b(1) k(1)]
  let ?b = "b\<lparr>tx := tx b @ encode_frame (plain_frame OPEN_OK cid)\<rparr>"
  have b1: "steady ?b" "net_content ?b = S @ encode_frame (plain_frame RELEASE cid) @ rb" using b by simp_all
  obtain b2 t' where
    2: "relay_run Z D z0 d0 closew first ?b t2 cid = Some (b2, t', None)"
    and b2: "steady b2" "tx b2 = tx ?b @ S2" "net_content b2 = encode_frame (plain_frame RELEASE cid) @ rb"
    and t': "tx t' = tx t2 @ net_content t"
    by (rule relay_run_side [where closew = closew, OF codec cw S2 S b1 t]) simp_all
  obtain b3 where 3: "read_frame net_read b2 = Some (b3, Inr (plain_frame RELEASE cid))"
    and b3: "net_content b3 = rb" "tx b3 = tx b2" "steady b3"
    using hear [OF b2(3) k(2) b2(1)] by metis
  note 4 = say [OF b3(3) barrier_ok [of surplus cid]]
  let ?b4 = "b3\<lparr>tx := tx b3 @ encode_frame (barrier_frame surplus cid)\<rparr>"
  have "client_release net_duplex surplus cid b2
      = Some (?b4, [KDecide surplus], if surplus then Some errSurplus else None)"
    using 4 by (cases surplus) (simp_all add: client_release_def net_duplex_def 3 barrier_frame_def)
  moreover have "client_outcome (if surplus then Some errSurplus else None) False = LeaseOK"
    by (simp add: client_outcome_def)
  ultimately have "client_lease net_duplex J (relay_run Z D z0 d0 closew first)
        \<lparr>ctn_ctx = False, ctn_dial = Inr t2, ctn_surplus = surplus\<rparr> cid b
      = Some (?b4, Some (net_close t'), [KSetTCP True, KDecide surplus, KSetTCP False] @ [KLease cid LeaseOK],
          if surplus then Some errSurplus else None)"
    using 1 2 by (simp add: client_lease_def client_lease_body_def net_duplex_def)
  then show ?thesis
    using b2 b3 t' by (intro exI [of _ ?b4] exI [of _ "net_close t'"]) (auto simp: net_close_def)
qed

text \<open>Both ends, with the bytes of each direction.\<close>

definition server_bytes :: "u64 \<Rightarrow> bytes \<Rightarrow> bytes" where
  "server_bytes cid S = encode_frame (plain_frame OPEN cid) @ S @ encode_frame (plain_frame RELEASE cid)"

definition client_bytes :: "u64 \<Rightarrow> bool \<Rightarrow> bytes \<Rightarrow> bytes" where
  "client_bytes cid surplus S = encode_frame (plain_frame OPEN_OK cid) @ S @ encode_frame (barrier_frame surplus cid)"

lemma lease_both:
  assumes codec: "codec_ok Z z0 D d0" and cw: "\<And>c. closew c = None \<or> closew c = Some ENOTCONN"
    and S: "streams Z z0 cid t1 S" and S2: "streams Z z0 cid t2 S2" and t: "steady t1" "steady t2"
    and ab: "steady a" "steady b" "net_content a = client_bytes cid surplus S2 @ ra" "net_content b = server_bytes cid S @ rb"
  shows "\<exists>l b1 b2 t tr.
      lease net_duplex J (relay_run Z D z0 d0 closew up_a) cid a t1
        = Some (l, if surplus then Some errClientClose else None, if surplus then LeaseClientClose else LeaseOK)
      \<and> ls_releasing l \<and> tx (ls_conn l) = tx a @ server_bytes cid S \<and> net_content (ls_conn l) = ra
      \<and> tx (ls_tcp l) = tx t1 @ net_content t2
      \<and> read_frame net_read b = Some (b1, Inr (plain_frame OPEN cid))
      \<and> client_lease net_duplex J (relay_run Z D z0 d0 closew up_b)
          \<lparr>ctn_ctx = False, ctn_dial = Inr t2, ctn_surplus = surplus\<rparr> cid b1
        = Some (b2, Some t, tr @ [KLease cid LeaseOK], if surplus then Some errSurplus else None)
      \<and> tx b2 = tx b @ client_bytes cid surplus S2 \<and> net_content b2 = rb \<and> tx t = tx t2 @ net_content t1"
proof -
  have a: "net_content a = encode_frame (plain_frame OPEN_OK cid) @ S2 @ encode_frame (barrier_frame surplus cid) @ ra"
    using ab(3) by (simp add: client_bytes_def)
  have b: "net_content b = encode_frame (plain_frame OPEN cid) @ S @ encode_frame (plain_frame RELEASE cid) @ rb"
    using ab(4) by (simp add: server_bytes_def)
  have "frame_ok (plain_frame OPEN cid)" by simp
  from hear [OF b this ab(2)] obtain b1 where b1: "read_frame net_read b = Some (b1, Inr (plain_frame OPEN cid))"
    "net_content b1 = S @ encode_frame (plain_frame RELEASE cid) @ rb" "tx b1 = tx b" "steady b1" by metis
  from server_side [where closew = closew and J = J and first = up_a, OF codec cw S S2 ab(1) a t(1)]
    client_side [where closew = closew and J = J and first = up_b and surplus = surplus,
      OF codec cw S S2 b1(4,2) t(2)] b1(1,3)
  show ?thesis unfolding server_bytes_def client_bytes_def
    by (elim exE conjE) (intro exI conjI, assumption+, simp_all)
qed

text \<open>
  C3. A lease completes at both ends. For any lossless codec and any two local sockets that end in
  order, there is one byte string for each direction of the tunnel such that, whatever else is
  queued behind it and however it is cut into segments: if the server's connection holds what the
  client sends, and the client's what the server sends, then the server's \<open>lease\<close> sends exactly its
  string, hands the visitor all the bytes of the local service and reaches the release barrier
  successfully, and the client reads OPEN, its \<open>lease\<close> sends exactly its string and hands the local
  service all the bytes of the visitor. Both take the same decision: the connection is reused, or
  closed as surplus. Nothing of the next lease is consumed.
\<close>

theorem lease_completes:
  assumes "codec_ok Z z0 D d0" and "\<And>c. closew c = None \<or> closew c = Some ENOTCONN"
    and "net_ending t1 = EOF" and "net_ending t2 = EOF" and "steady t1" and "steady t2"
  shows "\<exists>SA SB. \<forall>a b ra rb.
    steady a \<and> steady b \<and> net_content a = SB @ ra \<and> net_content b = SA @ rb \<longrightarrow>
    (\<exists>l b1 b2 t tr.
      lease net_duplex J (relay_run Z D z0 d0 closew up_a) cid a t1
        = Some (l, if surplus then Some errClientClose else None, if surplus then LeaseClientClose else LeaseOK)
      \<and> ls_releasing l \<and> tx (ls_conn l) = tx a @ SA \<and> net_content (ls_conn l) = ra
      \<and> tx (ls_tcp l) = tx t1 @ net_content t2
      \<and> read_frame net_read b = Some (b1, Inr (plain_frame OPEN cid))
      \<and> client_lease net_duplex J (relay_run Z D z0 d0 closew up_b)
          \<lparr>ctn_ctx = False, ctn_dial = Inr t2, ctn_surplus = surplus\<rparr> cid b1
        = Some (b2, Some t, tr @ [KLease cid LeaseOK], if surplus then Some errSurplus else None)
      \<and> tx b2 = tx b @ SB \<and> net_content b2 = rb \<and> tx t = tx t2 @ net_content t1)"
proof -
  obtain S where S: "streams Z z0 cid t1 S" using streams_ex [OF assms(3), of Z z0 cid] by blast
  obtain S2 where S2: "streams Z z0 cid t2 S2" using streams_ex [OF assms(4), of Z z0 cid] by blast
  show ?thesis
    using lease_both [where closew = closew and J = J and up_a = up_a and up_b = up_b and surplus = surplus,
      OF assms(1,2) S S2 assms(5,6)]
    by (intro exI [of _ "server_bytes cid S"] exI [of _ "client_bytes cid surplus S2"]) blast
qed

theorem lease_completes_witness:
  "\<exists>a l. lease net_duplex demo_json (relay_run demo_enc demo_dec () ([], None) (\<lambda>_. None) True) 1 a demo_local
      = Some (l, None, LeaseOK)
    \<and> tx (ls_tcp l) = [1, 2, 3, 4, 5] \<and> net_content (ls_conn l) = [9, 9]"
proof -
  have e: "net_ending demo_local = EOF" "steady demo_local" "tx demo_local = []" "net_content demo_local = [1, 2, 3, 4, 5]"
    by (simp_all add: demo_local_def net_ending_def steady_def net_content_def)
  have cw: "\<And>c :: net_conn. (\<lambda>_. None :: error option) c = None \<or> (\<lambda>_. None) c = Some ENOTCONN" by simp
  obtain SA SB where L: "\<And>a b ra rb. steady a \<and> steady b \<and> net_content a = SB @ ra \<and> net_content b = SA @ rb \<Longrightarrow>
      \<exists>l. lease net_duplex demo_json (relay_run demo_enc demo_dec () ([], None) (\<lambda>_. None) True) 1 a demo_local
          = Some (l, None, LeaseOK)
        \<and> net_content (ls_conn l) = ra \<and> tx (ls_tcp l) = tx demo_local @ net_content demo_local"
    using lease_completes [where surplus = False and J = demo_json and up_a = True and up_b = True and cid = 1,
        OF demo_codec cw e(1,1,2,2)] by (simp only: if_False) (elim exE, rule that, blast)
  have n: "net_content (demo_tunnel\<lparr>rx := xs\<rparr>) = concat xs" "steady (demo_tunnel\<lparr>rx := xs\<rparr>)" for xs
    by (simp_all add: demo_tunnel_def net_content_def steady_def)
  show ?thesis
    using L [of "demo_tunnel\<lparr>rx := [SB, [9, 9]]\<rparr>" "demo_tunnel\<lparr>rx := [SA]\<rparr>" "[9, 9]" "[]"] n e by auto
qed

end
