(* ===== verification/Session_Run.thy ===== *)
theory Session_Run
  imports Session
begin

text \<open>
  The whole life of a tunnel connection, with both ends: registration, any number of heartbeats and
  leases in any order, and the farewell of an expired connection.
\<close>

subsection \<open>Scripts\<close>

text \<open>
  What happens on the connection: a heartbeat with its nonce, or visitor \<open>v\<close> with its socket and the
  socket of the local service.
\<close>

datatype round = Beat bytes | Serve nat net_conn net_conn

fun round_ok :: "round \<Rightarrow> bool" where
  "round_ok (Beat n) = (length n = 8)"
| "round_ok (Serve v t1 t2) = (net_ending t1 = EOF \<and> net_ending t2 = EOF \<and> steady t1 \<and> steady t2)"

text \<open>What the pool answers the server's goroutine, and what the client meets.\<close>

definition quiet_turn :: "nat option \<Rightarrow> outcome \<Rightarrow> net_conn \<Rightarrow> error + bytes \<Rightarrow> turn" where
  "quiet_turn v oc t nonce = \<lparr>tn_next = (v, oc), tn_tcp = t, tn_idle = Ready, tn_nonce = nonce\<rparr>"

fun server_turns :: "round list \<Rightarrow> turn list" where
  "server_turns [] = [quiet_turn None Expired demo_tunnel (Inl EOF)]"
| "server_turns (Beat n # rs) = quiet_turn None Check demo_tunnel (Inr n) # server_turns rs"
| "server_turns (Serve v t1 t2 # rs) = quiet_turn (Some v) Leased t1 (Inl EOF) # server_turns rs"

fun client_turns :: "round list \<Rightarrow> client_turn list" where
  "client_turns [] = [\<lparr>ctn_ctx = False, ctn_dial = Inl EOF, ctn_surplus = False\<rparr>]"
| "client_turns (Beat n # rs) = \<lparr>ctn_ctx = False, ctn_dial = Inl EOF, ctn_surplus = False\<rparr> # client_turns rs"
| "client_turns (Serve v t1 t2 # rs) = \<lparr>ctn_ctx = False, ctn_dial = Inr t2, ctn_surplus = False\<rparr> # client_turns rs"

text \<open>What both goroutines do, from lease \<open>i\<close> on.\<close>

fun server_acts :: "u64 \<Rightarrow> round list \<Rightarrow> wact list" where
  "server_acts i [] = [ANext None Expired, AClosed, AStat ''expired'']"
| "server_acts i (Beat n # rs) = [ANext None Check, ABeat True, AIdle Ready] @ server_acts i rs"
| "server_acts i (Serve v t1 t2 # rs) =
     [ANext (Some v) Leased, ALease (i + 1) True LeaseOK, ACloseTCP v, AIdle Ready] @ server_acts (i + 1) rs"

fun client_acts :: "u64 \<Rightarrow> round list \<Rightarrow> cact list" where
  "client_acts i [] = [KRetired ''server_close'']"
| "client_acts i (Beat n # rs) = client_acts i rs"
| "client_acts i (Serve v t1 t2 # rs) =
     [KBusy, KNotify, KSetTCP True, KDecide False, KSetTCP False, KLease (i + 1) LeaseOK] @ client_acts (i + 1) rs"

subsection \<open>The loops against each other\<close>

definition ping :: "bytes \<Rightarrow> frame" where
  "ping n = \<lparr>Typ = PING, LeaseID = 0, Payload = n\<rparr>"

definition pong :: "bytes \<Rightarrow> frame" where
  "pong n = \<lparr>Typ = PONG, LeaseID = 0, Payload = n\<rparr>"

lemma ping_ok: "length n = 8 \<Longrightarrow> frame_ok (ping n) \<and> frame_ok (pong n)"
  by (simp add: ping_def pong_def frame_ok_def valid_def)

text \<open>The two loops, from lease \<open>i\<close> on: each sends what the other reads.\<close>

definition loops_agree ::
    "json \<Rightarrow> net_conn relay_fun \<Rightarrow> net_conn relay_fun \<Rightarrow> u64 \<Rightarrow> round list \<Rightarrow> bytes \<Rightarrow> bytes \<Rightarrow> bool" where
  "loops_agree J rs rc i rounds SA SB \<longleftrightarrow>
     (\<forall>a ra tr. steady a \<longrightarrow> net_content a = SB @ ra \<longrightarrow>
        (\<exists>a'. work_loop net_duplex J rs (server_turns rounds) i Ready a tr = Some (a', tr @ server_acts i rounds)
          \<and> tx a' = tx a @ SA))
     \<and> (\<forall>b rb tr. steady b \<longrightarrow> net_content b = SA @ rb \<longrightarrow>
        (\<exists>b'. serve_loop_client net_duplex J rc (client_turns rounds) i b tr
            = Some (b', tr @ client_acts i rounds, None) \<and> tx b' = tx b @ SB))"

lemma agree_end: "loops_agree J rs rc i [] (encode_frame (plain_frame CLOSE 0)) []"
proof -
  have "\<exists>a'. work_loop net_duplex J rs (server_turns []) i Ready a tr = Some (a', tr @ server_acts i [])
      \<and> tx a' = tx a @ encode_frame (plain_frame CLOSE 0)" if "steady a" for a tr
    using say [OF that, of "plain_frame CLOSE 0"]
    by (simp add: work_loop.simps quiet_turn_def goodbye_def wend_def net_duplex_def net_close_def)
  moreover have "\<exists>b'. serve_loop_client net_duplex J rc (client_turns []) i b tr
      = Some (b', tr @ client_acts i [], None) \<and> tx b' = tx b @ []"
    if b: "steady b" "net_content b = encode_frame (plain_frame CLOSE 0) @ rb" for b rb tr
  proof -
    obtain b1 where "read_frame net_read b = Some (b1, Inr (plain_frame CLOSE 0))" "tx b1 = tx b"
      using hear [OF b(2) _ b(1)] by auto
    then show ?thesis by (simp add: net_duplex_def)
  qed
  ultimately show ?thesis unfolding loops_agree_def by blast
qed

lemma agree_beat:
  assumes "length n = 8" and rest: "loops_agree J rs rc i rounds SA SB"
  shows "loops_agree J rs rc i (Beat n # rounds) (encode_frame (ping n) @ SA) (encode_frame (pong n) @ SB)"
proof -
  have k: "frame_ok (ping n)" "frame_ok (pong n)" using ping_ok assms(1) by auto
  have "\<exists>a'. work_loop net_duplex J rs (server_turns (Beat n # rounds)) i Ready a tr
        = Some (a', tr @ server_acts i (Beat n # rounds)) \<and> tx a' = tx a @ encode_frame (ping n) @ SA"
    if a: "steady a" "net_content a = (encode_frame (pong n) @ SB) @ ra" for a ra tr
  proof -
    have c: "net_content a = encode_frame (pong n) @ SB @ ra" using a(2) by simp
    from ask [OF a(1) k c] obtain a1 where
      1: "write_frame net_write a (ping n) = (a\<lparr>tx := tx a @ encode_frame (ping n)\<rparr>, None)"
        "read_frame net_read (a\<lparr>tx := tx a @ encode_frame (ping n)\<rparr>) = Some (a1, Inr (pong n))"
      and a1: "steady a1" "net_content a1 = SB @ ra" "tx a1 = tx a @ encode_frame (ping n)" by metis
    have h: "heartbeat net_duplex (Inr n) a = Some (a1, None)"
      using 1 by (simp add: heartbeat_def net_duplex_def ping_def [symmetric]) (simp add: pong_def)
    obtain a' where "work_loop net_duplex J rs (server_turns rounds) i Ready a1
        (tr @ [ANext None Check, ABeat True, AIdle Ready])
        = Some (a', (tr @ [ANext None Check, ABeat True, AIdle Ready]) @ server_acts i rounds)"
      "tx a' = tx a1 @ SA"
      using rest a1 unfolding loops_agree_def by blast
    then show ?thesis using h a1(3) by (subst work_loop.simps) (simp add: quiet_turn_def)
  qed
  moreover have "\<exists>b'. serve_loop_client net_duplex J rc (client_turns (Beat n # rounds)) i b tr
        = Some (b', tr @ client_acts i (Beat n # rounds), None) \<and> tx b' = tx b @ encode_frame (pong n) @ SB"
    if b: "steady b" "net_content b = (encode_frame (ping n) @ SA) @ rb" for b rb tr
  proof -
    have "net_content b = encode_frame (ping n) @ SA @ rb" using b(2) by simp
    from hear [OF this k(1) b(1)] obtain b1 where b1: "read_frame net_read b = Some (b1, Inr (ping n))"
      "net_content b1 = SA @ rb" "tx b1 = tx b" "steady b1" by metis
    let ?b = "b1\<lparr>tx := tx b1 @ encode_frame (pong n)\<rparr>"
    note w = say [OF b1(4) k(2)]
    have "steady ?b" "net_content ?b = SA @ rb" using b1 by simp_all
    then obtain b' where "serve_loop_client net_duplex J rc (client_turns rounds) i ?b tr
        = Some (b', tr @ client_acts i rounds, None)" "tx b' = tx ?b @ SB"
      using rest unfolding loops_agree_def by blast
    then show ?thesis using w b1 by (simp add: net_duplex_def ping_def pong_def)
  qed
  ultimately show ?thesis unfolding loops_agree_def by blast
qed

lemma agree_serve:
  assumes codec: "codec_ok Z z0 D d0" and cw: "\<And>c. closew c = None \<or> closew c = Some ENOTCONN"
    and t: "net_ending t1 = EOF" "net_ending t2 = EOF" "steady t1" "steady t2" and i: "i \<noteq> - 1"
    and rest: "loops_agree J (relay_run Z D z0 d0 closew up_a) (relay_run Z D z0 d0 closew up_b) (i + 1) rounds SA SB"
  shows "\<exists>SA' SB'. loops_agree J (relay_run Z D z0 d0 closew up_a) (relay_run Z D z0 d0 closew up_b) i
    (Serve v t1 t2 # rounds) SA' SB'"
proof -
  obtain S where S: "streams Z z0 (i + 1) t1 S" using streams_ex [OF t(1), of Z z0 "i + 1"] by blast
  obtain S2 where S2: "streams Z z0 (i + 1) t2 S2" using streams_ex [OF t(2), of Z z0 "i + 1"] by blast
  let ?rs = "relay_run Z D z0 d0 closew up_a" and ?rc = "relay_run Z D z0 d0 closew up_b"
  let ?A = "encode_frame (plain_frame OPEN (i + 1)) @ S @ encode_frame (plain_frame RELEASE (i + 1))"
  let ?B = "encode_frame (plain_frame OPEN_OK (i + 1)) @ S2 @ encode_frame (barrier_frame False (i + 1))"
  have "\<exists>a'. work_loop net_duplex J ?rs (server_turns (Serve v t1 t2 # rounds)) i Ready a tr
        = Some (a', tr @ server_acts i (Serve v t1 t2 # rounds)) \<and> tx a' = tx a @ ?A @ SA"
    if a: "steady a" "net_content a = (?B @ SB) @ ra" for a ra tr
  proof -
    have "net_content a = encode_frame (plain_frame OPEN_OK (i + 1)) @ S2
        @ encode_frame (barrier_frame False (i + 1)) @ (SB @ ra)" using a(2) by simp
    from server_side [where closew = closew and J = J and first = up_a, OF codec cw S S2 a(1) this t(3)]
    obtain l where l: "lease net_duplex J ?rs (i + 1) a t1 = Some (l, None, LeaseOK)"
      "tx (ls_conn l) = tx a @ ?A" "net_content (ls_conn l) = SB @ ra" "steady (ls_conn l)" "ls_releasing l"
      by auto
    let ?tr = "tr @ [ANext (Some v) Leased, ALease (i + 1) True LeaseOK, ACloseTCP v, AIdle Ready]"
    obtain a' where "work_loop net_duplex J ?rs (server_turns rounds) (i + 1) Ready (ls_conn l) ?tr
        = Some (a', ?tr @ server_acts (i + 1) rounds)" "tx a' = tx (ls_conn l) @ SA"
      using rest l(3,4) unfolding loops_agree_def by blast
    then show ?thesis using l i by (subst work_loop.simps) (simp add: quiet_turn_def)
  qed
  moreover have "\<exists>b'. serve_loop_client net_duplex J ?rc (client_turns (Serve v t1 t2 # rounds)) i b tr
        = Some (b', tr @ client_acts i (Serve v t1 t2 # rounds), None) \<and> tx b' = tx b @ ?B @ SB"
    if b: "steady b" "net_content b = (?A @ SA) @ rb" for b rb tr
  proof -
    have "net_content b = encode_frame (plain_frame OPEN (i + 1)) @ S
        @ encode_frame (plain_frame RELEASE (i + 1)) @ SA @ rb" "frame_ok (plain_frame OPEN (i + 1))"
      using b(2) by simp_all
    from hear [OF this b(1)] obtain b1 where b1: "read_frame net_read b = Some (b1, Inr (plain_frame OPEN (i + 1)))"
      "net_content b1 = S @ encode_frame (plain_frame RELEASE (i + 1)) @ SA @ rb" "tx b1 = tx b" "steady b1" by metis
    from client_side [where closew = closew and J = J and first = up_b and surplus = False,
        OF codec cw S S2 b1(4,2) t(4)]
    obtain b2 t' where c: "client_lease net_duplex J ?rc \<lparr>ctn_ctx = False, ctn_dial = Inr t2, ctn_surplus = False\<rparr> (i + 1) b1
        = Some (b2, Some t', [KSetTCP True, KDecide False, KSetTCP False, KLease (i + 1) LeaseOK], None)"
      "tx b2 = tx b1 @ ?B" "net_content b2 = SA @ rb" "steady b2" by auto
    let ?tr = "tr @ [KBusy, KNotify, KSetTCP True, KDecide False, KSetTCP False, KLease (i + 1) LeaseOK]"
    obtain b' where "serve_loop_client net_duplex J ?rc (client_turns rounds) (i + 1) b2 ?tr
        = Some (b', ?tr @ client_acts (i + 1) rounds, None)" "tx b' = tx b2 @ SB"
      using rest c(3,4) unfolding loops_agree_def by blast
    then show ?thesis using c b1 i by (simp add: net_duplex_def)
  qed
  ultimately show ?thesis unfolding loops_agree_def by blast
qed

lemma loops_agree_ex:
  assumes "codec_ok Z z0 D d0" and "\<And>c. closew c = None \<or> closew c = Some ENOTCONN"
    and "list_all round_ok rounds" and "unat i + length rounds < 2 ^ 64 - 1"
  shows "\<exists>SA SB. loops_agree J (relay_run Z D z0 d0 closew up_a) (relay_run Z D z0 d0 closew up_b) i rounds SA SB"
  using assms(3,4)
proof (induction rounds arbitrary: i)
  case Nil
  then show ?case using agree_end by blast
next
  case (Cons r rounds)
  have i: "i \<noteq> - 1"
  proof
    assume "i = - 1"
    then have "unat (i + 1) = 0" by simp
    moreover have "unat (i + 1) = (unat i + 1) mod 2 ^ 64" by (simp add: unat_word_ariths(1))
    moreover have "unat i + 1 < 2 ^ 64" using Cons.prems(2) by simp
    ultimately show False by simp
  qed
  show ?case
  proof (cases r)
    case (Beat n)
    then obtain SA SB where
      "loops_agree J (relay_run Z D z0 d0 closew up_a) (relay_run Z D z0 d0 closew up_b) i rounds SA SB"
      using Cons.IH [of i] Cons.prems by auto
    then show ?thesis using agree_beat [of n] Beat Cons.prems(1) by fastforce
  next
    case (Serve v t1 t2)
    have "unat (i + 1) + length rounds < 2 ^ 64 - 1" using unat_next [OF i] Cons.prems(2) by simp
    then obtain SA SB where
      "loops_agree J (relay_run Z D z0 d0 closew up_a) (relay_run Z D z0 d0 closew up_b) (i + 1) rounds SA SB"
      using Cons.IH [of "i + 1"] Cons.prems(1) by auto
    then show ?thesis
      using agree_serve [where closew = closew, OF assms(1,2) _ _ _ _ i] Serve Cons.prems(1) by simp
  qed
qed

subsection \<open>From HELLO to CLOSE\<close>

lemma register_accepts:
  assumes a: "steady a" "net_content a = encode_frame f @ encode_frame (plain_frame READY 0) @ ra"
    and f: "frame_ok f" "Typ f = HELLO" "LeaseID f = 0" "js_hello J (Payload f) = Inr h"
    and h: "check_hello sha (srt_services r) h = Inr os"
    and p: "srt_pools r (Service h) = Some p" "\<not> stopping p"
  shows "\<exists>r' a'. register net_duplex J sha env None now rnd (r, a) = Some (r', a', [], RegWorking (Service h) (nwk p))
    \<and> steady a' \<and> net_content a' = ra \<and> tx a' = tx a @ encode_frame (plain_frame HELLO_OK 0)"
proof -
  from hear [OF a(2) f(1) a(1)] obtain a1 where
    1: "read_frame net_read a = Some (a1, Inr f)"
    and a1: "net_content a1 = encode_frame (plain_frame READY 0) @ ra" "tx a1 = tx a" "steady a1" by metis
  have k: "frame_ok (plain_frame HELLO_OK 0)" "frame_ok (plain_frame READY 0)" by simp_all
  from ask [OF a1(3) k a1(1)] obtain a2 where
    2: "write_frame net_write a1 (plain_frame HELLO_OK 0) = (a1\<lparr>tx := tx a1 @ encode_frame (plain_frame HELLO_OK 0)\<rparr>, None)"
      "read_frame net_read (a1\<lparr>tx := tx a1 @ encode_frame (plain_frame HELLO_OK 0)\<rparr>) = Some (a2, Inr (plain_frame READY 0))"
    and a2: "steady a2" "net_content a2 = ra" "tx a2 = tx a1 @ encode_frame (plain_frame HELLO_OK 0)" by metis
  have "\<exists>r'. register net_duplex J sha env None now rnd (r, a) = Some (r', a2, [], RegWorking (Service h) (nwk p))"
    using p(2) by (simp add: register_def Let_def net_duplex_def 1 f h p(1) Register_def reg_finish_def 2)
  then show ?thesis using a1 a2 by auto
qed

text \<open>
  C2. A tunnel connection serves its whole life. A client with a valid pool and the right token
  connects to a server that has the service and is not stopping. Then for any script of heartbeats
  and visitors there is one byte string for each direction such that, if each side reads what the
  other sends (cut into any segments): the server registers the connection and its goroutine serves
  every visitor in a lease that ends well, numbered from 1, answers are checked at every heartbeat,
  and the expired connection is said goodbye; the client is registered, serves the same leases, and
  retires the connection without error. Each side sends exactly its string.
\<close>

theorem connection_completes:
  assumes "codec_ok Z z0 D d0" and "\<And>c. closew c = None \<or> closew c = Some ENOTCONN"
    and "list_all round_ok rounds" and "length rounds < 2 ^ 64 - 1"
    and "ValidatePool cp = None" and "srt_services r name = Some sv" and "TokenHash sv = sha (service.Token s)"
    and "srt_pools r name = Some p" and "\<not> stopping p"
    and "js_hello J (js_put_hello J (client_hello name s cp)) = Inr (client_hello name s cp)"
    and "length (js_put_hello J (client_hello name s cp)) \<in> {1..4096}"
  shows "\<exists>SA SB. \<forall>a b ra rb.
    steady a \<and> steady b \<and> net_content a = SB @ ra \<and> net_content b = SA @ rb \<longrightarrow>
    (\<exists>r' a1 a2 b2.
      register net_duplex J sha env None now rnd (r, a) = Some (r', a1, [], RegWorking name (nwk p))
      \<and> work net_duplex J (relay_run Z D z0 d0 closew up_a) (server_turns rounds) Ready a1
        = Some (a2, AIdle Ready # server_acts 0 rounds)
      \<and> tx a2 = tx a @ SA
      \<and> serveSlot net_duplex J (relay_run Z D z0 d0 closew up_b) (client_hello name s cp) (client_turns rounds) b
        = Some (b2, [KRegistered, KOpened] @ client_acts 0 rounds, None)
      \<and> tx b2 = tx b @ SB)"
proof -
  let ?h = "client_hello name s cp"
  let ?f = "\<lparr>Typ = HELLO, LeaseID = 0, Payload = js_put_hello J ?h\<rparr>"
  have "unat (0 :: u64) + length rounds < 2 ^ 64 - 1" using assms(4) by simp
  from loops_agree_ex [where closew = closew and J = J and up_a = up_a and up_b = up_b, OF assms(1-3) this]
  obtain SA SB where L: "loops_agree J (relay_run Z D z0 d0 closew up_a) (relay_run Z D z0 d0 closew up_b) 0 rounds SA SB"
    by blast
  obtain os where os: "poolOptions (poolParams cp) = Inr os"
    using poolOptions_announced [OF assms(5)] by blast
  have h: "check_hello sha (srt_services r) ?h = Inr os" and n: "Service ?h = name"
    using os assms(6,7) by (simp_all add: check_hello_iff client_hello_def)
  have p: "srt_pools r (Service ?h) = Some p" using n assms(8) by simp
  have f: "frame_ok ?f" "Typ ?f = HELLO" "LeaseID ?f = 0" "js_hello J (Payload ?f) = Inr ?h"
    using assms(10,11) by (auto simp: frame_ok_def valid_def)
  let ?SA = "encode_frame (plain_frame HELLO_OK 0) @ SA"
  let ?SB = "encode_frame ?f @ encode_frame (plain_frame READY 0) @ SB"
  have server: "\<exists>r' a1 a2.
      register net_duplex J sha env None now rnd (r, a) = Some (r', a1, [], RegWorking name (nwk p))
      \<and> work net_duplex J (relay_run Z D z0 d0 closew up_a) (server_turns rounds) Ready a1
        = Some (a2, AIdle Ready # server_acts 0 rounds)
      \<and> tx a2 = tx a @ ?SA" if a: "steady a" "net_content a = ?SB @ ra" for a ra
  proof -
    have c: "net_content a = encode_frame ?f @ encode_frame (plain_frame READY 0) @ SB @ ra" using a(2) by simp
    from register_accepts [where env = env and now = now and rnd = rnd and J = J, OF a(1) c f h p assms(9)]
    obtain r' a1 where r: "register net_duplex J sha env None now rnd (r, a) = Some (r', a1, [], RegWorking name (nwk p))"
      "steady a1" "net_content a1 = SB @ ra" "tx a1 = tx a @ encode_frame (plain_frame HELLO_OK 0)"
      unfolding n by blast
    obtain a2 where "work_loop net_duplex J (relay_run Z D z0 d0 closew up_a) (server_turns rounds) 0 Ready a1 [AIdle Ready]
        = Some (a2, [AIdle Ready] @ server_acts 0 rounds)" "tx a2 = tx a1 @ SA"
      using L r(2,3) unfolding loops_agree_def by blast
    then show ?thesis using r by (simp add: work_def)
  qed
  have client: "\<exists>b2. serveSlot net_duplex J (relay_run Z D z0 d0 closew up_b) ?h (client_turns rounds) b
        = Some (b2, [KRegistered, KOpened] @ client_acts 0 rounds, None) \<and> tx b2 = tx b @ ?SB"
    if b: "steady b" "net_content b = ?SA @ rb" for b rb
  proof -
    have c: "net_content b = encode_frame (plain_frame HELLO_OK 0) @ SA @ rb" using b(2) by simp
    have k: "frame_ok (plain_frame HELLO_OK 0)" "frame_ok (plain_frame READY 0)" by simp_all
    from ask [OF b(1) f(1) k(1) c] obtain b1 where
      1: "write_frame net_write b ?f = (b\<lparr>tx := tx b @ encode_frame ?f\<rparr>, None)"
        "read_frame net_read (b\<lparr>tx := tx b @ encode_frame ?f\<rparr>) = Some (b1, Inr (plain_frame HELLO_OK 0))"
      and b1: "steady b1" "net_content b1 = SA @ rb" "tx b1 = tx b @ encode_frame ?f" by metis
    note w = say [OF b1(1) k(2)]
    let ?b = "b1\<lparr>tx := tx b1 @ encode_frame (plain_frame READY 0)\<rparr>"
    have "steady ?b" "net_content ?b = SA @ rb" using b1 by simp_all
    then obtain b2 where "serve_loop_client net_duplex J (relay_run Z D z0 d0 closew up_b) (client_turns rounds) 0 ?b
        [KRegistered, KOpened] = Some (b2, [KRegistered, KOpened] @ client_acts 0 rounds, None)" "tx b2 = tx ?b @ SB"
      using L unfolding loops_agree_def by blast
    then show ?thesis using 1 w b1(3) by (simp add: serveSlot_def net_duplex_def)
  qed
  show ?thesis
  proof (rule exI [of _ ?SA], rule exI [of _ ?SB], intro allI impI, elim conjE)
    fix a b ra rb
    assume "steady a" "steady b" "net_content a = ?SB @ ra" "net_content b = ?SA @ rb"
    with server client show "\<exists>r' a1 a2 b2.
      register net_duplex J sha env None now rnd (r, a) = Some (r', a1, [], RegWorking name (nwk p))
      \<and> work net_duplex J (relay_run Z D z0 d0 closew up_a) (server_turns rounds) Ready a1
        = Some (a2, AIdle Ready # server_acts 0 rounds)
      \<and> tx a2 = tx a @ ?SA
      \<and> serveSlot net_duplex J (relay_run Z D z0 d0 closew up_b) ?h (client_turns rounds) b
        = Some (b2, [KRegistered, KOpened] @ client_acts 0 rounds, None)
      \<and> tx b2 = tx b @ ?SB" by meson
  qed
qed

definition demo_rounds :: "round list" where
  "demo_rounds = [Beat [1, 2, 3, 4, 5, 6, 7, 8], Serve 4 demo_local demo_local]"

definition run_service :: service where
  "run_service = \<lparr>Addr = [], Token = ''t'', TokenHash = []\<rparr>"

theorem connection_completes_witness:
  "\<exists>J r' a a1 a2. register net_duplex J demo_sha (\<lambda>q. q) None 0 0 (demo_server, a)
      = Some (r', a1, [], RegWorking ''a'' 0)
    \<and> work net_duplex J (relay_run demo_enc demo_dec () ([], None) (\<lambda>_. None) True) (server_turns demo_rounds) Ready a1
      = Some (a2, [AIdle Ready, ANext None Check, ABeat True, AIdle Ready, ANext (Some 4) Leased,
          ALease 1 True LeaseOK, ACloseTCP 4, AIdle Ready, ANext None Expired, AClosed, AStat ''expired''])"
proof -
  let ?J = "demo_json\<lparr>js_hello := \<lambda>_. Inr (client_hello ''a'' run_service demo_pool)\<rparr>"
  have cw: "\<And>c :: net_conn. (\<lambda>_. None :: error option) c = None \<or> (\<lambda>_. None) c = Some ENOTCONN" by simp
  have r: "list_all round_ok demo_rounds" "length demo_rounds < 2 ^ 64 - 1"
    by (simp_all add: demo_rounds_def demo_local_def net_ending_def steady_def)
  have s: "srt_services demo_server ''a'' = Some \<lparr>Addr = [], Token = [], TokenHash = demo_sha ''t''\<rparr>"
    "TokenHash \<lparr>Addr = [], Token = [], TokenHash = demo_sha ''t''\<rparr> = demo_sha (service.Token run_service)"
    "srt_pools demo_server ''a'' = Some (new_pool 8)" "\<not> stopping (new_pool 8)" "nwk (new_pool 8) = 0"
    by (simp_all add: demo_server_def run_service_def new_pool_def)
  have j: "js_hello ?J (js_put_hello ?J (client_hello ''a'' run_service demo_pool))
      = Inr (client_hello ''a'' run_service demo_pool)"
    "length (js_put_hello ?J (client_hello ''a'' run_service demo_pool)) \<in> {1..4096}"
    by (simp_all add: demo_json_def)
  obtain SA SB where L: "\<And>a b ra rb. steady a \<and> steady b \<and> net_content a = SB @ ra \<and> net_content b = SA @ rb \<Longrightarrow>
      \<exists>r' a1 a2. register net_duplex ?J demo_sha (\<lambda>q. q) None 0 0 (demo_server, a)
          = Some (r', a1, [], RegWorking ''a'' (nwk (new_pool 8)))
        \<and> work net_duplex ?J (relay_run demo_enc demo_dec () ([], None) (\<lambda>_. None) True) (server_turns demo_rounds) Ready a1
          = Some (a2, AIdle Ready # server_acts 0 demo_rounds)"
    using connection_completes [where closew = "\<lambda>_. None" and sha = demo_sha and name = "''a''" and s = run_service
        and J = ?J and env = "\<lambda>q. q" and now = 0 and rnd = 0 and up_a = True and up_b = True,
        OF demo_codec cw r demo_pool_valid s(1-4) j] by - (elim exE, rule that, blast)
  have n: "net_content (demo_tunnel\<lparr>rx := xs\<rparr>) = concat xs" "steady (demo_tunnel\<lparr>rx := xs\<rparr>)" for xs
    by (simp_all add: demo_tunnel_def net_content_def steady_def)
  have "AIdle Ready # server_acts 0 demo_rounds
      = [AIdle Ready, ANext None Check, ABeat True, AIdle Ready, ANext (Some 4) Leased,
          ALease 1 True LeaseOK, ACloseTCP 4, AIdle Ready, ANext None Expired, AClosed, AStat ''expired'']"
    by (simp add: demo_rounds_def)
  with L [of "demo_tunnel\<lparr>rx := [SB]\<rparr>" "demo_tunnel\<lparr>rx := [SA]\<rparr>" "[]" "[]"] n s(5) show ?thesis by fastforce
qed

end
