(* ===== verification/Lifecycle.thy ===== *)
theory Lifecycle
  imports Worker_Props Client_Worker Metrics_Props "HOL-Library.Sublist"
begin

text \<open>
  The two programs as wholes: \<^verbatim>\<open>internal/server/server.go\<close>, \<^verbatim>\<open>internal/client/client.go\<close> and the
  command line of \<^verbatim>\<open>cmd/compress-proxy/main.go\<close>. A run is the list of what it does to listeners,
  goroutines and pools, in order; \<open>names\<close> are the keys of the map of services in the order in which a
  loop visits them (the code's loops may each use another one; only the set matters below). What the
  operating system answers, what the goroutines do meanwhile (\<open>env\<close>), which event ends the
  \<^verbatim>\<open>select\<close> and whether the drain beats its timer are arguments.
\<close>

subsection \<open>Listeners\<close>

datatype run_act =
    Listen string | Unlisten string
  | SpawnAccept string | SpawnServe | SpawnControl string | SpawnMetrics
  | Cancel | StopPool string | ForcePool string | StopClient | ForceClient
  | WaitAccepts | WaitGoroutines | StopMetrics | WaitMetrics

text \<open>\<open>listen os a\<close>: the error of \<^verbatim>\<open>net.Listen\<close> on \<open>a\<close> when this process has \<open>os\<close> open.\<close>

fun listen_all ::
    "(string list \<Rightarrow> string \<Rightarrow> error option) \<Rightarrow> string list \<Rightarrow> string list \<Rightarrow> string list \<times> error option" where
  "listen_all listen os [] = (os, None)"
| "listen_all listen os (a # as) =
     (case listen os a of
        Some e \<Rightarrow> (os, Some e)
      | None \<Rightarrow> listen_all listen (os @ [a]) as)"

text \<open>The first part of the server's \<open>Run\<close>: all listeners, or none.\<close>

definition server_listen ::
    "(string list \<Rightarrow> string \<Rightarrow> error option) \<Rightarrow> string \<Rightarrow> string list \<Rightarrow> string option
     \<Rightarrow> run_act list \<times> error option" where
  "server_listen listen bind addrs metrics =
     (case listen [] bind of
        Some e \<Rightarrow> ([], Some e)
      | None \<Rightarrow>
          (case listen_all listen [bind] addrs of
             (os, Some e) \<Rightarrow> (map Listen os @ map Unlisten os, Some e)
           | (os, None) \<Rightarrow>
               (case metrics of
                  None \<Rightarrow> (map Listen os, None)
                | Some m \<Rightarrow>
                    (case listen os m of
                       Some e \<Rightarrow> (map Listen os @ map Unlisten os, Some e)
                     | None \<Rightarrow> (map Listen os @ [Listen m], None)))))"

subsection \<open>The server\<close>

definition new_server :: "server_conf \<Rightarrow> string list \<Rightarrow> server_rt" where
  "new_server cfg names =
     (let pools = (\<lambda>n. if n \<in> set names then Some (new_pool (MaxPending (sv_Pool cfg))) else None)
      in \<lparr>srt_services = sv_Services cfg, srt_pools = pools, srt_metrics = Some (NewServer names pools),
          srt_ids = 0, srt_workers = 0\<rparr>)"

text \<open>
  The goroutine of a public listener. An accepted visitor comes with its number, the clock when its deadline
  is set and, later, in \<open>Dispatch\<close>, what the other goroutines did to the pool before, and the error of the
  context at the call.
\<close>

datatype accepted =
    Visitor nat instant instant "pool \<Rightarrow> pool" "error option"
  | AcceptFailed error bool

fun accept_loop ::
    "duration \<Rightarrow> accepted list \<Rightarrow> pool \<times> svc_stats \<times> effect list
     \<Rightarrow> (pool \<times> svc_stats \<times> effect list \<times> error option) option" where
  "accept_loop timeout [] x = None"
| "accept_loop timeout (AcceptFailed e stopped # _) (p, s, eff) =
     Some (p, s, eff, if stopped then None else Some e)"
| "accept_loop timeout (Visitor t t0 now env cerr # rest) (p, s, eff) =
     (let s1 = s\<lparr>s_Visitors := s_Visitors s + 1\<rparr>
      in case Dispatch cerr now t (t0 + timeout) (env p) of
           (p1, eff1, err, v) \<Rightarrow>
             accept_loop timeout rest
               (p1, case err of None \<Rightarrow> s1 | Some e \<Rightarrow> DispatchFailed e s1, eff @ eff1))"

text \<open>\<^verbatim>\<open>for _, p := range r.pools\<close>.\<close>

fun each_pool :: "(pool \<Rightarrow> pool \<times> effect list) \<Rightarrow> string list \<Rightarrow> server_rt \<Rightarrow> server_rt \<times> effect list" where
  "each_pool f [] r = (r, [])"
| "each_pool f (n # ns) r =
     (case srt_pools r n of
        None \<Rightarrow> each_pool f ns r
      | Some p \<Rightarrow>
          (case f p of (p1, e1) \<Rightarrow>
             case each_pool f ns (put_pool n p1 r) of (r2, e2) \<Rightarrow> (r2, e1 @ e2)))"

text \<open>
  The shutdown, on the runtime. \<open>env1\<close>: the other goroutines until the accept loops and, if they are
  done in time, the workers have ended; \<open>env2\<close>: until the forced workers have ended.
\<close>

definition server_drain ::
    "string list \<Rightarrow> (server_rt \<Rightarrow> server_rt) \<Rightarrow> (server_rt \<Rightarrow> server_rt) \<Rightarrow> bool \<Rightarrow> server_rt
     \<Rightarrow> server_rt \<times> effect list" where
  "server_drain names env1 env2 drained r =
     (case each_pool Stop names r of
        (r1, e1) \<Rightarrow>
          if drained then (env1 r1, e1)
          else case each_pool Force names (env1 r1) of (r2, e2) \<Rightarrow> (env2 r2, e1 @ e2))"

text \<open>\<open>failure\<close>: what ended the \<^verbatim>\<open>select\<close>, an error of a goroutine or (\<open>None\<close>) the context.\<close>

definition server_Run ::
    "(string list \<Rightarrow> string \<Rightarrow> error option) \<Rightarrow> string list \<Rightarrow> error option \<Rightarrow> bool
     \<Rightarrow> server_conf option \<Rightarrow> run_act list \<times> error option" where
  "server_Run listen names failure drained conf =
     (case conf of
        None \<Rightarrow> ([], Some (Errmsg ''invalid server configuration''))
      | Some cfg \<Rightarrow>
          if names = [] then ([], Some (Errmsg ''invalid server configuration''))
          else let addrs = map (\<lambda>n. case sv_Services cfg n of Some s \<Rightarrow> Addr s | None \<Rightarrow> []) names;
                   metrics = map_option m_BindAddr (sv_Metrics cfg)
               in case server_listen listen (sv_BindAddr cfg) addrs metrics of
                    (tr, Some e) \<Rightarrow> (tr, Some e)
                  | (tr, None) \<Rightarrow>
                      (tr @ map SpawnAccept names @ [SpawnServe]
                         @ (if metrics \<noteq> None then [SpawnMetrics] else [])
                         @ [Cancel] @ map StopPool names @ map Unlisten (sv_BindAddr cfg # addrs)
                         @ [WaitAccepts] @ (if drained then [] else map ForcePool names)
                         @ [WaitGoroutines, StopMetrics, WaitMetrics],
                       failure))"

subsection \<open>The client\<close>

definition client_Run ::
    "(string list \<Rightarrow> string \<Rightarrow> error option) \<Rightarrow> string list \<Rightarrow> error option \<Rightarrow> bool
     \<Rightarrow> client_conf option \<Rightarrow> run_act list \<times> error option" where
  "client_Run listen names failure drained conf =
     (case conf of
        None \<Rightarrow> ([], Some (Errmsg ''invalid client configuration''))
      | Some cfg \<Rightarrow>
          if names = [] \<or> ValidatePool (cl_Pool cfg) \<noteq> None
          then ([], Some (Errmsg ''invalid client configuration''))
          else let metrics = map_option m_BindAddr (cl_Metrics cfg);
                   run = (\<lambda>tr. (tr @ map SpawnControl names @ (if metrics \<noteq> None then [SpawnMetrics] else [])
                           @ [Cancel, StopClient] @ (if drained then [] else [ForceClient])
                           @ [WaitGoroutines, StopMetrics, WaitMetrics], failure))
               in case metrics of
                    None \<Rightarrow> run []
                  | Some m \<Rightarrow> (case listen [] m of Some e \<Rightarrow> ([], Some e) | None \<Rightarrow> run [Listen m]))"

subsection \<open>The command line\<close>

text \<open>
  Where \<open>run\<close> of \<^verbatim>\<open>main.go\<close> got to. \<open>keygen\<close>: the first error of generating, or printing, a key pair;
  \<open>parse\<close>: the \<^verbatim>\<open>flag\<close> package on the remaining arguments, the file and the number of arguments
  left; \<open>say\<close>: the error of printing on standard output.
\<close>

datatype command = Keygen | Usage | BadFlags | BadConfig error | Checked | RoleMismatch
  | RunServer server_conf | RunClient client_conf

definition main_run ::
    "error option \<Rightarrow> (string list \<Rightarrow> (string \<times> nat) option) \<Rightarrow> (string \<Rightarrow> error + config) \<Rightarrow> error option
     \<Rightarrow> (server_conf \<Rightarrow> error option) \<Rightarrow> (client_conf \<Rightarrow> error option) \<Rightarrow> string list \<Rightarrow> command \<times> int" where
  "main_run keygen parse load say srv cli args =
     (case args of
        [] \<Rightarrow> (Usage, 2)
      | cmd # rest \<Rightarrow>
          if rest = [] \<and> cmd = ''keygen'' then (Keygen, if keygen \<noteq> None then 1 else 0)
          else if cmd \<noteq> ''check'' \<and> cmd \<noteq> ''server'' \<and> cmd \<noteq> ''client'' then (Usage, 2)
          else case parse rest of
                 None \<Rightarrow> (BadFlags, 2)
               | Some (file, k) \<Rightarrow>
                   if file = [] \<or> k \<noteq> 0 then (BadFlags, 2)
                   else case load file of
                          Inl e \<Rightarrow> (BadConfig e, 2)
                        | Inr cfg \<Rightarrow>
                            if cmd = ''check'' then (Checked, if say \<noteq> None then 1 else 0)
                            else if cmd = ''server''
                            then (case Server cfg of
                                    None \<Rightarrow> (RoleMismatch, 2)
                                  | Some c \<Rightarrow> (RunServer c, if srv c \<noteq> None then 1 else 0))
                            else (case Client cfg of
                                    None \<Rightarrow> (RoleMismatch, 2)
                                  | Some c \<Rightarrow> (RunClient c, if cli c \<noteq> None then 1 else 0)))"

subsection \<open>Properties\<close>

text \<open>The listeners still open after a list of actions.\<close>

fun still_open :: "run_act list \<Rightarrow> string list \<Rightarrow> string list" where
  "still_open [] os = os"
| "still_open (Listen a # as) os = still_open as (os @ [a])"
| "still_open (Unlisten a # as) os = still_open as (remove1 a os)"
| "still_open (_ # as) os = still_open as os"

lemma still_open_append [simp]: "still_open (xs @ ys) os = still_open ys (still_open xs os)"
  by (induction xs os rule: still_open.induct) auto

lemma still_open_listen [simp]: "still_open (map Listen as) os = os @ as"
  by (induction as arbitrary: os) auto

lemma still_open_unlisten: "still_open (map Unlisten as) (as @ os) = os"
  by (induction as) auto

lemma still_open_spawn [simp]: "still_open (map SpawnAccept ns) os = os" "still_open (map SpawnControl ns) os = os"
  "still_open (map StopPool ns) os = os" "still_open (map ForcePool ns) os = os"
  by (induction ns) auto

lemma listen_all_None: "listen_all listen os as = (os', None) \<Longrightarrow> os' = os @ as"
  by (induction as arbitrary: os) (fastforce split: option.splits)+

lemma server_listen_open:
  assumes "server_listen listen bind addrs metrics = (tr, e)"
  shows "still_open tr [] = (case e of Some _ \<Rightarrow> []
      | None \<Rightarrow> bind # addrs @ (case metrics of None \<Rightarrow> [] | Some m \<Rightarrow> [m]))
    \<and> SpawnServe \<notin> set tr"
  using assms still_open_unlisten [of _ "[]"] listen_all_None [of listen "[bind]" addrs]
  by (auto simp: server_listen_def split: option.split_asm prod.splits dest!: sym [of "Some _" "listen _ _"])

text \<open>
  A run of the server leaves nothing open. If any listener cannot be opened, those opened before
  are closed, nothing has been started, and that error is returned. Otherwise the run ends with the
  failure that stopped it: every pool has been stopped, the tunnel listener and every public listener
  are closed before the goroutines are waited for, pools are forced exactly if the drain timed out,
  and the metrics server (whose own listener it closes) is stopped last.
\<close>

theorem server_run_cleanup:
  "case server_Run listen names failure drained (Some cfg) of (tr, e) \<Rightarrow>
    (if SpawnServe \<in> set tr
     then e = failure \<and> still_open tr [] = (case sv_Metrics cfg of None \<Rightarrow> [] | Some m \<Rightarrow> [m_BindAddr m])
       \<and> {n. SpawnAccept n \<in> set tr} = set names \<and> {n. StopPool n \<in> set tr} = set names
       \<and> {n. ForcePool n \<in> set tr} = (if drained then {} else set names)
       \<and> (\<exists>before wait. tr = before @ [WaitAccepts] @ wait @ [WaitGoroutines, StopMetrics, WaitMetrics]
           \<and> still_open before [] = still_open tr [])
     else e \<noteq> None \<and> still_open tr [] = [] \<and> SpawnMetrics \<notin> set tr)"
proof -
  define addrs where "addrs = map (\<lambda>n. case sv_Services cfg n of Some s \<Rightarrow> Addr s | None \<Rightarrow> []) names"
  define metrics where "metrics = map_option m_BindAddr (sv_Metrics cfg)"
  define ms where "ms = (case sv_Metrics cfg of None \<Rightarrow> [] | Some m \<Rightarrow> [m_BindAddr m])"
  obtain tr0 e0 where l: "server_listen listen (sv_BindAddr cfg) addrs metrics = (tr0, e0)" by fastforce
  have o: "still_open tr0 [] = (case e0 of Some _ \<Rightarrow> [] | None \<Rightarrow> (sv_BindAddr cfg # addrs) @ ms)"
    using server_listen_open [OF l] by (auto simp: metrics_def ms_def split: option.splits)
  have t0: "set tr0 \<subseteq> range Listen \<union> range Unlisten"
    using l by (auto simp: server_listen_def split: option.splits prod.splits)
  show ?thesis
  proof (cases "names = [] \<or> e0 \<noteq> None")
    case True
    then show ?thesis
      using l o t0 by (auto simp: server_Run_def Let_def addrs_def [symmetric] metrics_def [symmetric] split: option.splits)
  next
    case False
    define before where "before = tr0 @ map SpawnAccept names @ [SpawnServe]
      @ (if metrics \<noteq> None then [SpawnMetrics] else [])
      @ [Cancel] @ map StopPool names @ map Unlisten (sv_BindAddr cfg # addrs)"
    define wait where "wait = (if drained then [] else map ForcePool names)"
    define tr where "tr = before @ [WaitAccepts] @ wait @ [WaitGoroutines, StopMetrics, WaitMetrics]"
    have r: "server_Run listen names failure drained (Some cfg) = (tr, failure)"
      using False l by (simp add: server_Run_def Let_def addrs_def [symmetric] metrics_def [symmetric]
          tr_def before_def wait_def)
    have b: "still_open before [] = ms"
      using o False still_open_unlisten [of "sv_BindAddr cfg # addrs" ms] by (simp add: before_def)
    then have "still_open tr [] = ms" by (simp add: tr_def wait_def)
    moreover have "SpawnServe \<in> set tr" by (simp add: tr_def before_def)
    moreover have "{n. SpawnAccept n \<in> set tr} = set names" "{n. StopPool n \<in> set tr} = set names"
      "{n. ForcePool n \<in> set tr} = (if drained then {} else set names)"
      using t0 by (auto simp: tr_def before_def wait_def)
    moreover have "\<exists>before wait. tr = before @ [WaitAccepts] @ wait @ [WaitGoroutines, StopMetrics, WaitMetrics]
        \<and> still_open before [] = ms"
      using b tr_def by blast
    ultimately show ?thesis unfolding r by (simp add: ms_def [symmetric])
  qed
qed

text \<open>The visitors that are accepted before the listener fails.\<close>

fun visitors :: "accepted list \<Rightarrow> nat list" where
  "visitors [] = []"
| "visitors (AcceptFailed e stopped # _) = []"
| "visitors (Visitor t t0 now env cerr # rest) = t # visitors rest"

lemma sum_bump: "i < length xs \<Longrightarrow> sum_list (bump i xs) = sum_list xs + 1"
  for xs :: "u64 list"
proof (induction xs arbitrary: i)
  case (Cons x xs)
  then show ?case by (cases i) (simp_all add: bump_def)
qed simp

lemma Dispatch_refused:
  assumes "Dispatch cerr now t dl p = (p', eff, err, v)"
  shows "eff = (if err = None then [] else [CloseTCP t])"
  using assms by (auto simp: Dispatch_def Let_def split: if_splits)

text \<open>
  C29. Every accepted visitor is accounted for. Whatever the pool does between them, a goroutine that
  accepts visitors counts each one, and each one the pool refuses is closed and counted once among
  the failures; it returns an error exactly if the listener failed while the server was running.
\<close>

theorem accept_accounting:
  assumes "accept_loop timeout xs (p, s, eff) = Some (p', s', eff', e)" and "stats_ok s"
  shows "\<exists>ts. subseq ts (visitors xs) \<and> eff' = eff @ map CloseTCP ts
    \<and> s_Visitors s' = s_Visitors s + of_nat (length (visitors xs))
    \<and> sum_list (s_dispatch s') = sum_list (s_dispatch s) + of_nat (length ts)
    \<and> (\<exists>err stopped. AcceptFailed err stopped \<in> set xs \<and> e = (if stopped then None else Some err))"
  using assms
proof (induction xs arbitrary: p s eff)
  case Nil
  then show ?case by simp
next
  case (Cons x rest)
  show ?case
  proof (cases x)
    case (AcceptFailed err stopped)
    then have "s' = s" "eff' = eff" "e = (if stopped then None else Some err)" using Cons.prems(1) by auto
    then show ?thesis using AcceptFailed by (intro exI [of _ "[]"]) (simp, blast)
  next
    case (Visitor t t0 now env cerr)
    obtain p1 eff1 err v where d: "Dispatch cerr now t (t0 + timeout) (env p) = (p1, eff1, err, v)"
      by (cases "Dispatch cerr now t (t0 + timeout) (env p)")
    define s1 where "s1 = s\<lparr>s_Visitors := s_Visitors s + 1\<rparr>"
    define s2 where "s2 = (case err of None \<Rightarrow> s1 | Some x \<Rightarrow> DispatchFailed x s1)"
    have ok1: "stats_ok s1" using Cons.prems(2) by (simp add: stats_ok_def s1_def)
    have ok2: "stats_ok s2" using ok1 stats_ok_events by (simp add: s2_def split: option.split)
    have c: "s_Visitors s2 = s_Visitors s + 1"
      "sum_list (s_dispatch s2) = sum_list (s_dispatch s) + (if err = None then 0 else 1)"
      using ok1 dispatch_index_bound
      by (auto simp: s2_def s1_def DispatchFailed_def stats_ok_def sum_bump split: option.split)
    have l: "accept_loop timeout rest (p1, s2, eff @ eff1) = Some (p', s', eff', e)"
      using Cons.prems(1) by (simp add: Visitor d Let_def s1_def [symmetric] s2_def [symmetric])
    have "\<exists>ts. subseq ts (visitors rest) \<and> eff' = (eff @ eff1) @ map CloseTCP ts
      \<and> s_Visitors s' = s_Visitors s2 + of_nat (length (visitors rest))
      \<and> sum_list (s_dispatch s') = sum_list (s_dispatch s2) + of_nat (length ts)
      \<and> (\<exists>err stopped. AcceptFailed err stopped \<in> set rest \<and> e = (if stopped then None else Some err))"
      by (rule Cons.IH [OF l ok2])
    then obtain ts where ts: "subseq ts (visitors rest)" "eff' = (eff @ eff1) @ map CloseTCP ts"
      "s_Visitors s' = s_Visitors s2 + of_nat (length (visitors rest))"
      "sum_list (s_dispatch s') = sum_list (s_dispatch s2) + of_nat (length ts)"
      "\<exists>err stopped. AcceptFailed err stopped \<in> set rest \<and> e = (if stopped then None else Some err)"
      by blast
    note f = Dispatch_refused [OF d]
    show ?thesis
    proof (cases "err = None")
      case True
      then show ?thesis using Visitor ts f c by (intro exI [of _ ts]) auto
    next
      case False
      then show ?thesis using Visitor ts f c by (intro exI [of _ "t # ts"]) auto
    qed
  qed
qed

theorem accept_accounting_witness:
  "\<exists>p' s'. accept_loop 5 [Visitor 7 100 100 (\<lambda>p. p) None, Visitor 8 101 107 (\<lambda>p. p) None, AcceptFailed EOF True]
      (new_pool 1, zero_stats, []) = Some (p', s', [CloseTCP 8], None)
    \<and> s_Visitors s' = 2 \<and> sum_list (s_dispatch s') = 1"
proof -
  obtain p' s' where l: "accept_loop 5 [Visitor 7 100 100 (\<lambda>p. p) None, Visitor 8 101 107 (\<lambda>p. p) None, AcceptFailed EOF True]
      (new_pool 1, zero_stats, []) = Some (p', s', [CloseTCP 8], None)"
    by (simp add: Dispatch_def new_pool_def Let_def)
  obtain ts where "[CloseTCP 8] = [] @ map CloseTCP ts" "s_Visitors s' = s_Visitors zero_stats + of_nat 2"
    "sum_list (s_dispatch s') = sum_list (s_dispatch zero_stats) + of_nat (length ts)"
    using accept_accounting [OF l stats_ok_zero(1)] by (simp only: visitors.simps length_Cons list.size) fastforce
  moreover from this(1) have "length ts = 1" by (cases ts) auto
  ultimately show ?thesis using l by (auto simp: zero_stats_def dispatchErrors_def)
qed

lemma each_pool_keeps:
  assumes "\<And>p. stopping p \<Longrightarrow> stopping (fst (f p))" and "srt_pools r n = Some p" and "stopping p"
  shows "\<exists>q. srt_pools (fst (each_pool f ns r)) n = Some q \<and> stopping q"
  using assms(2,3)
proof (induction ns arbitrary: r p)
  case (Cons m ns)
  show ?case
  proof (cases "srt_pools r m")
    case (Some p0)
    obtain p1 e1 where f: "f p0 = (p1, e1)" by fastforce
    have "\<exists>q. srt_pools (put_pool m p1 r) n = Some q \<and> stopping q"
      using Cons.prems Some f assms(1) [of p0] by (auto simp: put_pool_def)
    then show ?thesis using Cons.IH Some f by (auto split: prod.splits) (metis fst_conv)
  qed (use Cons in simp)
qed simp

lemma each_pool_stops:
  assumes "\<And>p. stopping (fst (f p))" and "n \<in> set ns" and "srt_pools r n \<noteq> None"
  shows "\<exists>q. srt_pools (fst (each_pool f ns r)) n = Some q \<and> stopping q"
  using assms(2,3)
proof (induction ns arbitrary: r)
  case (Cons m ns)
  show ?case
  proof (cases "srt_pools r m")
    case None
    with Cons show ?thesis by auto
  next
    case (Some p0)
    obtain p1 e1 where f: "f p0 = (p1, e1)" by fastforce
    have s: "stopping p1" using assms(1) [of p0] f by simp
    show ?thesis
    proof (cases "n = m")
      case True
      then have "srt_pools (put_pool m p1 r) n = Some p1" by (simp add: put_pool_def)
      from each_pool_keeps [where f = f and ns = ns, OF assms(1) this s] show ?thesis
        using Some f by (simp add: split_beta)
    next
      case False
      then have "n \<in> set ns" "srt_pools (put_pool m p1 r) n \<noteq> None" using Cons.prems by (auto simp: put_pool_def)
      then show ?thesis using Cons.IH [of "put_pool m p1 r"] Some f by (simp add: split_beta)
    qed
  qed
qed simp

lemma Stop_stopping: "stopping (fst (Stop p))"
  by (auto simp: Stop_def Stop_locked_def split_beta)

lemma Force_stopping: "stopping p \<Longrightarrow> stopping (fst (Force p))"
  by (simp add: Force_def)

text \<open>
  C18. After the shutdown nothing gets in. Whatever the other goroutines do, as long as they do not
  restart a pool: when the shutdown of the server is over, whether or not it had to force, every
  pool refuses visitors and closes them, refuses registrations, and no connection that says HELLO
  becomes a worker of its service.
\<close>

theorem server_drain_refuses:
  assumes "server_drain names env1 env2 drained r = (r', eff)" and "n \<in> set names" and "srt_pools r n \<noteq> None"
    and "\<And>q p. srt_pools q n = Some p \<Longrightarrow> stopping p \<Longrightarrow> \<exists>p'. srt_pools (env1 q) n = Some p' \<and> stopping p'"
    and "\<And>q p. srt_pools q n = Some p \<Longrightarrow> stopping p \<Longrightarrow> \<exists>p'. srt_pools (env2 q) n = Some p' \<and> stopping p'"
  shows "\<exists>p. srt_pools r' n = Some p
    \<and> Dispatch cerr now t dl p = (p, [CloseTCP t], Some ErrStopped, None)
    \<and> Register cid os now rnd p = (p, Inl ErrStopped)
    \<and> (case register X J sha env auth now rnd (r', c) of
         None \<Rightarrow> True | Some (_, _, _, res) \<Rightarrow> res \<noteq> RegWorking n w \<and> res \<noteq> RegClosed n w)"
proof -
  have 1: "\<exists>q. srt_pools (env1 (fst (each_pool Stop names r))) n = Some q \<and> stopping q"
    using each_pool_stops [where f = Stop, OF Stop_stopping assms(2,3)] assms(4) by blast
  then have "\<exists>q. srt_pools (env2 (fst (each_pool Force names (env1 (fst (each_pool Stop names r)))))) n = Some q \<and> stopping q"
    using each_pool_keeps [where f = Force and n = n, OF Force_stopping] assms(5) by blast
  with 1 assms(1) obtain p where p: "srt_pools r' n = Some p" "stopping p"
    by (auto simp: server_drain_def split_beta split: if_splits)
  have "res \<noteq> RegWorking n w \<and> res \<noteq> RegClosed n w"
    if "register X J sha env auth now rnd (r', c) = Some (r2, c2, eff2, res)" for r2 c2 eff2 res
    using that
  proof (cases rule: register_cases)
    case (registered m p0 p1 os w0 c1)
    then have "res \<in> {RegClosed m w0, RegWorking m w0, RegPanic}" by (intro reg_finish_names)
    moreover have "m \<noteq> n" using registered(2,3) p by (auto simp: Register_def)
    ultimately show ?thesis by auto
  qed simp_all
  then show ?thesis using p by (auto simp: Dispatch_def Register_def split: option.split)
qed

theorem server_drain_refuses_witness:
  "\<exists>r' eff p. server_drain [''a''] (\<lambda>q. q) (\<lambda>q. q) False demo_server = (r', eff)
    \<and> srt_pools r' ''a'' = Some p \<and> Register 1 (params_options demo_os) 0 0 p = (p, Inl ErrStopped)"
proof -
  obtain r' eff where r: "server_drain [''a''] (\<lambda>q. q) (\<lambda>q. q) False demo_server = (r', eff)" by fastforce
  have k: "''a'' \<in> set [''a'']" "srt_pools demo_server ''a'' \<noteq> None" by (simp_all add: demo_server_def)
  have "\<exists>p. srt_pools r' ''a'' = Some p
    \<and> Dispatch None 0 7 1 p = (p, [CloseTCP 7], Some ErrStopped, None)
    \<and> Register 1 (params_options demo_os) 0 0 p = (p, Inl ErrStopped)
    \<and> (case register net_duplex demo_json demo_sha (\<lambda>q. q) None 0 0 (r', demo_in) of
         None \<Rightarrow> True | Some (_, _, _, res) \<Rightarrow> res \<noteq> RegWorking ''a'' 0 \<and> res \<noteq> RegClosed ''a'' 0)"
    by (rule server_drain_refuses [OF r k]) blast+
  then show ?thesis using r by blast
qed

text \<open>
  A run of the client starts nothing when its configuration is invalid or its metrics address cannot
  be opened, and otherwise stops every connection, forces exactly if the drain timed out, and stops
  the metrics server last.
\<close>

lemma client_run_order:
  "case client_Run listen names failure drained (Some cfg) of (tr, e) \<Rightarrow>
    (if StopClient \<in> set tr
     then e = failure \<and> {n. SpawnControl n \<in> set tr} = set names
       \<and> ValidatePool (cl_Pool cfg) = None \<and> (ForceClient \<in> set tr) = (\<not> drained)
       \<and> (\<exists>before. tr = before @ [Cancel, StopClient] @ (if drained then [] else [ForceClient])
           @ [WaitGoroutines, StopMetrics, WaitMetrics])
     else e \<noteq> None \<and> tr = [])"
  by (auto simp: client_Run_def Let_def split: option.splits)

text \<open>
  Exit codes. The program exits with 2 exactly when it refuses the command line, the
  configuration, or its role, before anything was started; with 1 exactly when the command it
  carried out failed; and a server (a client) only ever runs with the server's (the client's) part of
  a configuration that was loaded from the named file.
\<close>

theorem exit_codes:
  "case main_run keygen parse load say srv cli args of (cmd, code) \<Rightarrow>
     (case cmd of
        Keygen \<Rightarrow> args = [''keygen''] \<and> code = (if keygen = None then 0 else 1)
      | Checked \<Rightarrow> hd args = ''check'' \<and> code = (if say = None then 0 else 1)
          \<and> (\<exists>file cfg. parse (tl args) = Some (file, 0) \<and> load file = Inr cfg)
      | RunServer c \<Rightarrow> hd args = ''server'' \<and> code = (if srv c = None then 0 else 1)
          \<and> (\<exists>file cfg. parse (tl args) = Some (file, 0) \<and> load file = Inr cfg \<and> Server cfg = Some c)
      | RunClient c \<Rightarrow> hd args = ''client'' \<and> code = (if cli c = None then 0 else 1)
          \<and> (\<exists>file cfg. parse (tl args) = Some (file, 0) \<and> load file = Inr cfg \<and> Client cfg = Some c)
      | BadConfig e \<Rightarrow> code = 2 \<and> (\<exists>file. parse (tl args) = Some (file, 0) \<and> load file = Inl e)
      | _ \<Rightarrow> code = 2)"
  by (auto simp: main_run_def split: list.split option.split sum.split)

end
