(* ===== verification/Smoke.thy ===== *)
theory Smoke
  imports Prelude
begin

text \<open>
  The part of the smoke test under \<^verbatim>\<open>internal/cmd/smoke\<close> that judges the program by its log: the
  collector of log lines and the wait for an event (\<^verbatim>\<open>harness.go\<close>), the conditions and the reuse
  checker over the collected events (\<^verbatim>\<open>scene.go\<close>, \<^verbatim>\<open>scenarios.go\<close>), and what they see of the server:
  the log lines of \<open>work\<close> in \<^verbatim>\<open>server/worker.go\<close>. Processes, files and sockets are outside.
\<close>

subsection \<open>Collecting lines\<close>

text \<open>
  \<open>pr_logs\<close>: the parsed lines; \<open>js\<close> is \<^verbatim>\<open>json.Unmarshal\<close> of a line. The second result says whether
  somebody who waits for events is notified.
\<close>

record 'e process =
  pr_logs :: "'e list"
  pr_stderr :: bytes
  pr_partial :: bytes

definition newline :: byte where "newline = 10"

function line_loop :: "(bytes \<Rightarrow> 'e option) \<Rightarrow> 'e process \<Rightarrow> bool \<Rightarrow> 'e process \<times> bool" where
  "line_loop js p notified =
     (let line = takeWhile (\<lambda>b. b \<noteq> newline) (pr_partial p)
      in if newline \<notin> set (pr_partial p) then (p, notified)
         else line_loop js
           (p\<lparr>pr_stderr := pr_stderr p @ line @ [newline],
              pr_logs := pr_logs p @ (case js line of Some e \<Rightarrow> [e] | None \<Rightarrow> []),
              pr_partial := drop (Suc (length line)) (pr_partial p)\<rparr>) True)"
  by pat_completeness auto
termination
proof (relation "measure (\<lambda>(js, p, n). length (pr_partial p))", simp, goal_cases)
  case (1 js p notified line)
  then show ?case by (cases "pr_partial p") auto
qed

declare line_loop.simps [simp del]

definition process_Write :: "(bytes \<Rightarrow> 'e option) \<Rightarrow> 'e process \<Rightarrow> bytes \<Rightarrow> 'e process \<times> bool" where
  "process_Write js p data = line_loop js (p\<lparr>pr_partial := pr_partial p @ data\<rparr>) False"

subsection \<open>Events\<close>

text \<open>
  An event of the log: its string and number fields. The code reads numbers as \<^verbatim>\<open>float64\<close>, which is
  exact for the IDs of a log (counters far below \<open>2 ^ 53\<close>).
\<close>

record event =
  ev_str :: "string \<rightharpoonup> string"
  ev_num :: "string \<rightharpoonup> nat"

definition is_event :: "string \<Rightarrow> event \<Rightarrow> bool" where
  "is_event k e \<longleftrightarrow> ev_str e ''event'' = Some k"

definition of_service :: "string \<Rightarrow> event \<Rightarrow> bool" where
  "of_service n e \<longleftrightarrow> ev_str e ''service'' = Some n"

text \<open>\<^verbatim>\<open>x, _ := ev[k].(float64)\<close>.\<close>

definition num :: "string \<Rightarrow> event \<Rightarrow> nat" where
  "num k e = (case ev_num e k of Some x \<Rightarrow> x | None \<Rightarrow> 0)"

definition readyCount :: "string \<Rightarrow> event list \<Rightarrow> nat" where
  "readyCount n evs = length (filter (\<lambda>e. is_event ''pool_ready'' e \<and> of_service n e) evs)"

definition countEvents :: "string \<Rightarrow> string \<Rightarrow> string \<Rightarrow> event list \<Rightarrow> nat" where
  "countEvents service name reason evs =
     length (filter (\<lambda>e. of_service service e \<and> is_event name e
       \<and> (reason = [] \<or> ev_str e ''reason'' = Some reason)) evs)"

definition missingEvent :: "string \<Rightarrow> event list \<Rightarrow> error option" where
  "missingEvent name evs =
     (if find (is_event name) evs \<noteq> None then Some (Errmsg (''unexpected '' @ name)) else None)"

text \<open>The connections that \<open>stopClient\<close> still waits for; a field that is missing counts as a value.\<close>

definition open_conns :: "event list \<Rightarrow> nat option set" where
  "open_conns evs = fold (\<lambda>e s. if is_event ''pool_ready'' e then insert (ev_num e ''connection_id'') s
     else if is_event ''connection_closed'' e then s - {ev_num e ''connection_id''} else s) evs {}"

text \<open>The connections that \<open>poolGrowth\<close> and \<open>maxLifetime\<close> have seen carry a lease.\<close>

definition lease_conns :: "event list \<Rightarrow> nat option set" where
  "lease_conns evs = fold (\<lambda>e s. if is_event ''lease_started'' e then insert (ev_num e ''connection_id'') s else s) evs {}"

text \<open>
  \<open>waitEvent\<close>, over what each turn of its loop finds: the events collected so far and the predicate
  (which may itself look at the collected events). \<open>x\<close>: why the wait ends when no event is found, the
  timer or the context.
\<close>

fun waitEvent :: "(event list \<times> (event \<Rightarrow> bool)) list \<Rightarrow> error \<Rightarrow> error + event" where
  "waitEvent [] x = Inl x"
| "waitEvent ((evs, pred) # ts) x = (case find pred evs of Some e \<Rightarrow> Inr e | None \<Rightarrow> waitEvent ts x)"

definition finished_count :: "string \<Rightarrow> event list \<Rightarrow> nat" where
  "finished_count n evs = length (filter (\<lambda>e. of_service n e \<and> is_event ''lease_finished'' e) evs)"

definition awaitFinished :: "string \<Rightarrow> nat \<Rightarrow> event list list \<Rightarrow> error \<Rightarrow> error option" where
  "awaitFinished n k logs x =
     (case waitEvent (map (\<lambda>evs. (evs, \<lambda>_. finished_count n evs \<ge> k)) logs) x of
        Inl e \<Rightarrow> Some e | Inr _ \<Rightarrow> None)"

subsection \<open>The reuse checker\<close>

text \<open>The type \<open>conn\<close> of \<open>assertReuse\<close>, and its errors with the numbers they print.\<close>

record conn_log =
  cl_last :: nat
  cl_leases :: nat
  cl_awaiting :: bool

definition new_conn_log :: conn_log where
  "new_conn_log = \<lparr>cl_last = 0, cl_leases = 0, cl_awaiting = False\<rparr>"

datatype reuse_error =
    NotFinished error
  | BeforeBarrier nat nat
  | LeaseIdAfter nat nat nat
  | LogCounts nat nat nat
  | TooManyConns nat nat

text \<open>
  The variables of \<open>assertReuse\<close>; \<open>re_ids\<close> lists the keys of the map, so that the loop over it can be
  written down.
\<close>

record reuse_state =
  re_conns :: "nat \<rightharpoonup> conn_log"
  re_ids :: "nat list"
  re_started :: nat
  re_finished :: nat

definition new_reuse :: reuse_state where
  "new_reuse = \<lparr>re_conns = Map.empty, re_ids = [], re_started = 0, re_finished = 0\<rparr>"

definition reuse_event :: "event \<Rightarrow> reuse_state \<Rightarrow> reuse_error + reuse_state" where
  "reuse_event e s0 =
     (let i = num ''connection_id'' e;
          s = (if re_conns s0 i = None
               then s0\<lparr>re_conns := (re_conns s0)(i \<mapsto> new_conn_log), re_ids := re_ids s0 @ [i]\<rparr> else s0);
          c = the (re_conns s i)
      in if is_event ''pool_ready'' e
         then Inr (s\<lparr>re_conns := (re_conns s)(i \<mapsto> c\<lparr>cl_awaiting := False\<rparr>)\<rparr>)
         else if is_event ''lease_started'' e
         then (let l = num ''lease_id'' e
               in if cl_awaiting c then Inl (BeforeBarrier i l)
                  else if l \<noteq> cl_last c + 1 then Inl (LeaseIdAfter i l (cl_last c))
                  else Inr (s\<lparr>re_conns := (re_conns s)(i \<mapsto> c\<lparr>cl_last := l, cl_leases := cl_leases c + 1\<rparr>),
                              re_started := re_started s + 1\<rparr>))
         else if is_event ''lease_finished'' e
         then Inr (s\<lparr>re_conns := (re_conns s)(i \<mapsto> c\<lparr>cl_awaiting := True\<rparr>), re_finished := re_finished s + 1\<rparr>)
         else Inr s)"

fun reuse_loop :: "string \<Rightarrow> event list \<Rightarrow> reuse_state \<Rightarrow> reuse_error + reuse_state" where
  "reuse_loop n [] s = Inr s"
| "reuse_loop n (e # es) s =
     (if \<not> of_service n e then reuse_loop n es s
      else case reuse_event e s of Inl x \<Rightarrow> Inl x | Inr s1 \<Rightarrow> reuse_loop n es s1)"

definition used_conns :: "reuse_state \<Rightarrow> nat" where
  "used_conns s = length (filter (\<lambda>i. cl_leases (the (re_conns s i)) > 0) (re_ids s))"

definition check_reuse :: "string \<Rightarrow> nat \<Rightarrow> event list \<Rightarrow> reuse_error option" where
  "check_reuse n leases evs =
     (case reuse_loop n evs new_reuse of
        Inl x \<Rightarrow> Some x
      | Inr s \<Rightarrow>
          (if re_started s \<noteq> leases \<or> re_finished s \<noteq> leases
           then Some (LogCounts (re_started s) (re_finished s) leases)
           else if used_conns s > 2 then Some (TooManyConns leases (used_conns s))
           else None))"

text \<open>\<open>logs\<close>: the events at each turn of the wait, \<open>evs\<close>: those of the check after it.\<close>

definition assertReuse :: "string \<Rightarrow> nat \<Rightarrow> event list list \<Rightarrow> error \<Rightarrow> event list \<Rightarrow> reuse_error option" where
  "assertReuse n leases logs x evs =
     (case awaitFinished n leases logs x of
        Some e \<Rightarrow> Some (NotFinished e)
      | None \<Rightarrow> check_reuse n leases evs)"

subsection \<open>What the collector keeps\<close>

text \<open>\<open>ls\<close> are the complete lines of \<open>bs\<close>, and \<open>p\<close> has exactly those.\<close>

definition collected :: "(bytes \<Rightarrow> 'e option) \<Rightarrow> bytes list \<Rightarrow> bytes \<Rightarrow> 'e process \<Rightarrow> bool" where
  "collected js ls bs p \<longleftrightarrow> list_all (\<lambda>l. newline \<notin> set l) ls
     \<and> pr_stderr p = concat (map (\<lambda>l. l @ [newline]) ls)
     \<and> pr_logs p = List.map_filter js ls
     \<and> pr_stderr p @ pr_partial p = bs"

lemma map_filter_snoc: "List.map_filter f (xs @ [x]) = List.map_filter f xs @ (case f x of Some y \<Rightarrow> [y] | None \<Rightarrow> [])"
  by (simp add: List.map_filter_def split: option.split)

lemma takeWhile_line: "newline \<in> set b \<Longrightarrow> takeWhile (\<lambda>x. x \<noteq> newline) b @ newline # drop (Suc (length (takeWhile (\<lambda>x. x \<noteq> newline) b))) b = b"
  by (induction b) auto

lemma line_loop_collected:
  assumes "collected js ls bs p"
  shows "\<exists>ls'. collected js (ls @ ls') bs (fst (line_loop js p n))
    \<and> newline \<notin> set (pr_partial (fst (line_loop js p n)))
    \<and> (snd (line_loop js p n) \<longleftrightarrow> n \<or> newline \<in> set (pr_partial p))"
  using assms
proof (induction js p n arbitrary: ls rule: line_loop.induct)
  case (1 js p n)
  let ?b = "pr_partial p"
  let ?line = "takeWhile (\<lambda>x. x \<noteq> newline) ?b"
  let ?p = "p\<lparr>pr_stderr := pr_stderr p @ ?line @ [newline],
     pr_logs := pr_logs p @ (case js ?line of Some e \<Rightarrow> [e] | None \<Rightarrow> []),
     pr_partial := drop (Suc (length ?line)) ?b\<rparr>"
  show ?case
  proof (cases "newline \<in> set ?b")
    case False
    then show ?thesis using "1.prems" by (auto simp: line_loop.simps [of js p n] intro!: exI [of _ "[]"])
  next
    case True
    have "newline \<notin> set ?line" using set_takeWhileD [of newline "\<lambda>x. x \<noteq> newline" ?b] by blast
    then have "collected js (ls @ [?line]) bs ?p"
      using "1.prems" takeWhile_line [OF True] by (auto simp: collected_def map_filter_snoc)
    from "1.IH" [OF refl _ this] True obtain ls' where
      "collected js ((ls @ [?line]) @ ls') bs (fst (line_loop js ?p True))"
      "newline \<notin> set (pr_partial (fst (line_loop js ?p True)))" "snd (line_loop js ?p True)" by auto
    moreover have "line_loop js p n = line_loop js ?p True"
      using True by (subst line_loop.simps) (simp add: Let_def)
    ultimately show ?thesis using True by (intro exI [of _ "?line # ls'"]) simp
  qed
qed

lemma process_Write_collected:
  assumes "collected js ls bs p"
  shows "\<exists>ls'. collected js (ls @ ls') (bs @ d) (fst (process_Write js p d))
    \<and> newline \<notin> set (pr_partial (fst (process_Write js p d)))"
proof -
  have "collected js ls (bs @ d) (p\<lparr>pr_partial := pr_partial p @ d\<rparr>)" using assms by (auto simp: collected_def)
  then show ?thesis using line_loop_collected unfolding process_Write_def by blast
qed

lemma writes_collected:
  assumes "collected js ls bs p" and "newline \<notin> set (pr_partial p)"
  shows "\<exists>ls'. collected js (ls @ ls') (bs @ concat ds) (fold (\<lambda>d p. fst (process_Write js p d)) ds p)
    \<and> newline \<notin> set (pr_partial (fold (\<lambda>d p. fst (process_Write js p d)) ds p))"
  using assms
proof (induction ds arbitrary: ls bs p)
  case (Cons d ds)
  obtain l1 where "collected js (ls @ l1) (bs @ d) (fst (process_Write js p d))"
    "newline \<notin> set (pr_partial (fst (process_Write js p d)))" using process_Write_collected Cons.prems(1) by blast
  from Cons.IH [OF this] obtain l2 where
    "collected js ((ls @ l1) @ l2) ((bs @ d) @ concat ds) (fold (\<lambda>d p. fst (process_Write js p d)) (d # ds) p)"
    "newline \<notin> set (pr_partial (fold (\<lambda>d p. fst (process_Write js p d)) (d # ds) p))" by auto
  then show ?case by (intro exI [of _ "l1 @ l2"]) simp
qed (auto intro!: exI [of _ "[]"])

definition new_process :: "'e process" where
  "new_process = \<lparr>pr_logs = [], pr_stderr = [], pr_partial = []\<rparr>"

text \<open>
  The collector of the smoke test sees every line of its process once, whole and in order,
  however the output is cut into writes: the standard error so far is a sequence of complete lines,
  the events are those lines that parse, and what is left over is an incomplete line.
\<close>

theorem process_Write_lines:
  "let p = fold (\<lambda>d p. fst (process_Write js p d)) ds new_process in
   \<exists>ls. list_all (\<lambda>l. newline \<notin> set l) ls
    \<and> pr_stderr p = concat (map (\<lambda>l. l @ [newline]) ls)
    \<and> pr_logs p = List.map_filter js ls
    \<and> newline \<notin> set (pr_partial p)
    \<and> pr_stderr p @ pr_partial p = concat ds"
proof -
  have "collected js [] [] new_process" by (simp add: collected_def new_process_def List.map_filter_def)
  from writes_collected [OF this, of ds] show ?thesis by (auto simp: collected_def new_process_def Let_def)
qed

subsection \<open>What the reuse checker accepts\<close>

text \<open>
  The events of a service that concern connection \<open>i\<close>, the leases it has started, and whether it
  finished a lease after it was last ready.
\<close>

definition conn_events :: "string \<Rightarrow> nat \<Rightarrow> event list \<Rightarrow> event list" where
  "conn_events n i evs = filter (\<lambda>e. of_service n e \<and> num ''connection_id'' e = i) evs"

definition starts :: "event list \<Rightarrow> nat" where
  "starts evs = length (filter (is_event ''lease_started'') evs)"

definition in_barrier :: "event list \<Rightarrow> bool" where
  "in_barrier evs = (let xs = filter (\<lambda>e. is_event ''pool_ready'' e \<or> is_event ''lease_finished'' e) evs
     in xs \<noteq> [] \<and> is_event ''lease_finished'' (last xs))"

text \<open>The next lease of a connection may start here.\<close>

definition start_ok :: "string \<Rightarrow> event list \<Rightarrow> event \<Rightarrow> bool" where
  "start_ok n before e \<longleftrightarrow>
     (let xs = conn_events n (num ''connection_id'' e) before
      in num ''lease_id'' e = Suc (starts xs) \<and> \<not> in_barrier xs)"

definition starts_ok :: "string \<Rightarrow> event list \<Rightarrow> bool" where
  "starts_ok n evs \<longleftrightarrow> list_all (\<lambda>j. of_service n (evs ! j) \<longrightarrow> is_event ''lease_started'' (evs ! j) \<longrightarrow>
     start_ok n (take j evs) (evs ! j)) [0..<length evs]"

lemma starts_ok_Nil [simp]: "starts_ok n []"
  by (simp add: starts_ok_def)

lemma starts_ok_snoc:
  "starts_ok n (evs @ [e]) \<longleftrightarrow> starts_ok n evs
     \<and> (of_service n e \<and> is_event ''lease_started'' e \<longrightarrow> start_ok n evs e)"
  by (auto simp: starts_ok_def list_all_iff nth_append less_Suc_eq)

text \<open>The state of the checker after a log it accepted.\<close>

definition reuse_of :: "string \<Rightarrow> event list \<Rightarrow> reuse_state \<Rightarrow> bool" where
  "reuse_of n evs s \<longleftrightarrow>
     (\<forall>i. re_conns s i = (let xs = conn_events n i evs
        in if xs = [] then None else Some \<lparr>cl_last = starts xs, cl_leases = starts xs, cl_awaiting = in_barrier xs\<rparr>))
     \<and> distinct (re_ids s) \<and> set (re_ids s) = {i. conn_events n i evs \<noteq> []}
     \<and> re_started s = starts (filter (of_service n) evs) \<and> re_finished s = finished_count n evs"

lemma event_kind: "is_event k e \<Longrightarrow> is_event k' e \<longleftrightarrow> k' = k"
  by (auto simp: is_event_def)

lemma conn_events_snoc: "conn_events n i (evs @ [e])
    = conn_events n i evs @ (if of_service n e \<and> num ''connection_id'' e = i then [e] else [])"
  by (simp add: conn_events_def)

lemma starts_snoc: "starts (evs @ [e]) = starts evs + (if is_event ''lease_started'' e then 1 else 0)"
  by (simp add: starts_def)

lemma in_barrier_snoc: "in_barrier (evs @ [e])
    = (if is_event ''pool_ready'' e then False else if is_event ''lease_finished'' e then True else in_barrier evs)"
proof (cases "is_event ''pool_ready'' e")
  case True
  then have "\<not> is_event ''lease_finished'' e" by (simp add: event_kind)
  then show ?thesis using True by (simp add: in_barrier_def Let_def)
qed (simp add: in_barrier_def Let_def)

lemma in_barrier_Nil [simp]: "\<not> in_barrier []" "starts [] = 0"
  by (simp_all add: in_barrier_def starts_def)

lemma finished_snoc: "finished_count n (evs @ [e])
    = finished_count n evs + (if of_service n e \<and> is_event ''lease_finished'' e then 1 else 0)"
  by (simp add: finished_count_def)

lemmas log_snoc = conn_events_snoc starts_snoc in_barrier_snoc finished_snoc

lemma reuse_of_other: "\<not> of_service n e \<Longrightarrow> reuse_of n (evs @ [e]) s = reuse_of n evs s"
  by (simp add: reuse_of_def log_snoc)

lemma reuse_event_step:
  assumes s: "reuse_of n evs s" and e: "of_service n e"
  shows "case reuse_event e s of
      Inl x \<Rightarrow> is_event ''lease_started'' e \<and> \<not> start_ok n evs e
    | Inr s1 \<Rightarrow> reuse_of n (evs @ [e]) s1 \<and> (is_event ''lease_started'' e \<longrightarrow> start_ok n evs e)"
proof -
  let ?i = "num ''connection_id'' e"
  let ?xs = "conn_events n ?i evs"
  let ?c = "\<lparr>cl_last = starts ?xs, cl_leases = starts ?xs, cl_awaiting = in_barrier ?xs\<rparr>"
  define s1 where "s1 = (if re_conns s ?i = None
     then s\<lparr>re_conns := (re_conns s)(?i \<mapsto> new_conn_log), re_ids := re_ids s @ [?i]\<rparr> else s)"
  have c: "re_conns s1 ?i = Some ?c"
    using s by (auto simp: s1_def reuse_of_def new_conn_log_def Let_def split: if_splits)
  have o: "re_conns s1 i = re_conns s i" if "i \<noteq> ?i" for i using that by (simp add: s1_def)
  have ids: "distinct (re_ids s1)" "set (re_ids s1) = {i. conn_events n i (evs @ [e]) \<noteq> []}"
    using s e by (auto simp: s1_def reuse_of_def Let_def log_snoc split: if_splits)
  have cnt: "re_started s1 = starts (filter (of_service n) evs)" "re_finished s1 = finished_count n evs"
    using s by (auto simp: s1_def reuse_of_def)
  have ot: "re_conns s1 i = (let xs = conn_events n i (evs @ [e])
        in if xs = [] then None else Some \<lparr>cl_last = starts xs, cl_leases = starts xs, cl_awaiting = in_barrier xs\<rparr>)"
    if "i \<noteq> ?i" for i using s o [OF that] that by (auto simp: reuse_of_def log_snoc Let_def)
  have upd: "reuse_of n (evs @ [e]) s2"
    if "re_conns s2 = (re_conns s1)(?i \<mapsto> c2)" "re_ids s2 = re_ids s1"
      "c2 = \<lparr>cl_last = starts (?xs @ [e]), cl_leases = starts (?xs @ [e]), cl_awaiting = in_barrier (?xs @ [e])\<rparr>"
      "re_started s2 = starts (filter (of_service n) (evs @ [e]))" "re_finished s2 = finished_count n (evs @ [e])"
    for s2 c2
    using that ot ids e by (auto simp: reuse_of_def conn_events_snoc Let_def)
  note case_simps = reuse_event_def Let_def s1_def [symmetric] c
  show ?thesis
  proof (cases "is_event ''pool_ready'' e")
    case True
    then have k: "\<not> is_event ''lease_started'' e" "\<not> is_event ''lease_finished'' e" by (simp_all add: event_kind)
    show ?thesis using True k e cnt by (simp add: case_simps) (rule upd, auto simp: log_snoc)
  next
    case ready: False
    show ?thesis
    proof (cases "is_event ''lease_started'' e")
      case True
      then have k: "\<not> is_event ''lease_finished'' e" by (simp add: event_kind)
      show ?thesis using True ready k e cnt
        by (simp add: case_simps start_ok_def) (auto intro!: upd simp: log_snoc)
    next
      case start: False
      show ?thesis
      proof (cases "is_event ''lease_finished'' e")
        case True
        then show ?thesis using start ready e cnt by (simp add: case_simps) (rule upd, auto simp: log_snoc)
      next
        case False
        moreover have "re_conns s1 = (re_conns s1)(?i \<mapsto> ?c)" by (rule sym, rule fun_upd_idem, rule c)
        ultimately have "reuse_of n (evs @ [e]) s1" using start ready e cnt by (intro upd) (simp_all add: log_snoc)
        with False show ?thesis using start ready by (simp add: case_simps)
      qed
    qed
  qed
qed

lemma reuse_loop_snoc: "reuse_loop n (evs @ [e]) s = (case reuse_loop n evs s of Inl x \<Rightarrow> Inl x
    | Inr s1 \<Rightarrow> if of_service n e then reuse_event e s1 else Inr s1)"
  by (induction evs arbitrary: s) (auto split: sum.splits)

lemma reuse_loop_spec:
  "case reuse_loop n evs new_reuse of Inl x \<Rightarrow> \<not> starts_ok n evs | Inr s \<Rightarrow> starts_ok n evs \<and> reuse_of n evs s"
proof (induction evs rule: rev_induct)
  case Nil
  then show ?case by (simp add: reuse_of_def new_reuse_def conn_events_def finished_count_def)
next
  case (snoc e evs)
  show ?case
  proof (cases "reuse_loop n evs new_reuse")
    case (Inl x)
    then show ?thesis using snoc by (simp add: reuse_loop_snoc starts_ok_snoc)
  next
    case (Inr s)
    then have s: "starts_ok n evs" "reuse_of n evs s" using snoc by simp_all
    show ?thesis
    proof (cases "of_service n e")
      case True
      with reuse_event_step [OF s(2) True] s(1) Inr show ?thesis
        by (auto simp: reuse_loop_snoc starts_ok_snoc split: sum.split_asm)
    next
      case False
      with s Inr show ?thesis by (simp add: reuse_loop_snoc starts_ok_snoc reuse_of_other)
    qed
  qed
qed

lemma used_conns_card:
  assumes "reuse_of n evs s"
  shows "used_conns s = card {i. starts (conn_events n i evs) > 0}"
proof -
  have d: "distinct (filter (\<lambda>i. cl_leases (the (re_conns s i)) > 0) (re_ids s))"
    using assms by (simp add: reuse_of_def)
  have "set (filter (\<lambda>i. cl_leases (the (re_conns s i)) > 0) (re_ids s)) = {i. starts (conn_events n i evs) > 0}"
    using assms by (auto simp: reuse_of_def Let_def)
  with distinct_card [OF d] show ?thesis by (simp add: used_conns_def)
qed

lemma awaitFinished_None: "awaitFinished n k logs x = None \<longleftrightarrow> (\<exists>l \<in> set logs. l \<noteq> [] \<and> k \<le> finished_count n l)"
proof -
  have f: "find (\<lambda>_. b) evs = None \<longleftrightarrow> evs = [] \<or> \<not> b" for b and evs :: "event list"
    by (induction evs) auto
  have "(\<exists>e. waitEvent (map (\<lambda>l. (l, \<lambda>_. k \<le> finished_count n l)) logs) x = Inr e)
      \<longleftrightarrow> (\<exists>l \<in> set logs. l \<noteq> [] \<and> k \<le> finished_count n l)"
  proof (induction logs)
    case (Cons l logs)
    then show ?case using f [of "k \<le> finished_count n l" l]
      by (cases "find (\<lambda>_. k \<le> finished_count n l) l") auto
  qed simp
  then show ?thesis by (auto simp: awaitFinished_def split: sum.splits)
qed

text \<open>
  C40. What the reuse check of the smoke test accepts. It succeeds exactly if the wait saw enough
  finished leases and, in the collected log of the service: every lease that starts on a connection
  bears the number of leases the connection has started so far, plus one, and does not start between
  the end of a lease and the next ready of that connection; as many leases started and finished as
  expected; and at most two connections carried them.
\<close>

theorem assertReuse_exact:
  "assertReuse n k logs x evs = None \<longleftrightarrow>
    (\<exists>l \<in> set logs. l \<noteq> [] \<and> k \<le> finished_count n l)
    \<and> starts_ok n evs
    \<and> starts (filter (of_service n) evs) = k \<and> finished_count n evs = k
    \<and> card {i. starts (conn_events n i evs) > 0} \<le> 2"
proof -
  have "check_reuse n k evs = None \<longleftrightarrow> starts_ok n evs \<and> starts (filter (of_service n) evs) = k
    \<and> finished_count n evs = k \<and> card {i. starts (conn_events n i evs) > 0} \<le> 2"
  proof (cases "reuse_loop n evs new_reuse")
    case (Inl e)
    then show ?thesis using reuse_loop_spec [of n evs] by (simp add: check_reuse_def)
  next
    case (Inr s)
    then have s: "starts_ok n evs" "reuse_of n evs s" using reuse_loop_spec [of n evs] by simp_all
    then show ?thesis using Inr used_conns_card [OF s(2)] by (auto simp: check_reuse_def reuse_of_def)
  qed
  with awaitFinished_None [of n k logs x] show ?thesis
    by (cases "awaitFinished n k logs x") (simp_all add: assertReuse_def)
qed

end
