(* ===== verification/Smoke_Server.thy ===== *)
theory Smoke_Server
  imports Smoke Worker_Trace
begin

text \<open>
  The smoke test against the server: the log that \<open>work\<close> writes is one the reuse checker accepts.
\<close>

subsection \<open>The log of a connection\<close>

definition log_event :: "string \<Rightarrow> string \<Rightarrow> nat \<Rightarrow> event" where
  "log_event kind service w = \<lparr>ev_str = [''event'' \<mapsto> kind, ''service'' \<mapsto> service], ev_num = [''connection_id'' \<mapsto> w]\<rparr>"

definition log_lease :: "string \<Rightarrow> string \<Rightarrow> nat \<Rightarrow> u64 \<Rightarrow> event" where
  "log_lease kind service w i = (log_event kind service w)\<lparr>ev_num := [''connection_id'' \<mapsto> w, ''lease_id'' \<mapsto> unat i]\<rparr>"

definition log_close :: "string \<Rightarrow> nat \<Rightarrow> string \<Rightarrow> event" where
  "log_close service w reason =
     \<lparr>ev_str = [''event'' \<mapsto> ''connection_closed'', ''service'' \<mapsto> service, ''reason'' \<mapsto> reason],
      ev_num = [''connection_id'' \<mapsto> w]\<rparr>"

text \<open>
  What \<open>work\<close> logs along its actions; \<open>checked\<close> is its variable. A lease is logged as finished unless
  it failed.
\<close>

fun work_log :: "string \<Rightarrow> nat \<Rightarrow> bool \<Rightarrow> wact list \<Rightarrow> event list" where
  "work_log n w checked [] = []"
| "work_log n w checked (AIdle oc # as) =
     (if oc = Ready \<and> \<not> checked then [log_event ''pool_ready'' n w] else []) @ work_log n w checked as"
| "work_log n w checked (ANext t nx # as) = work_log n w False as"
| "work_log n w checked (ABeat ok # as) = work_log n w True as"
| "work_log n w checked (ALease i rel out # as) =
     log_lease ''lease_started'' n w i
     # (if out = LeaseError then [] else [log_lease ''lease_finished'' n w i]) @ work_log n w checked as"
| "work_log n w checked (ACloseTCP v # as) = work_log n w checked as"
| "work_log n w checked (AClosed # as) = work_log n w checked as"
| "work_log n w checked (AStat reason # as) =
     log_close n w reason # work_log n w checked as"

lemma log_event_simps [simp]:
  "is_event k (log_event kind n w) \<longleftrightarrow> k = kind" "of_service m (log_event kind n w) \<longleftrightarrow> m = n"
  "num ''connection_id'' (log_event kind n w) = w"
  "is_event k (log_lease kind n w i) \<longleftrightarrow> k = kind" "of_service m (log_lease kind n w i) \<longleftrightarrow> m = n"
  "num ''connection_id'' (log_lease kind n w i) = w" "num ''lease_id'' (log_lease kind n w i) = unat i"
  "is_event k (log_close n w reason) \<longleftrightarrow> k = ''connection_closed''" "of_service m (log_close n w reason) \<longleftrightarrow> m = n"
  "num ''connection_id'' (log_close n w reason) = w"
  by (auto simp: is_event_def of_service_def num_def log_event_def log_lease_def log_close_def)

text \<open>A log of one connection that has started \<open>k\<close> leases; \<open>b\<close>: a lease ended and it is not ready yet.\<close>

fun log_from :: "nat \<Rightarrow> bool \<Rightarrow> event list \<Rightarrow> bool" where
  "log_from k b [] = True"
| "log_from k b (e # es) =
     (if is_event ''lease_started'' e then num ''lease_id'' e = Suc k \<and> \<not> b \<and> log_from (Suc k) b es
      else if is_event ''pool_ready'' e then log_from k False es
      else if is_event ''lease_finished'' e then log_from k True es
      else log_from k b es)"

definition barrier_after :: "bool \<Rightarrow> event list \<Rightarrow> bool" where
  "barrier_after b es = fold (\<lambda>e b. if is_event ''pool_ready'' e then False
     else if is_event ''lease_finished'' e then True else b) es b"

lemma barrier_after_False: "barrier_after False es = in_barrier es"
  by (induction es rule: rev_induct) (simp_all add: barrier_after_def in_barrier_snoc)

lemma log_from_append:
  "log_from k b (xs @ ys) \<longleftrightarrow> log_from k b xs \<and> log_from (k + starts xs) (barrier_after b xs) ys"
proof (induction xs arbitrary: k b)
  case (Cons e xs)
  consider (s) "is_event ''lease_started'' e" | (o) "\<not> is_event ''lease_started'' e" by blast
  then show ?case
  proof cases
    case s
    then have "\<not> is_event ''pool_ready'' e" "\<not> is_event ''lease_finished'' e" by (simp_all add: event_kind)
    with s Cons show ?thesis by (simp add: starts_def barrier_after_def)
  next
    case o
    with Cons show ?thesis by (simp add: starts_def barrier_after_def)
  qed
qed (simp add: barrier_after_def)

lemma log_from_quiet: "list_all (\<lambda>e. \<not> is_event ''lease_started'' e) es \<Longrightarrow> log_from k b es"
  by (induction es arbitrary: k b) auto

lemma work_log_append: "work_log n w ch (xs @ [AClosed, AStat reason]) = work_log n w ch xs @ work_log n w ch [AClosed, AStat reason]"
  by (induction n w ch xs rule: work_log.induct) auto

lemma work_log_quiet: "lease_ids as = [] \<Longrightarrow> list_all (\<lambda>e. \<not> is_event ''lease_started'' e) (work_log n w ch as)"
  by (induction n w ch as rule: work_log.induct) auto

lemma wtrace_log: "wtrace oc lastid d \<Longrightarrow> (oc = Ready \<Longrightarrow> \<not> b) \<Longrightarrow> log_from (unat lastid) b (work_log n w ch d)"
proof (induction arbitrary: b ch rule: wtrace.induct)
  case (wt_turn t nx c mid reason lastid)
  have "lease_ids (ANext t nx # mid @ [AClosed, AStat reason]) = []" using wt_turn by simp
  from work_log_quiet [OF this] show ?case by (rule log_from_quiet)
qed (auto simp: unat_next)

text \<open>The events that matter to the checker are those of \<open>work\<close>; the listener logs others.\<close>

definition life :: "event \<Rightarrow> bool" where
  "life e \<longleftrightarrow> is_event ''pool_ready'' e \<or> is_event ''lease_started'' e \<or> is_event ''lease_finished'' e
     \<or> is_event ''connection_closed'' e"

lemma log_from_life: "log_from k b (filter life es) \<longleftrightarrow> log_from k b es"
proof (induction es arbitrary: k b)
  case (Cons e es)
  show ?case
  proof (cases "life e")
    case True
    with Cons show ?thesis by simp
  next
    case False
    then have "\<not> is_event ''lease_started'' e" "\<not> is_event ''pool_ready'' e" "\<not> is_event ''lease_finished'' e"
      by (simp_all add: life_def)
    with Cons False show ?thesis by simp
  qed
qed simp

lemma log_from_take: "log_from k b es \<Longrightarrow> log_from k b (take m es)"
  using log_from_append [of k b "take m es" "drop m es"] by simp

lemma starts_ok_conns: "(\<And>i. log_from 0 False (conn_events n i evs)) \<Longrightarrow> starts_ok n evs"
proof (induction evs rule: rev_induct)
  case (snoc e evs)
  let ?i = "num ''connection_id'' e"
  have "log_from 0 False (conn_events n i evs)" for i
    using snoc.prems [of i] by (simp add: conn_events_snoc log_from_append)
  then have "starts_ok n evs" by (rule snoc.IH)
  moreover have "start_ok n evs e" if "of_service n e" "is_event ''lease_started'' e"
    using snoc.prems [of ?i] that
    by (simp add: conn_events_snoc log_from_append barrier_after_False start_ok_def Let_def)
  ultimately show ?case by (simp add: starts_ok_snoc)
qed simp

lemma work_log_ok:
  assumes "work X J relay turns oc c = Some (c', tr)" and "list_all turn_ok turns"
  shows "log_from 0 False (work_log n w False tr)"
proof -
  obtain d where d: "tr = AIdle oc # d" "wtrace oc 0 d" using work_trace [OF assms] by blast
  have "log_from (unat (0 :: u64)) False (work_log n w False d)" by (rule wtrace_log [OF d(2)]) simp
  then show ?thesis using d(1) by simp
qed

text \<open>
  C36. The server keeps the discipline its smoke test checks. Let the log be any interleaving of the
  logs of the connections of a service, each cut off anywhere: then the reuse check never reports a
  lease that started before the previous one passed the release barrier, nor a lease ID out of
  sequence, whatever the network, the clients and the pool did.
\<close>

theorem server_log_reuse:
  assumes "\<And>i. filter life (conn_events n i evs) \<noteq> [] \<Longrightarrow>
    \<exists>(X :: 's duplex) J relay turns oc c c' tr m. work X J relay turns oc c = Some (c', tr) \<and> list_all turn_ok turns
      \<and> filter life (conn_events n i evs) = take m (work_log n i False tr)"
  shows "assertReuse n k logs x evs \<notin> {Some (BeforeBarrier i l), Some (LeaseIdAfter i l a)}"
proof -
  have "log_from 0 False (conn_events n i evs)" for i
  proof (cases "filter life (conn_events n i evs) = []")
    case True
    then show ?thesis using log_from_life [of 0 False "conn_events n i evs"] by simp
  next
    case False
    from assms [OF False] obtain X :: "'s duplex" and J relay turns oc c c' tr m where
      "work X J relay turns oc c = Some (c', tr)" "list_all turn_ok turns"
      "filter life (conn_events n i evs) = take m (work_log n i False tr)" by metis
    then have "log_from 0 False (filter life (conn_events n i evs))"
      using log_from_take work_log_ok by metis
    then show ?thesis by (simp add: log_from_life)
  qed
  then have "starts_ok n evs" by (rule starts_ok_conns)
  then obtain s where "reuse_loop n evs new_reuse = Inr s"
    using reuse_loop_spec [of n evs] by (cases "reuse_loop n evs new_reuse") simp_all
  then show ?thesis by (auto simp: assertReuse_def check_reuse_def split: option.splits)
qed

text \<open>The log of the worker of \<open>demo_work\<close>, on connection 3.\<close>

definition demo_log :: "event list" where
  "demo_log = work_log ''a'' 3 False [AIdle Ready, ANext (Some 4) Leased, ALease 1 True LeaseOK, ACloseTCP 4, AIdle Ready,
     ANext None Expired, AClosed, AStat ''expired'']"

theorem server_log_reuse_witness:
  "assertReuse ''a'' 1 [demo_log] EOF demo_log \<noteq> Some (LeaseIdAfter 3 1 0) \<and> length demo_log = 5"
proof -
  have c: "conn_events ''a'' i demo_log = (if i = 3 then demo_log else [])" for i
    by (simp add: demo_log_def conn_events_def)
  have f: "filter life demo_log = demo_log" by (simp add: demo_log_def life_def)
  have t: "list_all turn_ok demo_turns" by (simp add: demo_turns_def turn_ok_def)
  obtain c' where w: "work net_duplex demo_json demo_relay demo_turns Ready demo_worker
      = Some (c', [AIdle Ready, ANext (Some 4) Leased, ALease 1 True LeaseOK, ACloseTCP 4, AIdle Ready,
          ANext None Expired, AClosed, AStat ''expired''])" using demo_work by blast
  have "\<exists>(X :: net_conn duplex) J relay turns oc c c' tr m. work X J relay turns oc c = Some (c', tr) \<and> list_all turn_ok turns
      \<and> filter life (conn_events ''a'' i demo_log) = take m (work_log ''a'' i False tr)"
    if "filter life (conn_events ''a'' i demo_log) \<noteq> []" for i
  proof -
    have "i = 3" using that c [of i] by (cases "i = 3") simp_all
    then have "filter life (conn_events ''a'' i demo_log) = take 5 (work_log ''a'' i False
      [AIdle Ready, ANext (Some 4) Leased, ALease 1 True LeaseOK, ACloseTCP 4, AIdle Ready,
       ANext None Expired, AClosed, AStat ''expired''])"
      using c [of 3] f by (simp add: demo_log_def)
    with w t show ?thesis by blast
  qed
  from server_log_reuse [OF this, of 1 "[demo_log]" EOF 3 1 0] show ?thesis
    by (simp add: demo_log_def)
qed

end
