(* ===== verification/Smoke_Metrics.thy ===== *)
theory Smoke_Metrics
  imports Metrics_Props
begin

text \<open>
  How the smoke test reads metrics, \<^verbatim>\<open>internal/cmd/smoke/metrics.go\<close>: the parser of the Prometheus
  text format, the lookup of a series, the wait for expectations, and the check that the endpoint
  refuses everybody else. HTTP is outside, and so is \<^verbatim>\<open>strconv.ParseFloat\<close>, the parameter \<open>pf\<close>.
\<close>

subsection \<open>Lines and labels\<close>

record 'v sample =
  sp_name :: string
  sp_labels :: "string \<rightharpoonup> string"
  sp_value :: 'v

definition nl :: char where "nl = CHR 0x0A"
definition cr :: char where "cr = CHR 0x0D"
definition quot :: char where "quot = CHR 0x22"
definition bslash :: char where "bslash = CHR 0x5C"

definition label_start :: "char \<Rightarrow> bool" where
  "label_start c = (let n = of_char c :: nat in 65 \<le> n \<and> n \<le> 90 \<or> 97 \<le> n \<and> n \<le> 122 \<or> n = 95)"

definition label_char :: "char \<Rightarrow> bool" where
  "label_char c = (label_start c \<or> (let n = of_char c :: nat in 48 \<le> n \<and> n \<le> 57))"

text \<open>
  The regular expression \<open>labelPair\<close>. Its parts cannot match in two ways: a name is followed by a
  character that is not one of a name, and a value by its first quote that is not escaped.
\<close>

fun str_body :: "string \<Rightarrow> (string \<times> string) option" where
  "str_body [] = None"
| "str_body (c # r) =
     (if c = quot then Some ([], r)
      else if c = bslash
      then (case r of
              [] \<Rightarrow> None
            | d # r' \<Rightarrow> if d = nl then None else map_option (\<lambda>(v, t). (c # d # v, t)) (str_body r'))
      else map_option (\<lambda>(v, t). (c # v, t)) (str_body r))"

definition pair_at :: "string \<Rightarrow> ((string \<times> string) \<times> string) option" where
  "pair_at s =
     (let k = takeWhile label_char s; r = drop (length k) s
      in if k = [] \<or> \<not> label_start (hd k) \<or> take 2 r \<noteq> [CHR ''='', quot] then None
         else map_option (\<lambda>(v, t). ((k, v), t)) (str_body (drop 2 r)))"

lemma str_body_shorter: "str_body s = Some (v, t) \<Longrightarrow> length t < length s"
proof (induction s arbitrary: v rule: str_body.induct)
  case (2 c r)
  then show ?case by (auto split: if_splits list.splits) fastforce+
qed simp

lemma pair_at_shorter: "pair_at s = Some (kv, t) \<Longrightarrow> length t < length s"
  by (auto simp: pair_at_def Let_def split: if_splits dest!: str_body_shorter)

text \<open>\<open>FindAllStringSubmatch\<close>: the leftmost matches, one after the other.\<close>

function find_pairs :: "string \<Rightarrow> (string \<times> string) list" where
  "find_pairs s =
     (case pair_at s of
        Some (kv, t) \<Rightarrow> kv # find_pairs t
      | None \<Rightarrow> (case s of [] \<Rightarrow> [] | c # r \<Rightarrow> find_pairs r))"
  by pat_completeness auto
termination
  by (relation "measure length") (auto dest: pair_at_shorter)

declare find_pairs.simps [simp del]

definition labels_of :: "(string \<times> string) list \<Rightarrow> string \<rightharpoonup> string" where
  "labels_of kvs = foldl (\<lambda>m (k, v). m(k \<mapsto> v)) Map.empty kvs"

definition parse_sample :: "(string \<Rightarrow> error + 'v) \<Rightarrow> string \<Rightarrow> error + 'v sample" where
  "parse_sample pf line =
     (if CHR '' '' \<notin> set line then Inl (Errmsg ''malformed line'')
      else let vt = rev (takeWhile (\<lambda>c. c \<noteq> CHR '' '') (rev line));
               series = take (length line - length vt - 1) line;
               name = takeWhile (\<lambda>c. c \<noteq> CHR ''{'') series
           in case pf vt of
                Inl _ \<Rightarrow> Inl (Errmsg ''malformed value'')
              | Inr v \<Rightarrow> Inr \<lparr>sp_name = name,
                  sp_labels = (if CHR ''{'' \<in> set series then labels_of (find_pairs (drop (length name) series)) else Map.empty),
                  sp_value = v\<rparr>)"

text \<open>
  The scanner hands out lines without their end of line (and a carriage return before it) and gives
  up on a line that does not fit its buffer of \<open>2 ^ 20\<close> bytes.
\<close>

definition ErrTooLong :: error where "ErrTooLong = Errmsg ''bufio.Scanner: token too long''"

definition drop_cr :: "string \<Rightarrow> string" where
  "drop_cr s = (if s \<noteq> [] \<and> last s = cr then butlast s else s)"

function parse_lines :: "(string \<Rightarrow> error + 'v) \<Rightarrow> string \<Rightarrow> 'v sample list \<Rightarrow> 'v sample list \<times> error option" where
  "parse_lines pf body out =
     (if body = [] then (out, None)
      else let raw = takeWhile (\<lambda>c. c \<noteq> nl) body; line = drop_cr raw; rest = drop (Suc (length raw)) body
           in if length raw \<ge> 2 ^ 20 then (out, Some ErrTooLong)
              else if line = [] \<or> hd line = CHR ''#'' then parse_lines pf rest out
              else case parse_sample pf line of
                     Inl e \<Rightarrow> ([], Some e)
                   | Inr s \<Rightarrow> parse_lines pf rest (out @ [s]))"
  by pat_completeness auto
termination
  by (relation "measure (\<lambda>(pf, body, out). length body)") auto

declare parse_lines.simps [simp del]

definition parseExposition :: "(string \<Rightarrow> error + 'v) \<Rightarrow> string \<Rightarrow> 'v sample list \<times> error option" where
  "parseExposition pf body = parse_lines pf body []"

subsection \<open>Looking up a series\<close>

text \<open>\<^verbatim>\<open>strings.Cut(kv, "=")\<close>; a missing label reads as the empty string.\<close>

definition cut_label :: "string \<Rightarrow> string \<times> string" where
  "cut_label kv = (let k = takeWhile (\<lambda>c. c \<noteq> CHR ''='') kv in (k, drop (Suc (length k)) kv))"

definition has_label :: "'v sample \<Rightarrow> string \<Rightarrow> bool" where
  "has_label s kv = (case cut_label kv of (k, v) \<Rightarrow> (case sp_labels s k of Some x \<Rightarrow> x | None \<Rightarrow> []) = v)"

fun sample_value :: "'v sample list \<Rightarrow> string \<Rightarrow> string list \<Rightarrow> 'v option" where
  "sample_value [] name labels = None"
| "sample_value (s # ss) name labels =
     (if sp_name s \<noteq> name then sample_value ss name labels
      else if list_all (has_label s) labels then Some (sp_value s)
      else sample_value ss name labels)"

subsection \<open>Expectations\<close>

record 'v expectation =
  ex_name :: string
  ex_labels :: "string list"
  ex_check :: "'v \<Rightarrow> bool"

definition expect :: "string \<Rightarrow> 'v::linorder \<Rightarrow> string list \<Rightarrow> 'v expectation" where
  "expect name bound labels = \<lparr>ex_name = name, ex_labels = labels, ex_check = (\<lambda>v. v \<ge> bound)\<rparr>"

text \<open>What \<open>awaitMetrics\<close> reports of a scrape: the names of the failed expectations.\<close>

definition failed :: "'v sample list \<Rightarrow> 'v expectation list \<Rightarrow> string list" where
  "failed samples exps =
     map ex_name (filter (\<lambda>x. case sample_value samples (ex_name x) (ex_labels x) of
        None \<Rightarrow> True | Some v \<Rightarrow> \<not> ex_check x v) exps)"

text \<open>
  \<open>awaitMetrics\<close> over its scrapes; with each, whether the deadline has passed. \<open>None\<close>: still waiting.
\<close>

fun awaitMetrics ::
    "((error + 'v sample list) \<times> bool) list \<Rightarrow> 'v expectation list \<Rightarrow> ((error + string list) + 'v sample list) option" where
  "awaitMetrics [] exps = None"
| "awaitMetrics ((Inl e, late) # ts) exps = Some (Inl (Inl e))"
| "awaitMetrics ((Inr samples, late) # ts) exps =
     (if failed samples exps = [] then Some (Inr samples)
      else if late then Some (Inl (Inr (failed samples exps)))
      else awaitMetrics ts exps)"

subsection \<open>Refused requests\<close>

text \<open>
  A response: status, whether the challenge header asks for Basic credentials, whether the content
  type begins with \<^verbatim>\<open>text/plain\<close>, and the body.
\<close>

record http_response =
  hr_code :: nat
  hr_challenge :: bool
  hr_text :: bool
  hr_body :: string

fun contains :: "string \<Rightarrow> string \<Rightarrow> bool" where
  "contains p [] = (p = [])"
| "contains p (c # s) = (take (length p) (c # s) = p \<or> contains p s)"

text \<open>What the handler sends for each of its answers; \<open>metrics\<close> is the rendered scrape.\<close>

fun respond :: "string \<Rightarrow> scrape_response \<Rightarrow> http_response" where
  "respond metrics Unauthorized = \<lparr>hr_code = 401, hr_challenge = True, hr_text = True, hr_body = ''unauthorized'' @ [nl]\<rparr>"
| "respond metrics NotFound = \<lparr>hr_code = 404, hr_challenge = False, hr_text = True, hr_body = ''404 page not found'' @ [nl]\<rparr>"
| "respond metrics MethodNotAllowed = \<lparr>hr_code = 405, hr_challenge = False, hr_text = True, hr_body = ''method not allowed'' @ [nl]\<rparr>"
| "respond metrics ServeMetrics = \<lparr>hr_code = 200, hr_challenge = False, hr_text = True, hr_body = metrics\<rparr>"

text \<open>\<open>request\<close> sends credentials unless both are empty.\<close>

definition scene_request :: "string \<Rightarrow> string \<Rightarrow> string \<Rightarrow> string \<Rightarrow> scrape_request" where
  "scene_request method path user pass =
     \<lparr>q_creds = (if user \<noteq> [] \<or> pass \<noteq> [] then Some (user, pass) else None), q_path = path, q_method = method\<rparr>"

definition scrape ::
    "(string \<Rightarrow> error + 'v) \<Rightarrow> (scrape_request \<Rightarrow> error + http_response) \<Rightarrow> string \<Rightarrow> string \<Rightarrow> error + 'v sample list" where
  "scrape pf http user pass =
     (case http (scene_request ''GET'' ''/metrics'' user pass) of
        Inl e \<Rightarrow> Inl e
      | Inr r \<Rightarrow>
          if hr_code r \<noteq> 200 then Inl (Errmsg ''scrape status'')
          else if \<not> hr_text r then Inl (Errmsg ''scrape content type'')
          else (case parseExposition pf (hr_body r) of (samples, None) \<Rightarrow> Inr samples | (_, Some e) \<Rightarrow> Inl e))"

definition auth_cases :: "string \<Rightarrow> string \<Rightarrow> (string \<times> scrape_request \<times> nat) list" where
  "auth_cases user pass =
     [(''no credentials'', scene_request ''GET'' ''/metrics'' [] [], 401),
      (''wrong password'', scene_request ''GET'' ''/metrics'' user (pass @ ''x''), 401),
      (''wrong user'', scene_request ''GET'' ''/metrics'' ''admin'' pass, 401),
      (''other path'', scene_request ''GET'' ''/'' user pass, 404),
      (''post'', scene_request ''POST'' ''/metrics'' user pass, 405)]"

fun check_cases :: "(scrape_request \<Rightarrow> error + http_response) \<Rightarrow> (string \<times> scrape_request \<times> nat) list \<Rightarrow> error option" where
  "check_cases http [] = None"
| "check_cases http ((name, q, code) # cs) =
     (case http q of
        Inl e \<Rightarrow> Some (Wrap (name @ '': '') e)
      | Inr r \<Rightarrow>
          if hr_code r \<noteq> code then Some (Errmsg (name @ '': status''))
          else if code = 401 \<and> \<not> hr_challenge r then Some (Errmsg (name @ '': missing WWW-Authenticate''))
          else if contains ''compress_proxy_'' (hr_body r) then Some (Errmsg (name @ '': metrics in refused response''))
          else check_cases http cs)"

definition checkAuth :: "(scrape_request \<Rightarrow> error + http_response) \<Rightarrow> string \<Rightarrow> string \<Rightarrow> error option" where
  "checkAuth http user pass = check_cases http (auth_cases user pass)"

subsection \<open>The text format\<close>

text \<open>
  A line of the format: a comment or blank line, or a series with its labels and the text of its
  value. Label values are as written, with any escapes.
\<close>

datatype exposition = Comment string | Series string "(string \<times> string) list" string

fun labels_text :: "(string \<times> string) list \<Rightarrow> string" where
  "labels_text [] = ''}''"
| "labels_text ((k, v) # ps) = k @ [CHR ''='', quot] @ v @ [quot] @ (if ps = [] then [] else '','') @ labels_text ps"

fun line_text :: "exposition \<Rightarrow> string" where
  "line_text (Comment s) = s"
| "line_text (Series n ps vt) = n @ (if ps = [] then [] else CHR ''{'' # labels_text ps) @ CHR '' '' # vt"

definition label_ok :: "string \<times> string \<Rightarrow> bool" where
  "label_ok kv = (case kv of (k, v) \<Rightarrow> k \<noteq> [] \<and> label_start (hd k) \<and> list_all label_char k
     \<and> list_all (\<lambda>c. c \<noteq> quot \<and> c \<noteq> bslash \<and> c \<noteq> nl) v)"

fun line_ok :: "(string \<Rightarrow> error + 'v) \<Rightarrow> exposition \<Rightarrow> bool" where
  "line_ok pf (Comment s) = (length s < 2 ^ 20 \<and> nl \<notin> set s \<and> cr \<notin> set s \<and> (s = [] \<or> hd s = CHR ''#''))"
| "line_ok pf (Series n ps vt) =
     (length (line_text (Series n ps vt)) < 2 ^ 20 \<and> n \<noteq> [] \<and> list_all label_char n
      \<and> list_all label_ok ps \<and> list_all (\<lambda>c. c \<notin> {CHR '' '', nl, cr}) vt \<and> \<not> isl (pf vt))"

fun line_sample :: "(string \<Rightarrow> error + 'v) \<Rightarrow> exposition \<Rightarrow> 'v sample option" where
  "line_sample pf (Comment s) = None"
| "line_sample pf (Series n ps vt) = Some \<lparr>sp_name = n, sp_labels = labels_of ps, sp_value = projr (pf vt)\<rparr>"

lemma str_body_plain:
  "list_all (\<lambda>c. c \<noteq> quot \<and> c \<noteq> bslash \<and> c \<noteq> nl) v \<Longrightarrow> str_body (v @ quot # t) = Some (v, t)"
  by (induction v) auto

lemma takeWhile_all: "list_all P k \<Longrightarrow> \<not> P c \<Longrightarrow> takeWhile P (k @ c # r) = k"
  by (induction k) auto

lemma special_chars: "\<not> label_char (CHR ''='')" "\<not> label_char (CHR '','')" "\<not> label_char (CHR ''{'')" "\<not> label_char (CHR ''}'')"
  "\<not> label_char (CHR '' '')" "\<not> label_char (CHR ''#'')" "\<not> label_char nl" "\<not> label_char cr"
  by (simp_all add: label_char_def label_start_def nl_def cr_def)

lemma pair_at_text:
  assumes "label_ok (k, v)"
  shows "pair_at (k @ CHR ''='' # quot # v @ quot # t) = Some ((k, v), t)"
proof -
  have "list_all label_char k" "k \<noteq> []" "label_start (hd k)" "list_all (\<lambda>c. c \<noteq> quot \<and> c \<noteq> bslash \<and> c \<noteq> nl) v"
    using assms by (simp_all add: label_ok_def)
  then show ?thesis
    using takeWhile_all [of label_char k "CHR ''=''" "quot # v @ quot # t"] special_chars(1) str_body_plain [of v t]
    by (simp add: pair_at_def Let_def)
qed

lemma find_pairs_skip: "\<not> label_char c \<Longrightarrow> find_pairs (c # s) = find_pairs s"
  by (subst find_pairs.simps) (simp add: pair_at_def)

lemma find_pairs_Nil [simp]: "find_pairs [] = []"
  by (simp add: find_pairs.simps pair_at_def)

lemma find_pairs_text: "list_all label_ok ps \<Longrightarrow> find_pairs (labels_text ps) = ps"
proof (induction ps)
  case Nil
  then show ?case using find_pairs_skip [OF special_chars(4), of "[]"] by simp
next
  case (Cons p ps)
  obtain k v where p: "p = (k, v)" by fastforce
  have ok: "label_ok (k, v)" using Cons.prems p by simp
  let ?t = "(if ps = [] then [] else '','') @ labels_text ps"
  have "find_pairs ?t = find_pairs (labels_text ps)" using find_pairs_skip [OF special_chars(2)] by simp
  moreover have "find_pairs (labels_text (p # ps)) = (k, v) # find_pairs ?t"
    using pair_at_text [OF ok, of ?t] by (subst find_pairs.simps) (simp add: p)
  ultimately show ?case using Cons p by simp
qed

lemma parse_series:
  assumes "line_ok pf (Series n ps vt)"
  shows "parse_sample pf (line_text (Series n ps vt)) = Inr (the (line_sample pf (Series n ps vt)))"
proof -
  let ?ser = "n @ (if ps = [] then [] else CHR ''{'' # labels_text ps)"
  have n: "list_all label_char n" "list_all label_ok ps" "list_all (\<lambda>c. c \<noteq> CHR '' '') vt" "\<not> isl (pf vt)"
    using assms by (auto simp: list_all_iff)
  have "CHR ''{'' \<notin> set n" using n(1) special_chars(3) by (auto simp: list_all_iff)
  moreover have "takeWhile (\<lambda>c. c \<noteq> CHR ''{'') ?ser = n"
    using calculation by (auto simp: takeWhile_eq_all_conv takeWhile_append)
  moreover have "takeWhile (\<lambda>c. c \<noteq> CHR '' '') (rev vt @ CHR '' '' # rev ?ser) = rev vt"
    using n(3) by (intro takeWhile_all) (simp_all add: list_all_iff)
  moreover obtain v where "pf vt = Inr v" using n(4) by (cases "pf vt") auto
  moreover have "find_pairs (CHR ''{'' # labels_text ps) = ps"
    using find_pairs_skip [OF special_chars(3)] find_pairs_text [OF n(2)] by simp
  ultimately show ?thesis by (auto simp: parse_sample_def Let_def labels_of_def)
qed

lemma nl_specials: "nl \<noteq> CHR ''=''" "nl \<noteq> CHR '',''" "nl \<noteq> CHR ''{''" "nl \<noteq> CHR ''}''" "nl \<noteq> CHR '' ''" "nl \<noteq> quot"
  "cr \<noteq> CHR '' ''"
  by (simp_all add: nl_def quot_def cr_def)

lemma labels_text_nl: "list_all label_ok ps \<Longrightarrow> nl \<notin> set (labels_text ps)"
proof (induction ps)
  case (Cons p ps)
  obtain k v where p: "p = (k, v)" by fastforce
  have "list_all label_char k" "list_all (\<lambda>c. c \<noteq> quot \<and> c \<noteq> bslash \<and> c \<noteq> nl) v"
    using Cons.prems p by (simp_all add: label_ok_def)
  then have "nl \<notin> set k" "nl \<notin> set v" using special_chars(7) by (auto simp: list_all_iff)
  with Cons p nl_specials show ?case by simp
qed (simp add: nl_specials)

lemma line_shape:
  assumes "line_ok pf l"
  shows "nl \<notin> set (line_text l)" and "drop_cr (line_text l) = line_text l" and "length (line_text l) < 2 ^ 20"
proof -
  have "nl \<notin> set (line_text l) \<and> drop_cr (line_text l) = line_text l \<and> length (line_text l) < 2 ^ 20"
  proof (cases l)
    case (Comment s)
    with assms have "cr \<notin> set s" by simp
    then have "s \<noteq> [] \<Longrightarrow> last s \<noteq> cr" using last_in_set [of s] by metis
    with Comment assms show ?thesis by (auto simp: drop_cr_def)
  next
    case (Series n ps vt)
    with assms have n: "list_all label_char n" "list_all label_ok ps" "nl \<notin> set vt" "cr \<notin> set vt"
      by (simp_all add: list_all_iff) blast+
    have "nl \<notin> set n" using n(1) special_chars(7) by (auto simp: list_all_iff)
    then have "nl \<notin> set (line_text l)" using Series n labels_text_nl [OF n(2)] nl_specials by simp
    moreover have "last (line_text l) \<noteq> cr"
    proof (cases "vt = []")
      case True
      then show ?thesis using Series nl_specials by simp
    next
      case False
      have "last vt \<noteq> cr" using n(4) last_in_set [OF False] by metis
      then show ?thesis using Series False by simp
    qed
    ultimately show ?thesis using assms Series by (simp add: drop_cr_def)
  qed
  then show "nl \<notin> set (line_text l)" "drop_cr (line_text l) = line_text l" "length (line_text l) < 2 ^ 20" by simp_all
qed

lemma series_start: "line_ok pf (Series n ps vt) \<Longrightarrow> line_text (Series n ps vt) \<noteq> [] \<and> hd (line_text (Series n ps vt)) \<noteq> CHR ''#''"
  using special_chars(6) by (cases n) auto

lemma parse_lines_text:
  "list_all (line_ok pf) ls \<Longrightarrow>
    parse_lines pf (concat (map (\<lambda>l. line_text l @ [nl]) ls)) out = (out @ List.map_filter (line_sample pf) ls, None)"
proof (induction ls arbitrary: out)
  case Nil
  then show ?case by (simp add: parse_lines.simps List.map_filter_def)
next
  case (Cons l ls)
  let ?rest = "concat (map (\<lambda>l. line_text l @ [nl]) ls)"
  have ok: "line_ok pf l" and ih: "\<And>out. parse_lines pf ?rest out = (out @ List.map_filter (line_sample pf) ls, None)"
    using Cons by simp_all
  note sh = line_shape [OF ok]
  have tw: "takeWhile (\<lambda>c. c \<noteq> nl) (line_text l @ nl # ?rest) = line_text l"
    using sh(1) by (intro takeWhile_all) (auto simp: list_all_iff)
  have dr: "drop (Suc (length (line_text l))) (line_text l @ nl # ?rest) = ?rest" by simp
  have step: "parse_lines pf (concat (map (\<lambda>l. line_text l @ [nl]) (l # ls))) out
      = (if line_text l = [] \<or> hd (line_text l) = CHR ''#'' then parse_lines pf ?rest out
         else case parse_sample pf (line_text l) of Inl e \<Rightarrow> ([], Some e) | Inr s \<Rightarrow> parse_lines pf ?rest (out @ [s]))"
    using sh tw dr by (subst parse_lines.simps) (simp add: Let_def del: drop_append cong: sum.case_cong)
  show ?case
  proof (cases l)
    case (Comment s)
    then show ?thesis using ok step ih by (auto simp: List.map_filter_simps)
  next
    case (Series n ps vt)
    have o: "line_ok pf (Series n ps vt)" using ok unfolding Series .
    show ?thesis using step ih parse_series [OF o] series_start [OF o]
      by (simp add: Series List.map_filter_simps del: line_text.simps line_ok.simps)
  qed
qed

text \<open>
  Reading the text format of the metrics back. A body of well-formed lines - comments, and series
  with any labels and any value text that the float parser accepts - is read as exactly the samples
  it lists, in order, with their names, labels and values; label values may contain commas, braces,
  equals signs and spaces.
\<close>

theorem parse_exposition:
  assumes "list_all (line_ok pf) ls"
  shows "parseExposition pf (concat (map (\<lambda>l. line_text l @ [nl]) ls)) = (List.map_filter (line_sample pf) ls, None)"
  using parse_lines_text [OF assms, of "[]"] by (simp add: parseExposition_def)

definition demo_pf :: "string \<Rightarrow> error + nat" where
  "demo_pf s = (if s = ''7'' then Inr 7 else Inl EOF)"

theorem parse_exposition_witness:
  "parseExposition demo_pf (concat (map (\<lambda>l. line_text l @ [nl])
      [Comment ''# HELP x'', Series ''x'' [(''k'', ''a, {b}=c''), (''l'', [])] ''7'', Series ''y'' [] ''7'']))
    = ([\<lparr>sp_name = ''x'', sp_labels = [''k'' \<mapsto> ''a, {b}=c'', ''l'' \<mapsto> []], sp_value = 7\<rparr>,
        \<lparr>sp_name = ''y'', sp_labels = Map.empty, sp_value = 7\<rparr>], None)"
proof -
  have "list_all (line_ok demo_pf)
      [Comment ''# HELP x'', Series ''x'' [(''k'', ''a, {b}=c''), (''l'', [])] ''7'', Series ''y'' [] ''7'']"
    by (simp add: demo_pf_def label_ok_def label_char_def label_start_def nl_def cr_def quot_def bslash_def)
  from parse_exposition [OF this] show ?thesis
    by (simp add: List.map_filter_simps labels_of_def demo_pf_def)
qed

subsection \<open>What the smoke test reads of a scrape\<close>

definition fam_name :: "family \<Rightarrow> string" where
  "fam_name f = ''compress_proxy_'' @ fst (newDescs f)"

definition metric_pairs :: "metric \<Rightarrow> (string \<times> string) list" where
  "metric_pairs m = zip (snd (newDescs (mt_family m))) (mt_labels m)"

text \<open>A line shows a metric, with its labels in any order.\<close>

definition line_shows :: "(string \<Rightarrow> error + 'v) \<Rightarrow> (int \<Rightarrow> 'v) \<Rightarrow> metric \<Rightarrow> exposition \<Rightarrow> bool" where
  "line_shows pf val m l \<longleftrightarrow> (\<exists>ps vt. l = Series (fam_name (mt_family m)) ps vt
     \<and> distinct (map fst ps) \<and> set ps = set (metric_pairs m) \<and> pf vt = Inr (val (mt_value m)))"

text \<open>
  What the library writes for the metrics it collected, among other series: each in a line of its
  own, in any order, and nothing else under the names of the exporter.
\<close>

definition exposes :: "(string \<Rightarrow> error + 'v) \<Rightarrow> (int \<Rightarrow> 'v) \<Rightarrow> metric list \<Rightarrow> exposition list \<Rightarrow> bool" where
  "exposes pf val ms ls \<longleftrightarrow> list_all (line_ok pf) ls
     \<and> (\<forall>m \<in> set ms. \<exists>l \<in> set ls. line_shows pf val m l)
     \<and> (\<forall>n ps vt. Series n ps vt \<in> set ls \<longrightarrow> n \<in> range fam_name \<longrightarrow> (\<exists>m \<in> set ms. line_shows pf val m (Series n ps vt)))"

lemma fam_name_inj: "fam_name f = fam_name g \<Longrightarrow> f = g"
  by (cases f; cases g; simp add: fam_name_def)

lemma label_names: "distinct (snd (newDescs f))" "k \<in> set (snd (newDescs f)) \<Longrightarrow> CHR ''='' \<notin> set k"
  by (cases f; auto)+

lemma labels_of_distinct: "distinct (map fst ps) \<Longrightarrow> labels_of ps = map_of ps"
proof -
  have "foldl (\<lambda>m (k, v). m(k \<mapsto> v)) m ps k = (case map_of ps k of Some v \<Rightarrow> Some v | None \<Rightarrow> m k)"
    if "distinct (map fst ps)" for m :: "string \<rightharpoonup> string" and k
    using that
  proof (induction ps arbitrary: m)
    case (Cons p ps)
    obtain a b where p: "p = (a, b)" by fastforce
    have "map_of ps a = None" using Cons.prems p by (simp add: map_of_eq_None_iff)
    then show ?case using Cons p by (auto split: option.splits)
  qed simp
  moreover assume "distinct (map fst ps)"
  ultimately show ?thesis by (simp add: labels_of_def fun_eq_iff split: option.split)
qed

text \<open>A lookup finds the value that all matching samples share.\<close>

lemma sample_value_shared:
  assumes "s \<in> set ss" and "sp_name s = n" and "list_all (has_label s) ls"
    and "\<And>s'. s' \<in> set ss \<Longrightarrow> sp_name s' = n \<Longrightarrow> list_all (has_label s') ls \<Longrightarrow> sp_value s' = v"
  shows "sample_value ss n ls = Some v"
  using assms by (induction ss) auto

lemma cut_label_pair: "CHR ''='' \<notin> set k \<Longrightarrow> cut_label (k @ CHR ''='' # v) = (k, v)"
proof -
  assume "CHR ''='' \<notin> set k"
  then have "takeWhile (\<lambda>c. c \<noteq> CHR ''='') (k @ CHR ''='' # v) = k"
    by (intro takeWhile_all) (auto simp: list_all_iff)
  then show ?thesis by (simp add: cut_label_def Let_def)
qed

definition label_args :: "(string \<times> string) list \<Rightarrow> string list" where
  "label_args ps = map (\<lambda>(k, v). k @ CHR ''='' # v) ps"

lemma has_labels:
  assumes "distinct (map fst ps)" and "set ps = set qs" and "list_all (\<lambda>(k, v). CHR ''='' \<notin> set k) as"
    and "fst ` set as \<subseteq> fst ` set ps" and "sp_labels s = labels_of ps"
  shows "list_all (has_label s) (label_args as) \<longleftrightarrow> set as \<subseteq> set qs"
proof -
  have "has_label s (k @ CHR ''='' # v) \<longleftrightarrow> (k, v) \<in> set qs" if "(k, v) \<in> set as" for k v
  proof -
    have "k \<in> fst ` set as" using that by force
    with assms(4) have k: "CHR ''='' \<notin> set k" "k \<in> fst ` set ps" using that assms(3) by (auto simp: list_all_iff)
    then obtain w where w: "map_of ps k = Some w" using weak_map_of_SomeI by fastforce
    then have "sp_labels s k = Some w" using assms(1,5) by (simp add: labels_of_distinct)
    then have "has_label s (k @ CHR ''='' # v) \<longleftrightarrow> w = v" using cut_label_pair [OF k(1)] by (simp add: has_label_def)
    then show ?thesis using w assms(1,2) by (metis map_of_eq_Some_iff option.inject)
  qed
  then show ?thesis by (auto simp: label_args_def list_all_iff)
qed

text \<open>
  C37. The smoke test reads what the exporter counts. Take any scrape of a server or client and any
  body in the text format that shows its metrics, each on a line of its own, in any order and with
  labels in any order, among other series: then looking up a metric by its name and labels gives its
  value and no other's.
\<close>

theorem scrape_shows_metrics:
  assumes "distinct (map fst (x_services x))"
    and "x_role x = ''server'' \<Longrightarrow> \<forall>n \<in> fst ` set (x_services x). x_pools x n \<noteq> None"
    and "Collect_metrics info goversion x = Some ms" and "exposes pf val ms ls" and "m \<in> set ms"
    and "http (scene_request ''GET'' ''/metrics'' user pass)
      = Inr \<lparr>hr_code = 200, hr_challenge = False, hr_text = True, hr_body = concat (map (\<lambda>l. line_text l @ [nl]) ls)\<rparr>"
  shows "\<exists>samples. scrape pf http user pass = Inr samples
    \<and> sample_value samples (fam_name (mt_family m)) (label_args (metric_pairs m)) = Some (val (mt_value m))"
proof -
  let ?ss = "List.map_filter (line_sample pf) ls"
  have ok: "list_all (line_ok pf) ls" using assms(4) by (simp add: exposes_def)
  have sc: "scrape pf http user pass = Inr ?ss"
    using parse_lines_text [OF ok, of "[]"] assms(6) by (simp add: scrape_def parseExposition_def)
  have c: "distinct (map mkey ms)" "\<forall>m \<in> set ms. fits x m"
    using Collect_ok [OF assms(1,2), of info goversion] assms(3) by auto
  have keys: "map fst (metric_pairs m') = snd (newDescs (mt_family m'))" if "m' \<in> set ms" for m'
    using c(2) that by (simp add: fits_def metric_pairs_def map_fst_zip_take)
  have noeq: "list_all (\<lambda>(k, v). CHR ''='' \<notin> set k) (metric_pairs m)"
    using label_names(2) by (auto simp: metric_pairs_def list_all_iff dest: set_zip_leftD)
  have same: "set (metric_pairs m) \<subseteq> set (metric_pairs m') \<longleftrightarrow> m' = m" if "m' \<in> set ms" "mt_family m' = mt_family m" for m'
  proof
    assume sub: "set (metric_pairs m) \<subseteq> set (metric_pairs m')"
    have "length (mt_labels m) = length (mt_labels m')" using c(2) that assms(5) by (simp add: fits_def)
    moreover have "mt_labels m ! j = mt_labels m' ! j" if j: "j < length (mt_labels m)" for j
    proof -
      let ?ks = "snd (newDescs (mt_family m))"
      have l: "length ?ks = length (mt_labels m)" "length ?ks = length (mt_labels m')"
        using c(2) assms(5) \<open>m' \<in> set ms\<close> \<open>mt_family m' = mt_family m\<close> by (simp_all add: fits_def)
      have "(?ks ! j, mt_labels m ! j) \<in> set (metric_pairs m)" using j l by (auto simp: metric_pairs_def set_zip)
      then have "(?ks ! j, mt_labels m ! j) \<in> set (zip ?ks (mt_labels m'))"
        using sub \<open>mt_family m' = mt_family m\<close> by (auto simp: metric_pairs_def)
      then obtain i where "i < length ?ks" "?ks ! i = ?ks ! j" "mt_labels m ! j = mt_labels m' ! i"
        by (auto simp: set_zip)
      then show ?thesis using label_names(1) [of "mt_family m"] j l by (simp add: nth_eq_iff_index_eq)
    qed
    ultimately have "mt_labels m = mt_labels m'" by (intro nth_equalityI) auto
    then have "mkey m' = mkey m" using that(2) by (simp add: mkey_def)
    then show "m' = m" using c(1) that(1) assms(5) inj_onD [of mkey "set ms" m' m] by (simp add: distinct_map)
  qed simp
  have match: "list_all (has_label s) (label_args (metric_pairs m)) \<longleftrightarrow> m' = m"
    if s: "s = \<lparr>sp_name = fam_name (mt_family m'), sp_labels = labels_of ps, sp_value = v\<rparr>"
      and ps: "distinct (map fst ps)" "set ps = set (metric_pairs m')"
      and m': "m' \<in> set ms" "mt_family m' = mt_family m" for s m' ps v
  proof -
    have "fst ` set (metric_pairs m) = fst ` set ps"
      using keys [OF m'(1)] keys [OF assms(5)] m'(2) ps(2) by (metis list.set_map)
    then show ?thesis
      using has_labels [OF ps noeq, of s] same [OF m'] s by simp
  qed
  obtain ps vt where l: "Series (fam_name (mt_family m)) ps vt \<in> set ls" "distinct (map fst ps)"
    "set ps = set (metric_pairs m)" "pf vt = Inr (val (mt_value m))"
    using assms(4,5) by (auto simp: exposes_def line_shows_def)
  let ?s = "\<lparr>sp_name = fam_name (mt_family m), sp_labels = labels_of ps, sp_value = val (mt_value m)\<rparr>"
  have "sample_value ?ss (fam_name (mt_family m)) (label_args (metric_pairs m)) = Some (val (mt_value m))"
  proof (rule sample_value_shared [of ?s])
    show "?s \<in> set ?ss" using l(1,4) by (force simp: List.map_filter_def)
    show "list_all (has_label ?s) (label_args (metric_pairs m))" using match [OF refl l(2,3) assms(5)] by simp
    fix s' assume s': "s' \<in> set ?ss" "sp_name s' = fam_name (mt_family m)" "list_all (has_label s') (label_args (metric_pairs m))"
    then obtain l' where l': "l' \<in> set ls" "line_sample pf l' = Some s'" by (auto simp: List.map_filter_def)
    obtain qs wt where "l' = Series (fam_name (mt_family m)) qs wt"
      and q2: "s' = \<lparr>sp_name = fam_name (mt_family m), sp_labels = labels_of qs, sp_value = projr (pf wt)\<rparr>"
      using s'(2) l'(2) by (cases l') auto
    with l'(1) have q: "Series (fam_name (mt_family m)) qs wt \<in> set ls" by simp
    then obtain m' where m': "m' \<in> set ms" "line_shows pf val m' (Series (fam_name (mt_family m)) qs wt)"
      using assms(4) unfolding exposes_def by (metis rangeI)
    then have f: "mt_family m' = mt_family m" and w: "pf wt = Inr (val (mt_value m'))" "distinct (map fst qs)"
      "set qs = set (metric_pairs m')" using fam_name_inj by (auto simp: line_shows_def)
    have "m' = m" using match [OF _ w(2,3) m'(1) f, of s' "projr (pf wt)"] q2 s'(3) f by simp
    then show "sp_value s' = val (mt_value m)" using q2 w(1) by simp
  qed simp
  with sc show ?thesis by blast
qed

text \<open>A client with one service and three idle connections; numbers are written in unary.\<close>

definition echo_client :: exporter where
  "echo_client = NewClient [''echo''] [''echo'' \<mapsto> \<lparr>sl_Connecting = 0, sl_Idle = 3, sl_Busy = 0\<rparr>]"

definition unary_line :: "metric \<Rightarrow> exposition" where
  "unary_line m = Series (fam_name (mt_family m)) (metric_pairs m) (replicate (nat (mt_value m)) (CHR ''i''))"

definition unary :: "string \<Rightarrow> error + int" where
  "unary s = Inr (int (length s))"

lemma unary_shows:
  assumes "length (mt_labels m) = length (snd (newDescs (mt_family m)))" and "mt_value m \<ge> 0"
  shows "line_shows unary (\<lambda>v. v) m (unary_line m)"
  using assms label_names(1) [of "mt_family m"]
  by (simp add: line_shows_def unary_line_def unary_def metric_pairs_def map_fst_zip_take)

lemma unary_exposes:
  assumes "\<And>m. m \<in> set ms \<Longrightarrow> line_ok unary (unary_line m) \<and> fits x m \<and> mt_value m \<ge> 0"
  shows "exposes unary (\<lambda>v. v) ms (map unary_line ms)"
proof -
  have "line_shows unary (\<lambda>v. v) m (unary_line m)" if "m \<in> set ms" for m
    using unary_shows [of m] assms [OF that] by (simp add: fits_def)
  then show ?thesis using assms by (fastforce simp: exposes_def list_all_iff)
qed

theorem scrape_shows_metrics_witness:
  "\<exists>body samples. scrape unary (\<lambda>_. Inr \<lparr>hr_code = 200, hr_challenge = False, hr_text = True, hr_body = body\<rparr>) ''u'' ''p'' = Inr samples
    \<and> sample_value samples ''compress_proxy_tunnel_connections'' [''service=echo'', ''state=idle''] = Some 3"
proof -
  have d: "distinct (map fst (x_services echo_client))" "x_role echo_client = ''client''"
    by (simp_all add: echo_client_def NewClient_def newExporter_def)
  obtain ms where ms: "Collect_metrics (Some ''v'') ''go'' echo_client = Some ms" "\<forall>m \<in> set ms. fits echo_client m"
    using Collect_ok [OF d(1)] d(2) by fastforce
  let ?m = "gauge F_conns 3 [''echo'', ''idle'']"
  have e: "ms = gauge F_build 1 [''client'', ''v'', ''go''] # collect_common True ''echo'' (zero_stats\<lparr>s_duration := Some []\<rparr>)
      @ collect_client ''echo'' (zero_stats\<lparr>s_duration := Some []\<rparr>) \<lparr>sl_Connecting = 0, sl_Idle = 3, sl_Busy = 0\<rparr>"
    using ms(1) by (simp add: Collect_metrics_def buildVersion_def echo_client_def NewClient_def newExporter_def collect_service_def)
  have r: "replicate 3 (CHR ''i'') = ''iii''" by (simp add: numeral_eq_Suc)
  have "list_all (\<lambda>m. line_ok unary (unary_line m) \<and> mt_value m \<ge> 0) ms"
    unfolding e by (simp add: scrape_defs upt_small zero_stats_def counter_def gauge_def unary_line_def unary_def metric_pairs_def
      fam_name_def label_ok_def label_char_def label_start_def nl_def cr_def quot_def bslash_def r)
  then have x: "exposes unary (\<lambda>v. v) ms (map unary_line ms)"
    using ms(2) by (intro unary_exposes [of ms echo_client]) (simp add: list_all_iff)
  have "?m \<in> set ms" unfolding e by (simp add: collect_client_def)
  from scrape_shows_metrics [OF d(1) _ ms(1) x this refl, of "''u''" "''p''"] d(2)
  show ?thesis by (auto simp: gauge_def fam_name_def metric_pairs_def label_args_def)
qed

subsection \<open>Refusals\<close>

lemma no_metrics_in_refusal: "r \<noteq> ServeMetrics \<Longrightarrow> \<not> contains ''compress_proxy_'' (hr_body (respond metrics r))"
  by (cases r) (simp_all add: nl_def)

text \<open>
  The endpoint passes the smoke test's check of refusals: for every configured name and password
  that the loader accepts, other than the name \<open>admin\<close> the test guesses with, the handler refuses a
  request without credentials, with a longer password or with another name by a challenge, another
  path and a POST by their own status, and shows no metric in any of the answers. The hash must not
  collide on what is compared.
\<close>

theorem handler_passes_checkAuth:
  assumes "UsernameHash cfg = sha user" and "PasswordHash cfg = sha pass"
    and "sha (pass @ ''x'') \<noteq> sha pass" and "sha ''admin'' \<noteq> sha user" and "sha [] \<noteq> sha user" and "user \<noteq> []"
  shows "checkAuth (\<lambda>q. Inr (respond metrics (Handler sha cfg q))) user pass = None"
proof -
  note h = no_metrics_in_refusal [of _ metrics]
  show ?thesis
    using assms h [of Unauthorized] h [of NotFound] h [of MethodNotAllowed]
    by (simp add: checkAuth_def auth_cases_def scene_request_def Handler_def del: respond.simps) simp
qed

theorem handler_passes_checkAuth_witness:
  "checkAuth (\<lambda>q. Inr (respond ''m'' (Handler (map of_char) \<lparr>m_BindAddr = ''a'',
     UsernameHash = map of_char ''prom'', PasswordHash = map of_char ''p''\<rparr> q))) ''prom'' ''p'' = None"
  by (rule handler_passes_checkAuth) simp_all

end
