(* ===== verification/Smoke_Clients.thy ===== *)
theory Smoke_Clients
  imports Session
begin

text \<open>
  The two ends the smoke test puts around the tunnel: the local services (\<open>fixture.handle\<close> in
  \<^verbatim>\<open>harness.go\<close>) and the visitors \<open>echo\<close>, \<open>digest\<close> and \<open>echoHold\<close> of \<^verbatim>\<open>scenarios.go\<close>, each over a
  connection as in \<open>Net_IO\<close>; and a visit through both workers and the relay. SHA-256 is the parameter
  \<open>sha\<close>.
\<close>

subsection \<open>Reading to the end\<close>

text \<open>\<^verbatim>\<open>io.ReadAll\<close> (and \<^verbatim>\<open>io.Copy\<close> into a hash or \<^verbatim>\<open>io.Discard\<close>): \<open>got\<close> is what has been read.\<close>

partial_function (option) read_all :: "'s reader \<Rightarrow> 's \<Rightarrow> bytes \<Rightarrow> ('s \<times> bytes \<times> error option) option" where
  "read_all rd s got =
     (case rd s 512 of (s', bs, e) \<Rightarrow>
        (case e of
           None \<Rightarrow> read_all rd s' (got @ bs)
         | Some x \<Rightarrow> Some (s', got @ bs, if x = EOF then None else Some x)))"

declare read_all.simps [code]

text \<open>\<^verbatim>\<open>io.Copy(c, c)\<close>: everything read is written back.\<close>

partial_function (option) copy_back :: "net_conn \<Rightarrow> (net_conn \<times> error option) option" where
  "copy_back c =
     (case net_read c 32768 of (c1, bs, e) \<Rightarrow>
        (case (if bs = [] then (c1, 0, None) else net_write c1 bs) of (c2, n, w) \<Rightarrow>
           (case w of
              Some x \<Rightarrow> Some (c2, Some x)
            | None \<Rightarrow>
                if n \<noteq> length bs then Some (c2, Some ErrShortWrite)
                else (case e of
                        None \<Rightarrow> copy_back c2
                      | Some x \<Rightarrow> Some (c2, if x = EOF then None else Some x)))))"

declare copy_back.simps [code]

context byte_reader
begin

lemma read_all_content:
  "\<exists>s'. read_all rd s got = Some (s', got @ content s, if ending s = EOF then None else Some (ending s))"
proof (induction "length (content s)" arbitrary: s got rule: less_induct)
  case less
  obtain s1 bs e where r: "rd s 512 = (s1, bs, e)" by (cases "rd s 512") auto
  show ?case
  proof (cases e)
    case None
    with r rd_ok [of s 512] rd_progress [of s 512] have c: "content s = bs @ content s1" "ending s1 = ending s" "bs \<noteq> []"
      by auto
    then have "length (content s1) < length (content s)" by (cases bs) auto
    from less.hyps [OF this, of "got @ bs"] c r None show ?thesis by (subst read_all.simps) auto
  next
    case (Some x)
    with r rd_err [of s 512] show ?thesis by (subst read_all.simps) auto
  qed
qed

end

lemma copy_back_content:
  "steady c \<Longrightarrow> net_ending c = EOF \<Longrightarrow> \<exists>c'. copy_back c = Some (c', None) \<and> tx c' = tx c @ net_content c"
proof (induction "length (net_content c)" arbitrary: c rule: less_induct)
  case less
  obtain c1 bs e where r: "net_read c 32768 = (c1, bs, e)" by (cases "net_read c 32768") auto
  show ?case
  proof (cases e)
    case None
    with r net_rd.rd_ok [of c 32768] net_rd.rd_progress [of c 32768]
    have c: "net_content c = bs @ net_content c1" "net_ending c1 = net_ending c" "bs \<noteq> []" by auto
    have s1: "steady c1" "tx c1 = tx c" using r less.prems(1) net_read_tx [OF r]
      by (auto simp: steady_def net_read_def split: if_splits list.splits)
    let ?c2 = "c1\<lparr>tx := tx c1 @ bs\<rparr>"
    have w: "net_write c1 bs = (c1\<lparr>tx := tx c1 @ bs, tx_plan := []\<rparr>, length bs, None)"
      using s1(1) by (simp add: net_write_def steady_def)
    have p: "c1\<lparr>tx := tx c1 @ bs, tx_plan := []\<rparr> = ?c2" using s1(1) by (simp add: steady_def)
    have n: "net_content ?c2 = net_content c1" "net_ending ?c2 = net_ending c1" "steady ?c2"
      using s1(1) by (simp_all add: net_content_def net_ending_def steady_def)
    have "length (net_content ?c2) < length (net_content c)" using c n by (cases bs) auto
    from less.hyps [OF this n(3)] n c less.prems(2) obtain c' where
      "copy_back ?c2 = Some (c', None)" "tx c' = tx ?c2 @ net_content c1" by auto
    then show ?thesis using r None w p c s1 by (subst copy_back.simps) auto
  next
    case (Some x)
    with r net_rd.rd_err [of c 32768] less.prems net_read_tx [OF r] show ?thesis
      by (subst copy_back.simps) auto
  qed
qed

lemma read_all_steady: "read_all net_read c got = Some (c', bs, e) \<Longrightarrow> steady c \<Longrightarrow> steady c' \<and> tx c' = tx c"
proof (induction "length (net_content c)" arbitrary: c got rule: less_induct)
  case less
  obtain c1 b x where r: "net_read c 512 = (c1, b, x)" by (cases "net_read c 512") auto
  have s: "steady c1" "tx c1 = tx c" using r less.prems(2) net_read_tx [OF r]
    by (auto simp: steady_def net_read_def split: if_splits list.splits)
  show ?case
  proof (cases x)
    case None
    with r net_rd.rd_ok [of c 512] net_rd.rd_progress [of c 512] have c: "net_content c = b @ net_content c1" "b \<noteq> []"
      by auto
    then have "length (net_content c1) < length (net_content c)" by (cases b) auto
    moreover have "read_all net_read c1 (got @ b) = Some (c', bs, e)"
      using less.prems(1) r None by (subst (asm) read_all.simps) simp
    ultimately show ?thesis using less.hyps s by simp
  next
    case (Some y)
    with less.prems(1) r s show ?thesis by (subst (asm) read_all.simps) simp
  qed
qed

subsection \<open>The local services\<close>

definition ascii :: "string \<Rightarrow> bytes" where
  "ascii s = map of_char s"

definition hex_digit :: "nat \<Rightarrow> byte" where
  "hex_digit n = of_nat (if n < 10 then 48 + n else 87 + n)"

text \<open>\<^verbatim>\<open>%x\<close> of a byte string.\<close>

definition hex_bytes :: "bytes \<Rightarrow> bytes" where
  "hex_bytes bs = concat (map (\<lambda>b. [hex_digit (unat b div 16), hex_digit (unat b mod 16)]) bs)"

definition digest_line :: "(bytes \<Rightarrow> bytes) \<Rightarrow> bytes \<Rightarrow> bytes" where
  "digest_line sha data = ascii ''SHA256:'' @ hex_bytes (sha data) @ [10]"

text \<open>
  One accepted connection; \<open>released\<close>: a held connection is released, rather than stopped. Errors of
  the writes are ignored, and the connection is closed at the end.
\<close>

definition fixture_handle :: "(bytes \<Rightarrow> bytes) \<Rightarrow> string \<Rightarrow> bool \<Rightarrow> net_conn \<Rightarrow> net_conn option" where
  "fixture_handle sha mode released c =
     map_option net_close
       (if mode = ''echo'' then map_option fst (copy_back c)
        else if mode = ''digest''
        then (case read_all net_read c [] of
                None \<Rightarrow> None
              | Some (c1, data, e) \<Rightarrow> Some (fst (net_write c1 (digest_line sha data))))
        else if mode = ''hold'' then Some (if released then fst (net_write c (ascii ''h'')) else c)
        else if mode = ''tagA'' \<or> mode = ''tagB''
        then map_option fst (read_all net_read (fst (net_write c (ascii mode))) [])
        else Some c)"

subsection \<open>The visitors\<close>

text \<open>
  \<open>conn\<close>: what \<open>connect\<close> returned. The result is the connection, closed, and the error; \<open>None\<close> means
  that a read does not return.
\<close>

definition smoke_echo :: "error + net_conn \<Rightarrow> bytes \<Rightarrow> (net_conn option \<times> error option) option" where
  "smoke_echo conn data =
     (case conn of
        Inl e \<Rightarrow> Some (None, Some e)
      | Inr c \<Rightarrow>
          (case net_write c data of
             (c1, n, Some e) \<Rightarrow> Some (Some (net_close c1), Some e)
           | (c1, n, None) \<Rightarrow>
               (case read_full net_read c1 (length data) [] of
                  None \<Rightarrow> None
                | Some (c2, b, Some e) \<Rightarrow> Some (Some (net_close c2), Some e)
                | Some (c2, b, None) \<Rightarrow>
                    if b \<noteq> data then Some (Some (net_close c2), Some (Errmsg ''echo mismatch''))
                    else map_option (\<lambda>(c3, rest, e). (Some (net_close c3), e)) (read_all net_read c2 []))))"

text \<open>\<open>cw\<close>: what \<^verbatim>\<open>CloseWrite\<close> returns.\<close>

definition smoke_digest :: "(bytes \<Rightarrow> bytes) \<Rightarrow> error option \<Rightarrow> error + net_conn \<Rightarrow> bytes \<Rightarrow> (net_conn option \<times> error option) option" where
  "smoke_digest sha cw conn data =
     (case conn of
        Inl e \<Rightarrow> Some (None, Some e)
      | Inr c \<Rightarrow>
          (case (if length data > 0 then net_write c data else (c, 0, None)) of
             (c1, n, Some e) \<Rightarrow> Some (Some (net_close c1), Some e)
           | (c1, n, None) \<Rightarrow>
               (case cw of
                  Some e \<Rightarrow> Some (Some (net_close c1), Some e)
                | None \<Rightarrow>
                    map_option (\<lambda>(c2, b, e). (Some (net_close c2),
                        case e of Some x \<Rightarrow> Some x
                        | None \<Rightarrow> if b \<noteq> digest_line sha data then Some (Errmsg ''SHA mismatch'') else None))
                      (read_all net_read c1 []))))"

text \<open>\<open>arrival\<close>: what waiting for the arrival at the service returned.\<close>

definition smoke_hold :: "error + net_conn \<Rightarrow> error option \<Rightarrow> (net_conn option \<times> error option) option" where
  "smoke_hold conn arrival =
     (case conn of
        Inl e \<Rightarrow> Some (None, Some e)
      | Inr c \<Rightarrow>
          (case arrival of
             Some e \<Rightarrow> Some (Some (net_close c), Some e)
           | None \<Rightarrow>
               (case read_full net_read c 1 [] of
                  None \<Rightarrow> None
                | Some (c1, b, Some e) \<Rightarrow> Some (Some (net_close c1), Some e)
                | Some (c1, b, None) \<Rightarrow>
                    map_option (\<lambda>(c2, rest, e). (Some (net_close c2), e)) (read_all net_read c1 []))))"

text \<open>What the visitors accept: exactly the right answer, ended in order.\<close>

lemma smoke_digest_exact:
  assumes "steady c" and "smoke_digest sha None (Inr c) data = Some (c', e)"
  shows "e = None \<longleftrightarrow> net_content c = digest_line sha data \<and> net_ending c = EOF"
proof -
  let ?c = "if length data > 0 then c\<lparr>tx := tx c @ data, tx_plan := []\<rparr> else c"
  have n: "net_content ?c = net_content c" "net_ending ?c = net_ending c" by (simp_all add: net_content_def net_ending_def)
  have w: "(if length data > 0 then net_write c data else (c, 0, None)) = (?c, if length data > 0 then length data else 0, None)"
    using assms(1) by (simp add: net_write_def steady_def)
  obtain s where r: "read_all net_read ?c []
      = Some (s, [] @ net_content ?c, if net_ending ?c = EOF then None else Some (net_ending ?c))"
    using net_rd.read_all_content by blast
  show ?thesis using assms(2) unfolding smoke_digest_def sum.case w prod.case option.case r n
    by (auto split: if_splits)
qed

lemma smoke_digest_passes:
  assumes "steady c" and "net_content c = digest_line sha data" and "net_ending c = EOF"
  shows "\<exists>c'. smoke_digest sha None (Inr c) data = Some (c', None)"
proof -
  let ?c = "if length data > 0 then c\<lparr>tx := tx c @ data, tx_plan := []\<rparr> else c"
  have n: "net_content ?c = net_content c" "net_ending ?c = net_ending c" by (simp_all add: net_content_def net_ending_def)
  have w: "(if length data > 0 then net_write c data else (c, 0, None)) = (?c, if length data > 0 then length data else 0, None)"
    using assms(1) by (simp add: net_write_def steady_def)
  obtain s where r: "read_all net_read ?c []
      = Some (s, [] @ net_content ?c, if net_ending ?c = EOF then None else Some (net_ending ?c))"
    using net_rd.read_all_content by blast
  show ?thesis using assms(2,3) unfolding smoke_digest_def sum.case w prod.case option.case r n by simp
qed

lemma smoke_echo_passes:
  assumes "steady c" and "net_content c = data" and "net_ending c = EOF"
  shows "\<exists>c'. smoke_echo (Inr c) data = Some (c', None)"
proof -
  let ?c = "c\<lparr>tx := tx c @ data, tx_plan := []\<rparr>"
  have "net_content ?c = net_content c" "net_ending ?c = net_ending c" by (simp_all add: net_content_def net_ending_def)
  with assms have n: "net_content ?c = data" "net_ending ?c = EOF" by simp_all
  have w: "net_write c data = (?c, length data, None)" using assms(1) by (simp add: net_write_def steady_def)
  obtain s where s: "read_full net_read ?c (length data) [] = Some (s, data, None)" "net_content s = []" "net_ending s = EOF"
    using net_rd.read_full_some [of "length data" ?c] n by auto
  obtain s1 where "read_all net_read s [] = Some (s1, [], None)" using net_rd.read_all_content [of s "[]"] s by auto
  then show ?thesis using w s by (simp add: smoke_echo_def)
qed

text \<open>What the services answer.\<close>

lemma digest_fixture:
  assumes "steady g"
  shows "\<exists>g'. fixture_handle sha ''digest'' released g = Some g' \<and> tx g' = tx g @ digest_line sha (net_content g)"
proof -
  obtain s where r: "read_all net_read g [] = Some (s, [] @ net_content g, if net_ending g = EOF then None else Some (net_ending g))"
    using net_rd.read_all_content by blast
  then have "steady s \<and> tx s = tx g" using assms read_all_steady by blast
  then show ?thesis using r by (simp add: fixture_handle_def net_write_def steady_def net_close_def)
qed

lemma echo_fixture:
  assumes "steady g" and "net_ending g = EOF"
  shows "\<exists>g'. fixture_handle sha ''echo'' released g = Some g' \<and> tx g' = tx g @ net_content g"
  using copy_back_content [OF assms] by (auto simp: fixture_handle_def net_close_def)

subsection \<open>A visit through the tunnel\<close>

text \<open>
  C35. A visitor is served end to end. Let a visitor send any data and half-close, and let the service
  be the digest service of the smoke test. For any lossless codec there is one byte string for each
  direction of the tunnel such that, if each side of the tunnel reads what the other sends, in any
  segments: both leases end well; the service, reading what the client wrote to it in any segments,
  sends exactly what the client's socket was assumed to deliver; and the visitor, reading what the
  server wrote to it in any segments, finds the digest of its data and nothing else.
\<close>

theorem visitor_served:
  assumes "codec_ok Z z0 D d0" and "\<And>c. closew c = None \<or> closew c = Some ENOTCONN"
    and "net_content t1 = data" and "net_ending t1 = EOF" and "steady t1" and "tx t1 = []"
    and "net_content t2 = digest_line sha data" and "net_ending t2 = EOF" and "steady t2" and "tx t2 = []"
  shows "\<exists>SA SB. \<forall>a b ra rb g v.
    steady a \<and> steady b \<and> net_content a = SB @ ra \<and> net_content b = SA @ rb \<longrightarrow>
    (\<exists>l b1 b2 t tr.
      lease net_duplex J (relay_run Z D z0 d0 closew up_a) cid a t1 = Some (l, None, LeaseOK)
      \<and> read_frame net_read b = Some (b1, Inr (plain_frame OPEN cid))
      \<and> client_lease net_duplex J (relay_run Z D z0 d0 closew up_b)
          \<lparr>ctn_ctx = False, ctn_dial = Inr t2, ctn_surplus = False\<rparr> cid b1 = Some (b2, Some t, tr @ [KLease cid LeaseOK], None)
      \<and> tx (ls_conn l) = tx a @ SA \<and> tx b2 = tx b @ SB
      \<and> (steady g \<longrightarrow> tx g = [] \<longrightarrow> net_content g = tx t \<longrightarrow>
          (\<exists>g'. fixture_handle sha ''digest'' released g = Some g' \<and> tx g' = net_content t2))
      \<and> (steady v \<longrightarrow> net_content v = tx (ls_tcp l) \<longrightarrow> net_ending v = EOF \<longrightarrow>
          (\<exists>v'. smoke_digest sha None (Inr v) data = Some (v', None))))"
proof -
  obtain S where S: "streams Z z0 cid t1 S" using streams_ex [OF assms(4), of Z z0 cid] by blast
  obtain S2 where S2: "streams Z z0 cid t2 S2" using streams_ex [OF assms(8), of Z z0 cid] by blast
  let ?SA = "server_bytes cid S" and ?SB = "client_bytes cid False S2"
  note both = lease_both [where closew = closew and J = J and up_a = up_a and up_b = up_b and surplus = False,
      OF assms(1,2) S S2 assms(5,9)]
  show ?thesis
  proof (rule exI [of _ ?SA], rule exI [of _ ?SB], intro allI impI, elim conjE)
    fix a b ra rb g v
    assume "steady a" "steady b" "net_content a = ?SB @ ra" "net_content b = ?SA @ rb"
    from both [OF this] obtain l b1 b2 t tr where r:
      "lease net_duplex J (relay_run Z D z0 d0 closew up_a) cid a t1 = Some (l, None, LeaseOK)"
      "read_frame net_read b = Some (b1, Inr (plain_frame OPEN cid))"
      "client_lease net_duplex J (relay_run Z D z0 d0 closew up_b)
          \<lparr>ctn_ctx = False, ctn_dial = Inr t2, ctn_surplus = False\<rparr> cid b1 = Some (b2, Some t, tr @ [KLease cid LeaseOK], None)"
      "tx (ls_conn l) = tx a @ ?SA" "tx b2 = tx b @ ?SB"
      and xx: "tx (ls_tcp l) = tx t1 @ net_content t2" "tx t = tx t2 @ net_content t1" by auto
    have x: "tx (ls_tcp l) = digest_line sha data" "tx t = data" using xx assms(3,6,7,10) by simp_all
    have "\<exists>g'. fixture_handle sha ''digest'' released g = Some g' \<and> tx g' = net_content t2"
      if "steady g" "tx g = []" "net_content g = tx t"
      using digest_fixture [OF that(1), of sha released] that x assms(7) by simp
    moreover have "\<exists>v'. smoke_digest sha None (Inr v) data = Some (v', None)"
      if "steady v" "net_content v = tx (ls_tcp l)" "net_ending v = EOF"
      using smoke_digest_passes [OF that(1) _ that(3)] that(2) x by simp
    ultimately show "\<exists>l b1 b2 t tr.
      lease net_duplex J (relay_run Z D z0 d0 closew up_a) cid a t1 = Some (l, None, LeaseOK)
      \<and> read_frame net_read b = Some (b1, Inr (plain_frame OPEN cid))
      \<and> client_lease net_duplex J (relay_run Z D z0 d0 closew up_b)
          \<lparr>ctn_ctx = False, ctn_dial = Inr t2, ctn_surplus = False\<rparr> cid b1 = Some (b2, Some t, tr @ [KLease cid LeaseOK], None)
      \<and> tx (ls_conn l) = tx a @ ?SA \<and> tx b2 = tx b @ ?SB
      \<and> (steady g \<longrightarrow> tx g = [] \<longrightarrow> net_content g = tx t \<longrightarrow>
          (\<exists>g'. fixture_handle sha ''digest'' released g = Some g' \<and> tx g' = net_content t2))
      \<and> (steady v \<longrightarrow> net_content v = tx (ls_tcp l) \<longrightarrow> net_ending v = EOF \<longrightarrow>
          (\<exists>v'. smoke_digest sha None (Inr v) data = Some (v', None)))"
      using r by (intro exI [of _ l] exI [of _ b1] exI [of _ b2] exI [of _ t] exI [of _ tr]) simp
  qed
qed

theorem visitor_served_witness:
  "\<exists>a l v v'. lease net_duplex demo_json (relay_run demo_enc demo_dec () ([], None) (\<lambda>_. None) True) 1 a demo_local
      = Some (l, None, LeaseOK)
    \<and> net_content v = tx (ls_tcp l) \<and> smoke_digest (\<lambda>q. q) None (Inr v) [1, 2, 3, 4, 5] = Some (v', None)"
proof -
  let ?t2 = "demo_local\<lparr>rx := [digest_line (\<lambda>q. q) [1, 2, 3, 4, 5]]\<rparr>"
  have t1: "net_content demo_local = [1, 2, 3, 4, 5]" "net_ending demo_local = EOF" "steady demo_local" "tx demo_local = []"
    by (simp_all add: demo_local_def net_ending_def steady_def net_content_def)
  have t2: "net_content ?t2 = digest_line (\<lambda>q. q) [1, 2, 3, 4, 5]" "net_ending ?t2 = EOF" "steady ?t2" "tx ?t2 = []"
    by (simp_all add: demo_local_def net_ending_def steady_def net_content_def)
  have cw: "\<And>c :: net_conn. (\<lambda>_. None :: error option) c = None \<or> (\<lambda>_. None) c = Some ENOTCONN" by simp
  obtain SA SB where L: "\<And>a b ra rb v. steady a \<and> steady b \<and> net_content a = SB @ ra \<and> net_content b = SA @ rb \<Longrightarrow>
      \<exists>l. lease net_duplex demo_json (relay_run demo_enc demo_dec () ([], None) (\<lambda>_. None) True) 1 a demo_local
          = Some (l, None, LeaseOK)
        \<and> (steady v \<longrightarrow> net_content v = tx (ls_tcp l) \<longrightarrow> net_ending v = EOF \<longrightarrow>
          (\<exists>v'. smoke_digest (\<lambda>q. q) None (Inr v) [1, 2, 3, 4, 5] = Some (v', None)))"
    using visitor_served [where J = demo_json and up_a = True and up_b = True and cid = 1 and released = False and sha = "\<lambda>q. q",
        OF demo_codec cw t1 t2] by - (elim exE, rule that, blast)
  have n: "net_content (demo_tunnel\<lparr>rx := xs\<rparr>) = concat xs" "steady (demo_tunnel\<lparr>rx := xs\<rparr>)" for xs
    by (simp_all add: demo_tunnel_def net_content_def steady_def)
  have m: "net_content (demo_local\<lparr>rx := [xs]\<rparr>) = xs" "steady (demo_local\<lparr>rx := [xs]\<rparr>)" "net_ending (demo_local\<lparr>rx := [xs]\<rparr>) = EOF" for xs
    by (simp_all add: demo_local_def net_content_def steady_def net_ending_def)
  let ?a = "demo_tunnel\<lparr>rx := [SB]\<rparr>" and ?b = "demo_tunnel\<lparr>rx := [SA]\<rparr>"
  have ab: "steady ?a \<and> steady ?b \<and> net_content ?a = SB @ [] \<and> net_content ?b = SA @ []" using n by simp
  from L [OF ab] obtain l where l: "lease net_duplex demo_json (relay_run demo_enc demo_dec () ([], None) (\<lambda>_. None) True) 1 ?a demo_local
      = Some (l, None, LeaseOK)" by blast
  from L [OF ab, of "demo_local\<lparr>rx := [tx (ls_tcp l)]\<rparr>"] l m show ?thesis by fastforce
qed

end
