(* ===== verification/Smoke_Script.thy ===== *)
theory Smoke_Script
  imports Complex_Main Smoke Smoke_Metrics
begin

text \<open>
  The scenes of the smoke test (\<^verbatim>\<open>scene.go\<close>, and the helpers of \<^verbatim>\<open>harness.go\<close> they use): sequential
  programs that start processes and services, and must leave none behind. A script runs in a \<open>world\<close>
  that answers every operation as it likes, depending on everything done so far; the state is the
  scene, which the code changes through a pointer, and the history of operations.
\<close>

subsection \<open>Operations and the world\<close>

text \<open>
  The history has every operation, also those whose answer the code ignores (\<open>Signalled\<close>, \<open>FixClosed\<close> and
  \<open>RemoveAll\<close>: calls of \<^verbatim>\<open>Signal\<close>, of the listener's \<^verbatim>\<open>Close\<close>, of \<^verbatim>\<open>os.RemoveAll\<close>), and records what came of an
  answer: a process was started (with its handle), its exit status was received, a service is open, a
  directory was made. \<open>Await\<close> is \<open>waitEvent\<close> with its condition on the collected events and the event;
  what a visitor does with its connection is a \<open>visit\<close> (\<open>VEcho\<close> and \<open>VDigest\<close> stand for the dialogues
  \<open>smoke_echo\<close> and \<open>smoke_digest\<close> of \<open>Smoke_Clients\<close>).
\<close>

datatype visit =
    VDeadline duration | VEcho bytes | VDigest bytes | VCloseWrite | VReadOne | VReadFull nat | VReadAll | VClose

text \<open>The fields \<open>createCertificate\<close> sets in a certificate; validity is relative to now.\<close>

record cert =
  ct_serial :: nat
  ct_name :: string
  ct_dns :: "string list"
  ct_ca :: bool
  ct_sign :: bool
  ct_serverAuth :: bool
  ct_digital :: bool
  ct_begin :: duration
  ct_end :: duration

datatype sop =
    MkdirTemp | Mkdir string | DirMade string | RemoveAll string
  | Random nat | KeyGen | EcKey | SignCert cert cert nat nat | MarshalKey nat | KeyPair string string
  | ListenAny | ReleaseAddr string | ListenAt string | FixOpen nat string | FixClosed nat
  | ActiveAt nat | Dropped nat
  | WriteFile string string | ReadFile string | RunCheck string
  | StartProc "string list" | Started nat | Signalled nat string | WaitProc nat duration | Drain nat
  | Exited nat
  | Await nat duration "event list \<Rightarrow> event \<Rightarrow> bool" | Look nat | Output nat
  | DialTo string | Visit nat visit | Arrival nat duration | Released nat
  | Pause duration | Clock | Say string | Scrape string | AuthCheck string

record world =
  w_err :: "sop list \<Rightarrow> error option"
  w_str :: "sop list \<Rightarrow> error + string"
  w_num :: "sop list \<Rightarrow> error + nat"
  w_data :: "sop list \<Rightarrow> error + bytes"
  w_done :: "sop list \<Rightarrow> error option option"
  w_drained :: "sop list \<Rightarrow> bool"
  w_active :: "sop list \<Rightarrow> nat list"
  w_evs :: "sop list \<Rightarrow> event list"
  w_time :: "sop list \<Rightarrow> duration"
  w_rounds :: "sop list \<Rightarrow> nat"
  w_keys :: "sop list \<Rightarrow> error + string \<times> string"
  w_scrapes :: "sop list \<Rightarrow> (error + rat sample list) list \<times> (error + rat sample list)"
  w_tmp :: string
  w_b64 :: "string \<Rightarrow> bytes option"
  w_quote :: "string \<Rightarrow> string"
  w_pem :: "string \<Rightarrow> string \<Rightarrow> string"
  w_text :: "error \<Rightarrow> string"

subsection \<open>Scenes\<close>

record fixture =
  fx_id :: nat
  fx_mode :: string
  fx_addr :: string

record pool_spec =
  ps_min :: nat
  ps_max :: nat
  ps_heartbeat :: string
  ps_idle :: string
  ps_idleJitter :: string
  ps_lifetime :: string
  ps_lifetimeJitter :: string

definition steady_pool :: "nat \<Rightarrow> nat \<Rightarrow> pool_spec" where
  "steady_pool mn mx = \<lparr>ps_min = mn, ps_max = mx, ps_heartbeat = ''15s'', ps_idle = ''10m'', ps_idleJitter = ''0s'',
     ps_lifetime = ''1h'', ps_lifetimeJitter = ''0s''\<rparr>"

text \<open>
  A missing process is a nil pointer. The maps \<open>fixtures\<close> and \<open>public\<close> have the same keys; they are
  lists in the order a loop visits them. Context and binary are the same everywhere and left out.
\<close>

record scene =
  sn_kind :: string
  sn_dir :: string
  sn_tunnel :: string
  sn_serverFile :: string
  sn_clientFile :: string
  sn_token :: string
  sn_public :: "(string \<times> string) list"
  sn_fixtures :: "(string \<times> fixture) list"
  sn_server :: "nat option"
  sn_client :: "nat option"
  sn_serverKey :: "string \<times> string"
  sn_clientKey :: "string \<times> string"
  sn_pool :: pool_spec
  sn_timeout :: string
  sn_serverMetrics :: string
  sn_clientMetrics :: string
  sn_metricsUser :: string
  sn_metricsPass :: string

definition empty_scene :: "string \<Rightarrow> pool_spec \<Rightarrow> string \<Rightarrow> scene" where
  "empty_scene kind pool timeout = \<lparr>sn_kind = kind, sn_dir = [], sn_tunnel = [], sn_serverFile = [], sn_clientFile = [],
     sn_token = [], sn_public = [], sn_fixtures = [], sn_server = None, sn_client = None, sn_serverKey = ([], []),
     sn_clientKey = ([], []), sn_pool = pool, sn_timeout = timeout, sn_serverMetrics = [], sn_clientMetrics = [],
     sn_metricsUser = [], sn_metricsPass = []\<rparr>"

record sstate =
  ss_scene :: scene
  ss_hist :: "sop list"

subsection \<open>Scripts\<close>

type_synonym 'a script = "world \<Rightarrow> sstate \<Rightarrow> (error + 'a) \<times> sstate"

definition sret :: "'a \<Rightarrow> 'a script" where
  "sret x w s = (Inr x, s)"

definition sfail :: "error \<Rightarrow> 'a script" where
  "sfail e w s = (Inl e, s)"

definition sbind :: "'a script \<Rightarrow> ('a \<Rightarrow> 'b script) \<Rightarrow> 'b script" where
  "sbind m k w s = (case m w s of (Inl e, t) \<Rightarrow> (Inl e, t) | (Inr x, t) \<Rightarrow> k x w t)"

abbreviation sthen :: "'a script \<Rightarrow> 'b script \<Rightarrow> 'b script" where
  "sthen m k \<equiv> sbind m (\<lambda>_. k)"

text \<open>The error as a value; an error that is passed on with a change; \<^verbatim>\<open>defer\<close>, always or on an error.\<close>

definition attempt :: "'a script \<Rightarrow> (error + 'a) script" where
  "attempt m w s = (case m w s of (r, t) \<Rightarrow> (Inr r, t))"

definition on_error :: "(error \<Rightarrow> error script) \<Rightarrow> 'a script \<Rightarrow> 'a script" where
  "on_error f m w s = (case m w s of (Inl e, t) \<Rightarrow> (case f e w t of (Inl x, u) \<Rightarrow> (Inl x, u) | (Inr x, u) \<Rightarrow> (Inl x, u))
     | r \<Rightarrow> r)"

definition deferred :: "'a script \<Rightarrow> unit script \<Rightarrow> 'a script" where
  "deferred m f w s = (case m w s of (r, t) \<Rightarrow> (r, snd (f w t)))"

definition wrapped :: "string \<Rightarrow> 'a script \<Rightarrow> 'a script" where
  "wrapped msg m = on_error (\<lambda>e. sret (Wrap msg e)) m"

fun each :: "('a \<Rightarrow> unit script) \<Rightarrow> 'a list \<Rightarrow> unit script" where
  "each f [] = sret ()"
| "each f (x # xs) = sthen (f x) (each f xs)"

text \<open>Asking the world, and writing down what came of it.\<close>

definition jot :: "sop \<Rightarrow> unit script" where
  "jot a w s = (Inr (), s\<lparr>ss_hist := ss_hist s @ [a]\<rparr>)"

definition ask :: "(world \<Rightarrow> sop list \<Rightarrow> 'a) \<Rightarrow> sop \<Rightarrow> 'a script" where
  "ask f a w s = (Inr (f w (ss_hist s @ [a])), s\<lparr>ss_hist := ss_hist s @ [a]\<rparr>)"

definition ask_sum :: "(world \<Rightarrow> sop list \<Rightarrow> error + 'a) \<Rightarrow> sop \<Rightarrow> 'a script" where
  "ask_sum f a = sbind (ask f a) (\<lambda>r. case r of Inl e \<Rightarrow> sfail e | Inr x \<Rightarrow> sret x)"

definition ask_err :: "sop \<Rightarrow> unit script" where
  "ask_err a = sbind (ask w_err a) (\<lambda>r. case r of Some e \<Rightarrow> sfail e | None \<Rightarrow> sret ())"

definition in_world :: "(world \<Rightarrow> 'a) \<Rightarrow> 'a script" where
  "in_world f w s = (Inr (f w), s)"

definition of_scene :: "(scene \<Rightarrow> 'a) \<Rightarrow> 'a script" where
  "of_scene f w s = (Inr (f (ss_scene s)), s)"

definition upd_scene :: "(scene \<Rightarrow> scene) \<Rightarrow> unit script" where
  "upd_scene f w s = (Inr (), s\<lparr>ss_scene := f (ss_scene s)\<rparr>)"

lemmas script_defs = sret_def sfail_def sbind_def attempt_def on_error_def deferred_def jot_def ask_def in_world_def
  of_scene_def upd_scene_def

subsection \<open>The harness\<close>

definition startProcess :: "string list \<Rightarrow> nat script" where
  "startProcess args = sbind (ask_sum w_num (StartProc args)) (\<lambda>p. sthen (jot (Started p)) (sret p))"

text \<open>The error of \<^verbatim>\<open>Signal\<close> is ignored.\<close>

definition signal_proc :: "nat option \<Rightarrow> string \<Rightarrow> unit script" where
  "signal_proc p sig = (case p of None \<Rightarrow> sret () | Some x \<Rightarrow> jot (Signalled x sig))"

text \<open>
  \<^verbatim>\<open>done\<close> holds the exit status once: after it was received, nothing comes any more. A process that has
  not exited by the timeout is killed, and its status is received only if it is there at once.
\<close>

definition exited :: "nat \<Rightarrow> sop list \<Rightarrow> bool" where
  "exited p h = list_ex (\<lambda>a. case a of Exited q \<Rightarrow> q = p | _ \<Rightarrow> False) h"

definition wait_proc :: "nat \<Rightarrow> duration \<Rightarrow> unit script" where
  "wait_proc p d = sbind (ask (\<lambda>w h. if exited p h then None else w_done w h) (WaitProc p d)) (\<lambda>r.
     case r of
       Some x \<Rightarrow> sthen (jot (Exited p)) (case x of None \<Rightarrow> sret () | Some e \<Rightarrow> sfail e)
     | None \<Rightarrow> sthen (signal_proc (Some p) ''KILL'')
         (sbind (ask (\<lambda>w h. w_drained w h \<and> \<not> exited p h) (Drain p)) (\<lambda>b.
         sthen (if b then jot (Exited p) else sret ())
         (sbind (ask_sum w_str (Output p)) (\<lambda>out. sfail (Errmsg (''process exit timeout: '' @ out)))))))"

definition freeAddr :: "string script" where
  "freeAddr = sbind (ask_sum w_str ListenAny) (\<lambda>a. sthen (ask_err (ReleaseAddr a)) (sret a))"

definition startFixture :: "string \<Rightarrow> string \<Rightarrow> fixture script" where
  "startFixture mode adr =
     sbind (if adr = [] then freeAddr else sret adr) (\<lambda>a.
     sbind (ask_sum w_num (ListenAt a)) (\<lambda>f.
     sthen (jot (FixOpen f mode)) (sret \<lparr>fx_id = f, fx_mode = mode, fx_addr = a\<rparr>)))"

text \<open>
  \<^verbatim>\<open>close\<close>: the listener, once (\<^verbatim>\<open>stopOnce\<close>, which is done if it was closed since it was opened), then the
  connections that are active.
\<close>

definition stop_done :: "nat \<Rightarrow> sop list \<Rightarrow> bool" where
  "stop_done f h = fold (\<lambda>a b. case a of FixOpen g m \<Rightarrow> g \<noteq> f \<and> b | FixClosed g \<Rightarrow> g = f \<or> b | _ \<Rightarrow> b) h False"

definition of_hist :: "(sop list \<Rightarrow> 'a) \<Rightarrow> 'a script" where
  "of_hist f w s = (Inr (f (ss_hist s)), s)"

definition fixture_close :: "fixture \<Rightarrow> unit script" where
  "fixture_close f =
     sthen (sbind (of_hist (stop_done (fx_id f))) (\<lambda>b. if b then sret () else jot (FixClosed (fx_id f))))
       (sbind (ask w_active (ActiveAt (fx_id f))) (each (\<lambda>c. jot (Dropped c))))"

definition fixture_next :: "fixture \<Rightarrow> duration \<Rightarrow> nat script" where
  "fixture_next f d = ask_sum w_num (Arrival (fx_id f) d)"

definition generateKey :: "(string \<times> string) script" where
  "generateKey = sbind (ask_sum w_keys KeyGen) (\<lambda>k. sbind (in_world w_b64) (\<lambda>dec.
     if map_option length (dec (fst k)) \<noteq> Some 32 \<or> map_option length (dec (snd k)) \<noteq> Some 32
     then sfail (Errmsg ''invalid keygen result'') else sret k))"

text \<open>\<open>w_pem\<close> is \<^verbatim>\<open>pem.EncodeToMemory\<close>.\<close>

definition ca_template :: cert where
  "ca_template = \<lparr>ct_serial = 1, ct_name = ''smoke CA'', ct_dns = [], ct_ca = True, ct_sign = True, ct_serverAuth = False,
     ct_digital = True, ct_begin = - hour, ct_end = hour\<rparr>"

definition leaf_template :: cert where
  "leaf_template = \<lparr>ct_serial = 2, ct_name = [], ct_dns = [''localhost''], ct_ca = False, ct_sign = False, ct_serverAuth = True,
     ct_digital = True, ct_begin = - hour, ct_end = hour\<rparr>"

definition createCertificate :: "string \<Rightarrow> unit script" where
  "createCertificate dir =
     sbind (ask_sum w_num EcKey) (\<lambda>caKey.
     sbind (ask_sum w_str (SignCert ca_template ca_template caKey caKey)) (\<lambda>caDER.
     sbind (ask_sum w_num EcKey) (\<lambda>key.
     sbind (ask_sum w_str (SignCert leaf_template ca_template key caKey)) (\<lambda>leafDER.
     sbind (ask_sum w_str (MarshalKey key)) (\<lambda>der.
     sbind (in_world w_pem) (\<lambda>pem.
     sthen (each (\<lambda>(name, data). ask_err (WriteFile (dir @ ''/'' @ name) data))
       [(''ca.crt'', pem ''CERTIFICATE'' caDER), (''server.crt'', pem ''CERTIFICATE'' leafDER),
        (''server.key'', pem ''EC PRIVATE KEY'' der)])
       (ask_err (KeyPair (pem ''CERTIFICATE'' leafDER) (pem ''EC PRIVATE KEY'' der)))))))))"

definition is_space :: "char \<Rightarrow> bool" where
  "is_space c \<longleftrightarrow> c \<in> {CHR 0x09, CHR 0x0A, CHR 0x0B, CHR 0x0C, CHR 0x0D, CHR '' ''}"

definition TrimSpace :: "string \<Rightarrow> string" where
  "TrimSpace s = rev (dropWhile is_space (rev (dropWhile is_space s)))"

definition filepath_Base :: "string \<Rightarrow> string" where
  "filepath_Base path =
     (if path = [] then ''.''
      else let b = rev (takeWhile (\<lambda>c. c \<noteq> CHR ''/'') (dropWhile (\<lambda>c. c = CHR ''/'') (rev path)))
           in if b = [] then ''/'' else b)"

text \<open>The error of the command is wrapped; the output that the code puts behind it is left out.\<close>

definition check_config :: "string \<Rightarrow> unit script" where
  "check_config path = sbind (wrapped (''check '' @ filepath_Base path @ '': '') (ask_sum w_str (RunCheck path))) (\<lambda>out.
     if TrimSpace out \<noteq> ''configuration valid'' then sfail (Errmsg (''unexpected check output: '' @ out)) else sret ())"

end
