(* ===== verification/Smoke_Scene.thy ===== *)
theory Smoke_Scene
  imports Smoke_Script
begin

text \<open>
  The scene of the smoke test, \<^verbatim>\<open>scene.go\<close>: creating it, writing its configuration, starting, stopping
  and restarting the two processes, and closing it.
\<close>

subsection \<open>Configuration files\<close>

text \<open>\<open>q\<close> is \<open>quote\<close>, the JSON encoding of a string.\<close>

definition conf_line :: "string \<Rightarrow> string \<Rightarrow> string" where
  "conf_line k v = k @ ''='' @ v @ [nl]"

definition conf_table :: "string \<Rightarrow> string" where
  "conf_table t = ''['' @ t @ '']'' @ [nl]"

definition server_text :: "(string \<Rightarrow> string) \<Rightarrow> scene \<Rightarrow> string \<Rightarrow> string" where
  "server_text q s clientPub =
     conf_table ''server'' @ conf_line ''bind_addr'' (q (sn_tunnel s)) @ conf_line ''default_token'' (q (sn_token s))
     @ conf_table ''server.transport'' @ conf_line ''type'' (q (sn_kind s))
     @ (if sn_kind s = ''noise''
        then conf_table ''server.transport.noise'' @ conf_line ''local_private_key'' (q (fst (sn_serverKey s)))
          @ conf_line ''remote_public_key'' (q clientPub)
        else conf_table ''server.transport.tls'' @ conf_line ''cert_file'' (quot # ''server.crt'' @ [quot])
          @ conf_line ''key_file'' (quot # ''server.key'' @ [quot]))
     @ conf_table ''server.pool'' @ conf_line ''max_pending'' ''64'' @ conf_line ''acquire_timeout'' (q (sn_timeout s))
     @ conf_table ''server.metrics'' @ conf_line ''bind_addr'' (q (sn_serverMetrics s))
     @ conf_line ''username'' (q (sn_metricsUser s)) @ conf_line ''password'' (q (sn_metricsPass s))
     @ concat (map (\<lambda>(name, f). conf_table (''server.services.'' @ name)
         @ conf_line ''bind_addr'' (q (case map_of (sn_public s) name of Some a \<Rightarrow> a | None \<Rightarrow> []))) (sn_fixtures s))"

definition client_text :: "(string \<Rightarrow> string) \<Rightarrow> scene \<Rightarrow> string \<Rightarrow> string \<Rightarrow> string \<Rightarrow> string" where
  "client_text q s token pin trust =
     conf_table ''client'' @ conf_line ''remote_addr'' (q (sn_tunnel s)) @ conf_line ''dial_timeout'' (quot # ''5s'' @ [quot])
     @ conf_line ''default_token'' (q token) @ conf_table ''client.transport'' @ conf_line ''type'' (q (sn_kind s))
     @ (if sn_kind s = ''noise''
        then conf_table ''client.transport.noise'' @ conf_line ''local_private_key'' (q (fst (sn_clientKey s)))
          @ conf_line ''remote_public_key'' (q pin)
        else conf_table ''client.transport.tls'' @ conf_line ''ca_file'' (q (if trust = ''ca'' then ''wrong/ca.crt'' else ''ca.crt''))
          @ conf_line ''server_name'' (q (if trust = ''hostname'' then ''wrong.local'' else ''localhost'')))
     @ conf_table ''client.pool'' @ conf_line ''min_idle'' (show_nat (ps_min (sn_pool s)))
     @ conf_line ''max_idle'' (show_nat (ps_max (sn_pool s))) @ conf_line ''heartbeat'' (q (ps_heartbeat (sn_pool s)))
     @ conf_line ''idle_timeout'' (q (ps_idle (sn_pool s))) @ conf_line ''idle_jitter'' (q (ps_idleJitter (sn_pool s)))
     @ conf_line ''max_lifetime'' (q (ps_lifetime (sn_pool s))) @ conf_line ''lifetime_jitter'' (q (ps_lifetimeJitter (sn_pool s)))
     @ conf_table ''client.metrics'' @ conf_line ''bind_addr'' (q (sn_clientMetrics s))
     @ conf_line ''username'' (q (sn_metricsUser s)) @ conf_line ''password'' (q (sn_metricsPass s))
     @ concat (map (\<lambda>(name, f). conf_table (''client.services.'' @ name) @ conf_line ''local_addr'' (q (fx_addr f))) (sn_fixtures s))"

definition writeConfigs :: "string \<Rightarrow> string \<Rightarrow> string \<Rightarrow> unit script" where
  "writeConfigs tokenOverride clientKeyOverride trustOverride =
     sbind (of_scene (\<lambda>s. s)) (\<lambda>s. sbind (in_world w_quote) (\<lambda>q.
     sbind (if sn_kind s = ''noise'' \<and> trustOverride = ''pin'' then sbind generateKey (\<lambda>k. sret (snd k))
            else sret (snd (sn_serverKey s))) (\<lambda>pin.
     sthen (ask_err (WriteFile (sn_serverFile s)
       (server_text q s (if clientKeyOverride \<noteq> [] then clientKeyOverride else snd (sn_clientKey s)))))
     (sthen (ask_err (WriteFile (sn_clientFile s)
       (client_text q s (if tokenOverride \<noteq> [] then tokenOverride else sn_token s) pin trustOverride)))
     (sthen (check_config (sn_serverFile s)) (check_config (sn_clientFile s)))))))"

subsection \<open>Creating a scene\<close>

definition put_entry :: "string \<Rightarrow> 'a \<Rightarrow> (string \<times> 'a) list \<Rightarrow> (string \<times> 'a) list" where
  "put_entry k v m = (if k \<in> fst ` set m then map (\<lambda>(a, b). (a, if a = k then v else b)) m else m @ [(k, v)])"

definition set_fixture :: "string \<Rightarrow> fixture \<Rightarrow> unit script" where
  "set_fixture name f = upd_scene (\<lambda>s. s\<lparr>sn_fixtures := put_entry name f (sn_fixtures s)\<rparr>)"

definition set_public :: "string \<Rightarrow> string \<Rightarrow> unit script" where
  "set_public name a = upd_scene (\<lambda>s. s\<lparr>sn_public := put_entry name a (sn_public s)\<rparr>)"

definition allocateAddrs :: "unit script" where
  "allocateAddrs =
     sthen (sbind freeAddr (\<lambda>a. upd_scene (\<lambda>s. s\<lparr>sn_tunnel := a\<rparr>)))
     (sthen (sbind freeAddr (\<lambda>a. upd_scene (\<lambda>s. s\<lparr>sn_serverMetrics := a\<rparr>)))
       (sbind freeAddr (\<lambda>a. upd_scene (\<lambda>s. s\<lparr>sn_clientMetrics := a\<rparr>))))"

text \<open>Processes: an assignment of a failed start leaves a nil pointer; waiting may ignore its error.\<close>

definition launch_server :: "unit script" where
  "launch_server = sbind (of_scene sn_serverFile) (\<lambda>f. sbind (attempt (startProcess [''server'', ''-c'', f])) (\<lambda>r.
     case r of Inl e \<Rightarrow> sthen (upd_scene (\<lambda>s. s\<lparr>sn_server := None\<rparr>)) (sfail e)
     | Inr p \<Rightarrow> upd_scene (\<lambda>s. s\<lparr>sn_server := Some p\<rparr>)))"

definition launch_client :: "unit script" where
  "launch_client = sbind (of_scene sn_clientFile) (\<lambda>f. sbind (attempt (startProcess [''client'', ''-c'', f])) (\<lambda>r.
     case r of Inl e \<Rightarrow> sthen (upd_scene (\<lambda>s. s\<lparr>sn_client := None\<rparr>)) (sfail e)
     | Inr p \<Rightarrow> upd_scene (\<lambda>s. s\<lparr>sn_client := Some p\<rparr>)))"

definition reap_server :: "duration \<Rightarrow> unit script" where
  "reap_server d = sbind (of_scene sn_server) (\<lambda>p. case p of None \<Rightarrow> sret ()
     | Some x \<Rightarrow> sthen (attempt (wait_proc x d)) (upd_scene (\<lambda>s. s\<lparr>sn_server := None\<rparr>)))"

definition reap_client :: "duration \<Rightarrow> unit script" where
  "reap_client d = sbind (of_scene sn_client) (\<lambda>p. case p of None \<Rightarrow> sret ()
     | Some x \<Rightarrow> sthen (attempt (wait_proc x d)) (upd_scene (\<lambda>s. s\<lparr>sn_client := None\<rparr>)))"

text \<open>Using a nil process is a nil dereference.\<close>

definition with_server :: "(nat \<Rightarrow> 'a script) \<Rightarrow> 'a script" where
  "with_server k = sbind (of_scene sn_server) (\<lambda>p. case p of None \<Rightarrow> sfail (Errmsg ''nil process'') | Some x \<Rightarrow> k x)"

definition with_client :: "(nat \<Rightarrow> 'a script) \<Rightarrow> 'a script" where
  "with_client k = sbind (of_scene sn_client) (\<lambda>p. case p of None \<Rightarrow> sfail (Errmsg ''nil process'') | Some x \<Rightarrow> k x)"

text \<open>\<^verbatim>\<open>close\<close>: both processes are asked to stop before either is waited for; the directory goes last, and
  an error of \<^verbatim>\<open>os.RemoveAll\<close> is ignored.\<close>

definition close_services :: "unit script" where
  "close_services = sbind (of_scene sn_fixtures) (each (\<lambda>(name, f). fixture_close f))"

definition scene_close :: "unit script" where
  "scene_close =
     sthen (sbind (of_scene sn_client) (\<lambda>p. signal_proc p ''TERM''))
     (sthen (sbind (of_scene sn_server) (\<lambda>p. signal_proc p ''TERM''))
     (sthen close_services
     (sthen (reap_client (32 * second))
     (sthen (reap_server (32 * second))
       (sbind (of_scene sn_dir) (\<lambda>d. if d \<noteq> [] then jot (RemoveAll d) else sret ()))))))"

definition new_services :: "(string \<times> string) list \<Rightarrow> unit script" where
  "new_services modes = each (\<lambda>(name, mode). sbind (startFixture mode []) (\<lambda>f. sthen (set_fixture name f)
     (sbind freeAddr (set_public name)))) modes"

definition newScene :: "string \<Rightarrow> pool_spec \<Rightarrow> string \<Rightarrow> (string \<times> string) list \<Rightarrow> unit script" where
  "newScene kind pool timeout modes =
     sthen (upd_scene (\<lambda>_. empty_scene kind pool timeout))
     (sbind (in_world w_tmp) (\<lambda>tmp. sbind (ask_sum w_str MkdirTemp) (\<lambda>x.
      let dir = tmp @ ''/compress-proxy-smoke-'' @ x in
     sthen (jot (DirMade dir))
     (sthen (upd_scene (\<lambda>s. s\<lparr>sn_dir := dir\<rparr>))
     (on_error (\<lambda>e. sthen scene_close (sret e))
       (sthen (new_services modes)
       (sthen allocateAddrs
       (sbind (ask_sum w_str (Random 24)) (\<lambda>password.
       sthen (upd_scene (\<lambda>s. s\<lparr>sn_metricsUser := ''prom'', sn_metricsPass := password\<rparr>))
       (sbind generateKey (\<lambda>k1. sthen (upd_scene (\<lambda>s. s\<lparr>sn_serverKey := k1\<rparr>))
       (sbind generateKey (\<lambda>k2. sthen (upd_scene (\<lambda>s. s\<lparr>sn_clientKey := k2\<rparr>))
       (sbind (ask_sum w_str (Random 48)) (\<lambda>token.
       sthen (upd_scene (\<lambda>s. s\<lparr>sn_token := token\<rparr>))
       (sthen (if kind = ''wss'' then createCertificate dir else sret ())
       (sthen (upd_scene (\<lambda>s. s\<lparr>sn_serverFile := dir @ ''/server.toml'', sn_clientFile := dir @ ''/client.toml''\<rparr>))
         (writeConfigs [] [] []))))))))))))))))))"

subsection \<open>Starting\<close>

definition listening :: "string \<Rightarrow> event list \<Rightarrow> event \<Rightarrow> bool" where
  "listening n evs e \<longleftrightarrow> is_event ''server_listening'' e \<and> of_service n e"

definition ready_of :: "string \<Rightarrow> event list \<Rightarrow> event \<Rightarrow> bool" where
  "ready_of n evs e \<longleftrightarrow> is_event ''pool_ready'' e \<and> of_service n e"

definition startOnce :: "unit script" where
  "startOnce =
     sthen launch_server
     (sbind (of_scene (\<lambda>s. map fst (sn_fixtures s))) (\<lambda>names.
     sthen (each (\<lambda>n. with_server (\<lambda>p. ask_err (Await p (4 * second) (listening n)))) names)
     (sthen launch_client
       (each (\<lambda>n. on_error
           (\<lambda>e. with_client (\<lambda>c. sbind (ask_sum w_str (Output c)) (\<lambda>out. sbind (in_world w_text) (\<lambda>tx.
              sret (Errmsg (tx e @ ''; client stderr: '' @ out))))))
           (with_server (\<lambda>p. ask_err (Await p (5 * second) (ready_of n))))) names))))"

text \<open>What \<open>start\<close> does before another attempt, and its three attempts; \<open>n\<close> of them are left.\<close>

definition renew_service :: "string \<times> fixture \<Rightarrow> unit script" where
  "renew_service x = (case x of (name, f) \<Rightarrow>
     sthen (fixture_close f) (sbind (startFixture (fx_mode f) []) (\<lambda>next. sthen (set_fixture name next)
       (sbind freeAddr (set_public name)))))"

definition renew_scene :: "unit script" where
  "renew_scene =
     sthen (reap_server second)
     (sthen (sbind (of_scene sn_fixtures) (each renew_service))
     (sthen (reap_client second)
     (sthen allocateAddrs (writeConfigs [] [] []))))"

fun start_attempts :: "nat \<Rightarrow> unit script" where
  "start_attempts 0 = sfail (Errmsg ''port allocation failed'')"
| "start_attempts (Suc n) =
     sbind (attempt startOnce) (\<lambda>r. case r of
       Inr _ \<Rightarrow> sret ()
     | Inl e \<Rightarrow> sbind (in_world w_text) (\<lambda>tx.
         if \<not> contains ''address already in use'' (tx e) \<or> n = 0 then sfail e
         else sthen renew_scene (start_attempts n)))"

definition scene_start :: "unit script" where
  "scene_start = start_attempts 3"

subsection \<open>Stopping and restarting\<close>

definition any_ready :: "event list \<Rightarrow> event \<Rightarrow> bool" where
  "any_ready evs e \<longleftrightarrow> is_event ''pool_ready'' e"

definition restartServer :: "unit script" where
  "restartServer = sthen launch_server (with_server (\<lambda>p. ask_err (Await p (60 * second) any_ready)))"

definition stopClient :: "unit script" where
  "stopClient =
     sthen (with_client (\<lambda>c. sthen (jot (Signalled c ''TERM'')) (sthen (wait_proc c (5 * second))
       (upd_scene (\<lambda>s. s\<lparr>sn_client := None\<rparr>)))))
     (with_server (\<lambda>p. ask_err (Await p (5 * second) (\<lambda>evs e. open_conns evs = {}))))"

fun ready_counts :: "nat \<Rightarrow> string list \<Rightarrow> (string \<times> nat) list script" where
  "ready_counts p [] = sret []"
| "ready_counts p (n # ns) = sbind (ask w_evs (Look p)) (\<lambda>evs. sbind (ready_counts p ns) (\<lambda>r. sret ((n, readyCount n evs) # r)))"

definition restartClient :: "unit script" where
  "restartClient = sbind (of_scene (\<lambda>s. map fst (sn_fixtures s))) (\<lambda>names.
     sbind (with_server (\<lambda>p. ready_counts p names)) (\<lambda>before.
     sthen launch_client
       (each (\<lambda>(n, k). with_server (\<lambda>p. ask_err (Await p (5 * second) (\<lambda>evs e. readyCount n evs > k)))) before)))"

definition stopIdle :: "unit script" where
  "stopIdle =
     sthen (sbind (of_scene sn_client) (\<lambda>p. case p of None \<Rightarrow> sret ()
       | Some c \<Rightarrow> sthen (jot (Signalled c ''TERM'')) (sthen (wait_proc c (3 * second)) (upd_scene (\<lambda>s. s\<lparr>sn_client := None\<rparr>)))))
     (sbind (of_scene sn_server) (\<lambda>p. case p of None \<Rightarrow> sret ()
       | Some c \<Rightarrow> sthen (jot (Signalled c ''TERM'')) (sthen (wait_proc c (3 * second)) (upd_scene (\<lambda>s. s\<lparr>sn_server := None\<rparr>)))))"

definition scene_connect :: "string \<Rightarrow> nat script" where
  "scene_connect name = sbind (of_scene sn_public) (\<lambda>m.
     sbind (ask_sum w_num (DialTo (case map_of m name of Some a \<Rightarrow> a | None \<Rightarrow> []))) (\<lambda>c.
     sthen (jot (Visit c (VDeadline (5 * second)))) (sret c)))"

definition wrongCA :: "unit script" where
  "wrongCA = sbind (of_scene sn_dir) (\<lambda>d. sthen (ask_err (Mkdir (d @ ''/wrong''))) (createCertificate (d @ ''/wrong'')))"

end
