(* ===== verification/Smoke_Scenarios.thy ===== *)
theory Smoke_Scenarios
  imports Smoke_Scene Smoke_Clients
begin

text \<open>
  The scenarios of the smoke test as scripts: \<^verbatim>\<open>scenarios.go\<close>, the end of \<^verbatim>\<open>metrics.go\<close>, \<^verbatim>\<open>main.go\<close>.
  What a visitor does is one operation per call, except \<open>echo\<close> and \<open>digest\<close>, whose dialogues are
  \<open>smoke_echo\<close> and \<open>smoke_digest\<close>.
\<close>

subsection \<open>Visitors and the log\<close>

definition pass :: "string \<Rightarrow> string \<Rightarrow> unit script" where
  "pass kind name = jot (Say (''PASS '' @ kind @ '' '' @ name))"

text \<open>A scene for one scenario, closed at its end.\<close>

definition in_scene :: "string \<Rightarrow> pool_spec \<Rightarrow> string \<Rightarrow> (string \<times> string) list \<Rightarrow> unit script \<Rightarrow> unit script" where
  "in_scene kind pool timeout modes body = sthen (newScene kind pool timeout modes) (deferred body scene_close)"

definition visiting :: "string \<Rightarrow> (nat \<Rightarrow> 'a script) \<Rightarrow> 'a script" where
  "visiting name k = sbind (scene_connect name) (\<lambda>c. deferred (k c) (jot (Visit c VClose)))"

definition scene_echo :: "string \<Rightarrow> bytes \<Rightarrow> unit script" where
  "scene_echo name data = visiting name (\<lambda>c. ask_err (Visit c (VEcho data)))"

definition scene_digest :: "bytes \<Rightarrow> unit script" where
  "scene_digest data = visiting ''digest'' (\<lambda>c. ask_err (Visit c (VDigest data)))"

definition with_fixture :: "string \<Rightarrow> (fixture \<Rightarrow> 'a script) \<Rightarrow> 'a script" where
  "with_fixture name k = sbind (of_scene (\<lambda>s. map_of (sn_fixtures s) name)) (\<lambda>f.
     case f of None \<Rightarrow> sfail (Errmsg ''nil fixture'') | Some x \<Rightarrow> k x)"

definition next_arrival :: "string \<Rightarrow> duration \<Rightarrow> nat script" where
  "next_arrival name d = with_fixture name (\<lambda>f. fixture_next f d)"

definition scene_hold :: "unit script" where
  "scene_hold = visiting ''hold'' (\<lambda>c. sbind (next_arrival ''hold'' (3 * second)) (\<lambda>h.
     sthen (jot (Visit c VCloseWrite)) (sthen (jot (Released h))
     (sthen (ask_err (Visit c (VReadFull 1))) (ask_err (Visit c VReadAll))))))"

text \<open>Reading everything and closing, whatever the read returned.\<close>

definition read_close :: "string \<Rightarrow> unit script" where
  "read_close name = sbind (scene_connect name) (\<lambda>c. sbind (attempt (ask_err (Visit c VReadAll))) (\<lambda>r.
     sthen (jot (Visit c VClose)) (case r of Inl e \<Rightarrow> sfail e | Inr _ \<Rightarrow> sret ())))"

definition await_log :: "duration \<Rightarrow> (event list \<Rightarrow> event \<Rightarrow> bool) \<Rightarrow> unit script" where
  "await_log d cond = with_server (\<lambda>p. ask_err (Await p d cond))"

definition server_log :: "event list script" where
  "server_log = with_server (\<lambda>p. ask w_evs (Look p))"

definition scene_finished :: "string \<Rightarrow> nat \<Rightarrow> unit script" where
  "scene_finished name k = await_log (5 * second) (\<lambda>evs e. finished_count name evs \<ge> k)"

fun reuse_msg :: "nat \<Rightarrow> reuse_error \<Rightarrow> error" where
  "reuse_msg k (NotFinished e) = e"
| "reuse_msg k (BeforeBarrier i l) = Errmsg (''connection '' @ show_nat i @ '' lease '' @ show_nat l @ '' started before prior release barrier'')"
| "reuse_msg k (LeaseIdAfter i l m) = Errmsg (''connection '' @ show_nat i @ '' lease id '' @ show_nat l @ '' after '' @ show_nat m)"
| "reuse_msg k (LogCounts s f n) = Errmsg (''lease log counts started='' @ show_nat s @ '' finished='' @ show_nat f @ '' expected '' @ show_nat n)"
| "reuse_msg k (TooManyConns n u) = Errmsg (show_nat n @ '' serial leases used '' @ show_nat u @ '' tunnel connections'')"

definition scene_reuse :: "string \<Rightarrow> nat \<Rightarrow> unit script" where
  "scene_reuse name k = sthen (scene_finished name k) (sbind server_log (\<lambda>evs.
     case check_reuse name k evs of Some x \<Rightarrow> sfail (reuse_msg k x)
     | None \<Rightarrow> jot (Say (''evidence '' @ name @ '' leases='' @ show_nat k))))"

subsection \<open>The basic scenarios\<close>

definition whole_megabyte :: bytes where
  "whole_megabyte = take (2 ^ 20) (concat (replicate (2 ^ 20 div 14 + 1) (ascii ''whole megabyte'')))"

definition pad3 :: "nat \<Rightarrow> string" where
  "pad3 n = replicate (3 - length (show_nat n)) (CHR ''0'') @ show_nat n"

definition basic_pool :: pool_spec where
  "basic_pool = (steady_pool 1 2)\<lparr>ps_heartbeat := ''1s''\<rparr>"

definition basic_modes :: "(string \<times> string) list" where
  "basic_modes = [(''echo'', ''echo''), (''digest'', ''digest''), (''hold'', ''hold''), (''tagA'', ''tagA''),
     (''tagB'', ''tagB''), (''flaky'', ''echo'')]"

definition small_message :: "string \<Rightarrow> unit script" where
  "small_message kind = sthen (wrapped ''small-message: '' (scene_echo ''echo'' (ascii ''x''))) (pass kind ''small-message'')"

definition half_close :: "string \<Rightarrow> unit script" where
  "half_close kind = sthen (wrapped ''half-close: '' (scene_digest whole_megabyte))
     (sthen (wrapped ''empty half-close: '' (scene_digest [])) (pass kind ''half-close''))"

definition serial_reuse :: "string \<Rightarrow> unit script" where
  "serial_reuse kind =
     sthen (each (\<lambda>i. wrapped (''serial-reuse #'' @ show_nat i @ '': '')
       (scene_digest (ascii (''serial lease '' @ pad3 i @ '' different content'')))) [0..<100])
     (sthen (scene_reuse ''digest'' 102) (pass kind ''serial-reuse''))"

definition acquire_timeout :: "string \<Rightarrow> unit script" where
  "acquire_timeout kind =
     sthen stopClient
     (sbind (scene_connect ''hold'') (\<lambda>c.
     sbind (ask w_time Clock) (\<lambda>started.
     sthen (jot (Visit c (VDeadline (2 * second))))
     (sbind (attempt (ask_err (Visit c VReadOne))) (\<lambda>r.
     sthen (jot (Visit c VClose))
     (sthen (case r of Inl e \<Rightarrow> if errors_Is e EOF then sret () else sfail (Wrap ''acquire-timeout expected EOF: '' e)
               | Inr _ \<Rightarrow> sfail (Errmsg ''acquire-timeout expected EOF''))
     (sbind (ask w_time Clock) (\<lambda>now.
     sthen (if now - started < 300 * millisecond then sfail (Errmsg ''visitor closed before acquire_timeout'') else sret ())
     (sthen restartClient
     (sthen (scene_echo ''echo'' (ascii ''after client restart''))
       (pass kind ''acquire-timeout'')))))))))))"

definition service_isolation :: "string \<Rightarrow> unit script" where
  "service_isolation kind =
     sthen (each (\<lambda>name. sbind (scene_connect name) (\<lambda>c.
       sthen (jot (Visit c VCloseWrite))
       (sbind (attempt (ask_sum w_data (Visit c VReadAll))) (\<lambda>r.
       sthen (jot (Visit c VClose))
         (if r = Inr (ascii name) then sret () else sfail (Errmsg (''service isolation '' @ name)))))))
       [''tagA'', ''tagB''])
     (pass kind ''service-isolation'')"

definition local_dial_failure :: "string \<Rightarrow> unit script" where
  "local_dial_failure kind =
     with_fixture ''flaky'' (\<lambda>old.
     sthen (fixture_close old)
     (sthen (read_close ''flaky'')
     (sbind (startFixture ''echo'' (fx_addr old)) (\<lambda>f. sthen (set_fixture ''flaky'' f)
     (sthen (scene_echo ''flaky'' (ascii ''restored''))
     (sthen (scene_reuse ''flaky'' 2)
       (pass kind ''local-dial-failure'')))))))"

definition kill_server :: "(error + unit) script" where
  "kill_server = with_server (\<lambda>p. sthen (jot (Signalled p ''KILL'')) (attempt (wait_proc p (2 * second))))"

definition server_restart :: "string \<Rightarrow> unit script" where
  "server_restart kind =
     visiting ''hold'' (\<lambda>c. sbind (next_arrival ''hold'' (2 * second)) (\<lambda>h.
     sthen kill_server
     (sthen (jot (Visit c (VDeadline (2 * second))))
     (sbind (attempt (ask_err (Visit c VReadOne))) (\<lambda>r.
     sthen (if isl r then sret () else sfail (Errmsg ''old lease survived server death''))
     (sthen (jot (Released h))
     (sthen restartServer
     (sthen (scene_echo ''echo'' (ascii ''after restart''))
     (sthen (pass kind ''server-restart'')
     (sthen stopIdle
       (pass kind ''shutdown-idle'')))))))))))"

definition basicScenarios :: "string \<Rightarrow> unit script" where
  "basicScenarios kind = in_scene kind basic_pool ''400ms'' basic_modes
     (sthen scene_start (sthen (small_message kind) (sthen (half_close kind) (sthen (serial_reuse kind)
     (sthen (acquire_timeout kind) (sthen (service_isolation kind) (sthen (local_dial_failure kind)
       (server_restart kind))))))))"

subsection \<open>The pool\<close>

text \<open>\<open>n\<close> more visitors of the service, each with its arrival there; they are closed in the end, last first.\<close>

fun hold_visitors :: "nat \<Rightarrow> (nat \<times> nat) list \<Rightarrow> ((nat \<times> nat) list \<Rightarrow> unit script) \<Rightarrow> unit script" where
  "hold_visitors 0 vs k = k vs"
| "hold_visitors (Suc n) vs k = visiting ''hold'' (\<lambda>c.
     sbind (wrapped (''visitor '' @ show_nat (length vs + 1) @ '' not served: '') (next_arrival ''hold'' (3 * second))) (\<lambda>h.
       hold_visitors n (vs @ [(c, h)]) k))"

definition hold_release :: "nat \<times> nat \<Rightarrow> unit script" where
  "hold_release v = (case v of (c, h) \<Rightarrow> sthen (jot (Visit c VCloseWrite)) (sthen (jot (Released h))
     (sthen (ask_err (Visit c (VReadFull 1))) (ask_err (Visit c VReadAll)))))"

definition surplus_closes :: "event list \<Rightarrow> nat" where
  "surplus_closes evs = countEvents ''hold'' ''connection_closed'' ''client_close'' evs"

definition poolGrowth :: "string \<Rightarrow> unit script" where
  "poolGrowth kind = in_scene kind (steady_pool 1 2) ''3s'' [(''hold'', ''hold'')]
     (sthen scene_start
     (hold_visitors 3 [] (\<lambda>vs.
       sthen (each hold_release vs)
       (sthen (scene_finished ''hold'' 3)
       (sbind server_log (\<lambda>evs.
       sthen (if card (lease_conns evs) \<noteq> 3
              then sfail (Errmsg (''3 concurrent leases used '' @ show_nat (card (lease_conns evs)) @ '' connections'')) else sret ())
       (sthen (wrapped ''surplus idle connections not closed: '' (await_log (3 * second) (\<lambda>evs e. surplus_closes evs \<ge> 2)))
       (sthen (ask_err (Pause (300 * millisecond)))
       (sbind server_log (\<lambda>evs.
       sthen (if surplus_closes evs \<noteq> 2 then sfail (Errmsg (show_nat (surplus_closes evs) @ '' surplus closes, want 2'')) else sret ())
         scene_hold))))))))))"

definition expired_closes :: "event list \<Rightarrow> nat" where
  "expired_closes evs = countEvents ''echo'' ''connection_closed'' ''expired'' evs"

definition idleExpiry :: "string \<Rightarrow> unit script" where
  "idleExpiry kind = in_scene kind ((steady_pool 1 1)\<lparr>ps_idle := ''1s'', ps_idleJitter := ''300ms''\<rparr>) ''2s'' [(''echo'', ''echo'')]
     (sthen scene_start
     (sbind (ask w_time Clock) (\<lambda>started.
     sthen (wrapped ''idle connection not expired: '' (await_log (3 * second) (\<lambda>evs e. expired_closes evs \<ge> 1)))
     (sbind (ask w_time Clock) (\<lambda>now.
     sthen (if now - started < 900 * millisecond then sfail (Errmsg ''expired before idle_timeout'') else sret ())
     (sthen (wrapped ''expired connection not replaced: '' (await_log (3 * second) (\<lambda>evs e. readyCount ''echo'' evs \<ge> 2)))
       (scene_echo ''echo'' (ascii ''after idle expiry''))))))))"

text \<open>\<open>w_rounds\<close>: how many turns of the loop begin within the four seconds.\<close>

definition maxLifetime :: "string \<Rightarrow> unit script" where
  "maxLifetime kind = in_scene kind ((steady_pool 1 2)\<lparr>ps_lifetime := ''2s''\<rparr>) ''2s'' [(''echo'', ''echo'')]
     (sthen scene_start
     (sbind (ask w_rounds Clock) (\<lambda>n.
     sthen (each (\<lambda>_. wrapped ''lease failed during rotation: '' (scene_echo ''echo'' (ascii ''lifetime''))) [0..<n])
     (sbind server_log (\<lambda>evs.
     sthen (if expired_closes evs = 0 then sfail (Errmsg ''no connection retired by max_lifetime'') else sret ())
     (sbind server_log (\<lambda>evs.
       if card (lease_conns evs) < 2 then sfail (Errmsg (''leases stayed on '' @ show_nat (card (lease_conns evs)) @ '' connection''))
       else sret ())))))))"

subsection \<open>Authentication\<close>

fun replace_first :: "string \<Rightarrow> string \<Rightarrow> string \<Rightarrow> string" where
  "replace_first old new [] = (if old = [] then new else [])"
| "replace_first old new (c # s) =
     (if take (length old) (c # s) = old then new @ drop (length old) (c # s) else c # replace_first old new s)"

definition rename_service :: "unit script" where
  "rename_service = sbind (of_scene sn_clientFile) (\<lambda>file. sbind (ask_sum w_str (ReadFile file)) (\<lambda>data.
     let changed = replace_first ''[client.services.echo]'' ''[client.services.missing]'' data in
     if changed = data then sfail (Errmsg ''missing client service table'')
     else sthen (ask_err (WriteFile file changed)) (check_config file)))"

definition registration_refused :: "event list \<Rightarrow> event \<Rightarrow> bool" where
  "registration_refused evs e \<longleftrightarrow> is_event ''registration_rejected'' e \<and> ev_str e ''code'' = Some ''authentication_failed''"

definition authenticationVariant :: "string \<Rightarrow> string \<Rightarrow> unit script" where
  "authenticationVariant kind variant = in_scene kind (steady_pool 1 2) ''400ms'' [(''echo'', ''echo'')]
     (sthen (if variant = ''ca'' then wrongCA else sret ())
     (sbind (if variant = ''server-pin'' then sbind generateKey (\<lambda>k. sret (snd k)) else sret []) (\<lambda>pin.
     sthen (writeConfigs (if variant = ''token'' then replicate 48 (CHR ''w'') else []) pin
       (if variant = ''client-pin'' then ''pin'' else if variant = ''ca'' \<or> variant = ''hostname'' then variant else []))
     (sthen (if variant = ''unknown-service'' then rename_service else sret ())
     (sthen launch_server
     (sthen (await_log (4 * second) (listening ''echo''))
     (sthen launch_client
     (sthen (ask_err (Pause (600 * millisecond)))
     (sbind server_log (\<lambda>evs.
     sthen (case missingEvent ''pool_ready'' evs of Some e \<Rightarrow> sfail (Wrap (variant @ '': '') e) | None \<Rightarrow> sret ())
     (sthen (if variant = ''token'' \<or> variant = ''unknown-service'' then await_log (2 * second) registration_refused else sret ())
     (visiting ''echo'' (\<lambda>c.
       sthen (jot (Visit c (VDeadline (2 * second))))
       (sbind (attempt (ask_err (Visit c VReadOne))) (\<lambda>r.
         case r of Inl e \<Rightarrow> if errors_Is e EOF then sret () else sfail (Wrap (variant @ '' unexpectedly reached service: '') e)
         | Inr _ \<Rightarrow> sfail (Errmsg (variant @ '' unexpectedly reached service'')))))))))))))))))"

fun variant_attempts :: "string \<Rightarrow> string \<Rightarrow> nat \<Rightarrow> unit script" where
  "variant_attempts kind variant 0 = sret ()"
| "variant_attempts kind variant (Suc n) =
     sbind (attempt (authenticationVariant kind variant)) (\<lambda>r. case r of
       Inr _ \<Rightarrow> sret ()
     | Inl e \<Rightarrow> sbind (in_world w_text) (\<lambda>tx.
         if \<not> contains ''address already in use'' (tx e) \<or> n = 0 then sfail e else variant_attempts kind variant n))"

definition authentication :: "string \<Rightarrow> unit script" where
  "authentication kind = each (\<lambda>variant. variant_attempts kind variant 3)
     ([''token'', ''unknown-service''] @ (if kind = ''noise'' then [''client-pin'', ''server-pin''] else [''ca'', ''hostname'']))"

subsection \<open>Shutdown\<close>

text \<open>One turn of the loop. Here every error path closes the scene itself.\<close>

definition shutdown_lease :: "bool \<Rightarrow> nat script" where
  "shutdown_lease hung =
     sthen scene_start
     (sbind (scene_connect ''hold'') (\<lambda>c.
     sbind (next_arrival ''hold'' (2 * second)) (\<lambda>h.
     sbind (ask w_time Clock) (\<lambda>started.
     sthen (sbind (of_scene sn_server) (\<lambda>p. signal_proc p ''TERM''))
     (sthen (if \<not> hung then hold_release (c, h) else sret ())
     (sthen (with_server (\<lambda>p. wait_proc p (33 * second)))
     (sthen (upd_scene (\<lambda>s. s\<lparr>sn_server := None\<rparr>))
     (sthen (if hung
         then sbind (ask w_time Clock) (\<lambda>now.
           sthen (if now - started < 29 * second \<or> now - started > 33 * second then sfail (Errmsg ''drain duration'') else sret ())
           (sthen (jot (Visit c (VDeadline second)))
           (sbind (attempt (ask_err (Visit c VReadOne))) (\<lambda>r.
           sthen (if isl r then sret () else sfail (Errmsg ''hung lease not closed''))
             (jot (Released h))))))
         else sret ())
       (sret c)))))))))"

definition shutdown_turn :: "string \<Rightarrow> bool \<Rightarrow> unit script" where
  "shutdown_turn kind hung =
     sthen (newScene kind (steady_pool 1 2) ''1s'' [(''hold'', ''hold'')])
     (sbind (on_error (\<lambda>e. sthen scene_close (sret e)) (shutdown_lease hung)) (\<lambda>c.
     sthen (jot (Visit c VClose)) scene_close))"

definition shutdownScenarios :: "string \<Rightarrow> unit script" where
  "shutdownScenarios kind = each (shutdown_turn kind) [False, True]"

subsection \<open>Metrics\<close>

definition metrics_payload :: bytes where
  "metrics_payload = take (2 ^ 20) (concat (replicate (2 ^ 20 div 29 + 1) (ascii ''compressible metrics payload '')))"

definition server_expectations :: "rat expectation list" where
  "server_expectations =
    [expect ''compress_proxy_build_info'' 1 [''role=server''],
     expect ''compress_proxy_tunnel_connections'' 1 [''service=echo'', ''state=idle''],
     expect ''compress_proxy_tunnel_connections_opened_total'' 1 [''service=digest''],
     expect ''compress_proxy_server_visitors_total'' 1 [''service=digest''],
     expect ''compress_proxy_relay_raw_bytes_total'' (2 ^ 20) [''service=digest'', ''direction=to_tunnel''],
     expect ''compress_proxy_relay_compressed_bytes_total'' 1 [''service=digest'', ''direction=to_tunnel''],
     expect ''compress_proxy_leases_total'' 1 [''service=digest'', ''outcome=ok''],
     expect ''compress_proxy_leases_total'' 1 [''service=flaky'', ''outcome=dial_failed''],
     expect ''compress_proxy_lease_duration_seconds_count'' 1 [''service=digest''],
     expect ''compress_proxy_server_pending_visitors'' 0 [''service=echo''],
     expect ''go_goroutines'' 1 [],
     expect ''process_cpu_seconds_total'' 0 []]"

definition client_expectations :: "rat expectation list" where
  "client_expectations =
    [expect ''compress_proxy_build_info'' 1 [''role=client''],
     expect ''compress_proxy_tunnel_connections'' 1 [''service=echo'', ''state=idle''],
     expect ''compress_proxy_relay_raw_bytes_total'' (2 ^ 20) [''service=digest'', ''direction=from_tunnel''],
     expect ''compress_proxy_leases_total'' 1 [''service=digest'', ''outcome=ok''],
     expect ''compress_proxy_leases_total'' 1 [''service=flaky'', ''outcome=dial_failed''],
     expect ''compress_proxy_client_local_dial_failures_total'' 1 [''service=flaky'']]"

text \<open>A series that is missing reads as 0.\<close>

definition reading :: "rat sample list \<Rightarrow> string \<Rightarrow> string list \<Rightarrow> rat" where
  "reading samples name labels = (case sample_value samples name labels of Some v \<Rightarrow> v | None \<Rightarrow> 0)"

definition compare_scrapes :: "rat sample list \<Rightarrow> rat sample list \<Rightarrow> error option" where
  "compare_scrapes srv cli =
     (let bytes = ''compress_proxy_relay_compressed_bytes_total'';
          raw = reading srv ''compress_proxy_relay_raw_bytes_total'' [''service=digest'', ''direction=to_tunnel''];
          sent = reading srv bytes [''service=digest'', ''direction=to_tunnel''];
          received = reading cli bytes [''service=digest'', ''direction=from_tunnel''];
          back = reading cli bytes [''service=digest'', ''direction=to_tunnel''];
          got = reading srv bytes [''service=digest'', ''direction=from_tunnel'']
      in if sent \<ge> raw / 10 then Some (Errmsg ''repetitive payload should shrink tenfold'')
         else if sent \<noteq> received then Some (Errmsg ''client received different compressed bytes'')
         else if back = 0 \<or> back \<noteq> got then Some (Errmsg ''server received different compressed bytes'')
         else None)"

text \<open>
  \<open>checkAuth\<close> over the requests it makes at an address is one operation. The world says what the
  scrapes of \<open>awaitMetrics\<close> give: those before its deadline, and the first one after.
\<close>

definition scene_metrics :: "string \<Rightarrow> rat expectation list \<Rightarrow> rat sample list script" where
  "scene_metrics adr exps = sbind (ask w_scrapes (Scrape adr)) (\<lambda>(early, last_one).
     case awaitMetrics (map (\<lambda>x. (x, False)) early @ [(last_one, True)]) exps of
       Some (Inr samples) \<Rightarrow> sret samples
     | Some (Inl (Inl e)) \<Rightarrow> sfail e
     | Some (Inl (Inr names)) \<Rightarrow> sfail (Errmsg (concat (map (\<lambda>n. n @ ''; '') names)))
     | None \<Rightarrow> sfail (Errmsg ''still waiting''))"

definition metrics_listening :: "event list \<Rightarrow> event \<Rightarrow> bool" where
  "metrics_listening evs e \<longleftrightarrow> is_event ''metrics_listening'' e"

definition metricsScenario :: "string \<Rightarrow> unit script" where
  "metricsScenario kind = in_scene kind (steady_pool 1 2) ''2s'' [(''echo'', ''echo''), (''digest'', ''digest''), (''flaky'', ''echo'')]
     (sthen scene_start
     (sthen (await_log (3 * second) metrics_listening)
     (sthen (with_client (\<lambda>p. ask_err (Await p (3 * second) metrics_listening)))
     (sbind (of_scene (\<lambda>s. (sn_serverMetrics s, sn_clientMetrics s))) (\<lambda>(sm, cm).
     sthen (each (\<lambda>a. wrapped (a @ '': '') (ask_err (AuthCheck a))) [sm, cm])
     (sthen (scene_echo ''echo'' (ascii ''metrics''))
     (sthen (scene_digest metrics_payload)
     (sthen (with_fixture ''flaky'' fixture_close)
     (sthen (read_close ''flaky'')
     (sthen (each (\<lambda>n. scene_finished n 1) [''echo'', ''digest'', ''flaky''])
     (sbind (wrapped ''server metrics: '' (scene_metrics sm server_expectations)) (\<lambda>srv.
     sbind (wrapped ''client metrics: '' (scene_metrics cm client_expectations)) (\<lambda>cli.
       case compare_scrapes srv cli of Some e \<Rightarrow> sfail e | None \<Rightarrow> jot (Say ''evidence metrics digest''))))))))))))))"

subsection \<open>The whole test\<close>

definition scenarios :: "string \<Rightarrow> unit script" where
  "scenarios kind =
     sthen (basicScenarios kind)
     (sthen (wrapped ''metrics: '' (metricsScenario kind)) (sthen (pass kind ''metrics'')
     (sthen (wrapped ''pool-growth: '' (poolGrowth kind)) (sthen (pass kind ''pool-growth'')
     (sthen (wrapped ''idle-expiry: '' (idleExpiry kind)) (sthen (pass kind ''idle-expiry'')
     (sthen (wrapped ''max-lifetime: '' (maxLifetime kind)) (sthen (pass kind ''max-lifetime'')
     (sthen (wrapped ''authentication: '' (authentication kind)) (sthen (pass kind ''authentication'')
     (sthen (wrapped ''shutdown: '' (shutdownScenarios kind)) (pass kind ''shutdown''))))))))))))"

text \<open>\<^verbatim>\<open>main\<close>: the exit code and the history of the run.\<close>

definition smoke_start :: sstate where
  "smoke_start = \<lparr>ss_scene = empty_scene [] (steady_pool 0 0) [], ss_hist = []\<rparr>"

definition smoke_kinds :: "string \<Rightarrow> string list" where
  "smoke_kinds mode = (if mode = ''both'' then [''noise'', ''wss''] else [mode])"

definition smoke_main :: "world \<Rightarrow> string \<Rightarrow> nat \<times> sop list" where
  "smoke_main w mode =
     (if mode \<noteq> ''both'' \<and> mode \<noteq> ''noise'' \<and> mode \<noteq> ''wss'' then (2, [])
      else case sthen (jot (Say ''smoke_started'')) (each scenarios (smoke_kinds mode)) w smoke_start of
             (Inl e, t) \<Rightarrow> (1, ss_hist t)
           | (Inr _, t) \<Rightarrow> (0, ss_hist t))"

end
