(* ===== verification/Smoke_Leaks.thy ===== *)
theory Smoke_Leaks
  imports Smoke_Scene
begin

text \<open>
  What a script leaves behind: the processes, services and directories it made and did not do away with,
  computed from its history: a process until its exit status was received or it was sent SIGKILL, a
  service until it is closed, a directory until \<^verbatim>\<open>os.RemoveAll\<close>. What the operating system makes of these
  operations is its answer to them (\<open>remains\<close>). Hoare triples over the scene and these sets, and the rules for the
  operations of a scene.
\<close>

named_theorems quiet_intros \<open>scripts that make and remove nothing, and leave the scene as it is\<close>

subsection \<open>Live resources\<close>

type_synonym live_set = "nat set \<times> nat set \<times> string set"

fun live_step :: "sop \<Rightarrow> live_set \<Rightarrow> live_set" where
  "live_step (Started p) (P, F, D) = (insert p P, F, D)"
| "live_step (Exited p) (P, F, D) = (P - {p}, F, D)"
| "live_step (Signalled p sig) (P, F, D) = (if sig = ''KILL'' then P - {p} else P, F, D)"
| "live_step (FixOpen f m) (P, F, D) = (P, insert f F, D)"
| "live_step (FixClosed f) (P, F, D) = (P, F - {f}, D)"
| "live_step (DirMade d) (P, F, D) = (P, F, insert d D)"
| "live_step (RemoveAll d) (P, F, D) = (P, F, D - {d})"
| "live_step _ L = L"

definition live :: "sop list \<Rightarrow> live_set" where
  "live h = fold live_step h ({}, {}, {})"

lemma live_Nil [simp]: "live [] = ({}, {}, {})"
  by (simp add: live_def)

lemma live_snoc [simp]: "live (h @ [a]) = live_step a (live h)"
  by (simp add: live_def)

type_synonym astate = "scene \<times> live_set"

definition absS :: "sstate \<Rightarrow> astate" where
  "absS s = (ss_scene s, live (ss_hist s))"

definition inert :: "sop \<Rightarrow> bool" where
  "inert a \<longleftrightarrow> live_step a = (\<lambda>L. L)"

text \<open>
  What remains when the operations that do away with something have an effect only if the world
  answers them without an error; and those it answers with one. Histories are read from their end.
\<close>

definition ending :: "sop \<Rightarrow> bool" where
  "ending a \<longleftrightarrow> (case a of Signalled p sig \<Rightarrow> sig = ''KILL'' | FixClosed f \<Rightarrow> True | RemoveAll d \<Rightarrow> True | _ \<Rightarrow> False)"

fun remains_rev :: "world \<Rightarrow> sop list \<Rightarrow> live_set" where
  "remains_rev w [] = ({}, {}, {})"
| "remains_rev w (a # r) =
     (if ending a \<and> w_err w (rev (a # r)) \<noteq> None then remains_rev w r else live_step a (remains_rev w r))"

definition remains :: "world \<Rightarrow> sop list \<Rightarrow> live_set" where
  "remains w h = remains_rev w (rev h)"

definition failed_ops :: "world \<Rightarrow> sop list \<Rightarrow> sop set" where
  "failed_ops w h = {a. \<exists>h1 h2. h = h1 @ a # h2 \<and> w_err w (h1 @ [a]) \<noteq> None}"

lemma remains_snoc: "remains w (h @ [a]) = (if ending a \<and> w_err w (h @ [a]) \<noteq> None then remains w h else live_step a (remains w h))"
  by (auto simp: remains_def)

lemma failed_snoc: "failed_ops w h \<subseteq> failed_ops w (h @ [a])" "w_err w (h @ [a]) \<noteq> None \<Longrightarrow> a \<in> failed_ops w (h @ [a])"
proof -
  have "\<exists>h1' h2'. h @ [a] = h1' @ b # h2' \<and> w_err w (h1' @ [b]) \<noteq> None"
    if "h = h1 @ b # h2" "w_err w (h1 @ [b]) \<noteq> None" for b h1 h2
    using that by (intro exI [of _ h1] exI [of _ "h2 @ [a]"]) simp
  then show "failed_ops w h \<subseteq> failed_ops w (h @ [a])" unfolding failed_ops_def by blast
  show "w_err w (h @ [a]) \<noteq> None \<Longrightarrow> a \<in> failed_ops w (h @ [a])"
    unfolding failed_ops_def by (rule CollectI, intro exI [of _ h] exI [of _ "[]"] conjI) (rule refl)
qed

lemma live_step_mono:
  assumes "P' \<subseteq> P \<union> K" and "F' \<subseteq> F \<union> C" and "D' \<subseteq> D \<union> R"
  shows "case (live_step a (P', F', D'), live_step a (P, F, D)) of ((P1', F1', D1'), (P1, F1, D1)) \<Rightarrow>
    P1' \<subseteq> P1 \<union> K \<and> F1' \<subseteq> F1 \<union> C \<and> D1' \<subseteq> D1 \<union> R"
  using assms by (cases a) auto

text \<open>What remains although the script did away with it is what an operation failed for.\<close>

lemma remains_live:
  "case (remains w h, live h) of ((P', F', D'), (P, F, D)) \<Rightarrow>
     P' \<subseteq> P \<union> {p. Signalled p ''KILL'' \<in> failed_ops w h} \<and> F' \<subseteq> F \<union> {f. FixClosed f \<in> failed_ops w h}
     \<and> D' \<subseteq> D \<union> {d. RemoveAll d \<in> failed_ops w h}"
proof (induction h rule: rev_induct)
  case Nil
  then show ?case by (simp add: remains_def)
next
  case (snoc a h)
  obtain P' F' D' P F D where e: "remains w h = (P', F', D')" "live h = (P, F, D)" by (metis surj_pair)
  let ?h = "h @ [a]"
  have i: "P' \<subseteq> P \<union> {p. Signalled p ''KILL'' \<in> failed_ops w ?h}" "F' \<subseteq> F \<union> {f. FixClosed f \<in> failed_ops w ?h}"
    "D' \<subseteq> D \<union> {d. RemoveAll d \<in> failed_ops w ?h}"
    using snoc failed_snoc(1) [of w h a] by (auto simp: e)
  show ?case
  proof (cases "ending a \<and> w_err w ?h \<noteq> None")
    case True
    then have "a \<in> failed_ops w ?h" using failed_snoc(2) by blast
    with True i show ?thesis by (cases a) (auto simp: e remains_snoc ending_def)
  next
    case False
    with live_step_mono [OF i, of a] show ?thesis by (auto simp: e remains_snoc)
  qed
qed

subsection \<open>Triples\<close>

definition triple :: "(astate \<Rightarrow> bool) \<Rightarrow> 'a script \<Rightarrow> ('a \<Rightarrow> astate \<Rightarrow> bool) \<Rightarrow> (astate \<Rightarrow> bool) \<Rightarrow> bool" where
  "triple P m Q E \<longleftrightarrow> (\<forall>w s. P (absS s) \<longrightarrow>
     (\<forall>e t. m w s = (Inl e, t) \<longrightarrow> E (absS t)) \<and> (\<forall>x t. m w s = (Inr x, t) \<longrightarrow> Q x (absS t)))"

lemma tripleI:
  "(\<And>w s e t. P (absS s) \<Longrightarrow> m w s = (Inl e, t) \<Longrightarrow> E (absS t)) \<Longrightarrow>
   (\<And>w s x t. P (absS s) \<Longrightarrow> m w s = (Inr x, t) \<Longrightarrow> Q x (absS t)) \<Longrightarrow> triple P m Q E"
  by (simp add: triple_def)

lemma triple_err: "triple P m Q E \<Longrightarrow> P (absS s) \<Longrightarrow> m w s = (Inl e, t) \<Longrightarrow> E (absS t)"
  and triple_ok: "triple P m Q E \<Longrightarrow> P (absS s) \<Longrightarrow> m w s = (Inr x, t) \<Longrightarrow> Q x (absS t)"
  by (simp_all add: triple_def)

definition quiet :: "'a script \<Rightarrow> bool" where
  "quiet m \<longleftrightarrow> (\<forall>w s. absS (snd (m w s)) = absS s)"

lemma triple_bind:
  assumes m: "triple P m R E" and k: "\<And>x. triple (R x) (k x) Q E"
  shows "triple P (sbind m k) Q E"
proof (rule tripleI)
  fix w s e t assume P: "P (absS s)" and r: "sbind m k w s = (Inl e, t)"
  show "E (absS t)"
  proof (cases "m w s")
    case (Pair q u)
    with r show ?thesis
      by (cases q) (auto simp: sbind_def intro: triple_err [OF m P] triple_err [OF k triple_ok [OF m P]])
  qed
next
  fix w s x t assume P: "P (absS s)" and r: "sbind m k w s = (Inr x, t)"
  show "Q x (absS t)"
  proof (cases "m w s")
    case (Pair q u)
    with r show ?thesis by (cases q) (auto simp: sbind_def intro: triple_ok [OF k triple_ok [OF m P]])
  qed
qed

lemma triple_weaken:
  "triple P m Q E \<Longrightarrow> (\<And>a. P' a \<Longrightarrow> P a) \<Longrightarrow> (\<And>x a. Q x a \<Longrightarrow> Q' x a) \<Longrightarrow> (\<And>a. E a \<Longrightarrow> E' a) \<Longrightarrow> triple P' m Q' E'"
  unfolding triple_def by blast

lemma triple_ret: "(\<And>a. P a \<Longrightarrow> Q x a) \<Longrightarrow> triple P (sret x) Q E"
  by (simp add: triple_def sret_def)

lemma triple_fail: "(\<And>a. P a \<Longrightarrow> E a) \<Longrightarrow> triple P (sfail e) Q E"
  by (simp add: triple_def sfail_def)

lemma triple_jot: "(\<And>sc L. P (sc, L) \<Longrightarrow> Q () (sc, live_step a L)) \<Longrightarrow> triple P (jot a) Q E"
  by (auto simp: triple_def jot_def absS_def)

lemma triple_upd: "(\<And>sc L. P (sc, L) \<Longrightarrow> Q () (f sc, L)) \<Longrightarrow> triple P (upd_scene f) Q E"
  by (auto simp: triple_def upd_scene_def absS_def)

lemma triple_of_scene: "(\<And>sc L. P (sc, L) \<Longrightarrow> Q (f sc) (sc, L)) \<Longrightarrow> triple P (of_scene f) Q E"
  by (auto simp: triple_def of_scene_def absS_def)

lemma triple_quiet: "quiet m \<Longrightarrow> triple P m (\<lambda>_. P) P"
  unfolding triple_def quiet_def by (metis snd_conv)

lemma triple_attempt:
  "triple P m Q E \<Longrightarrow> triple P (attempt m) (\<lambda>r. case r of Inl e \<Rightarrow> E | Inr x \<Rightarrow> Q x) E'"
  by (rule tripleI) (auto simp: attempt_def split: prod.splits sum.splits intro: triple_err triple_ok)

lemma triple_on_error:
  assumes m: "triple P m Q R" and f: "\<And>e. triple R (f e) (\<lambda>_. E) E"
  shows "triple P (on_error f m) Q E"
proof (rule tripleI)
  fix w s e t assume P: "P (absS s)" and r: "on_error f m w s = (Inl e, t)"
  show "E (absS t)"
  proof (cases "m w s")
    case (Pair q u)
    with r obtain e1 where q: "q = Inl e1" "m w s = (Inl e1, u)" by (cases q) (auto simp: on_error_def)
    note R = triple_err [OF m P q(2)]
    show ?thesis
    proof (cases "f e1 w u")
      case (Pair q2 u2)
      with r q show ?thesis
        by (cases q2) (auto simp: on_error_def intro: triple_err [OF f R] triple_ok [OF f R])
    qed
  qed
next
  fix w s x t assume P: "P (absS s)" and r: "on_error f m w s = (Inr x, t)"
  then show "Q x (absS t)"
    by (auto simp: on_error_def split: prod.splits sum.splits intro: triple_ok [OF m P])
qed

lemma triple_deferred:
  assumes m: "triple P m (\<lambda>_. R) R" and f: "triple R f (\<lambda>_. E) E"
  shows "triple P (deferred m f) (\<lambda>_. E) E"
proof -
  have "E (absS t)" if P: "P (absS s)" and r: "deferred m f w s = (q, t)" for w s q t
  proof (cases "m w s")
    case (Pair q1 u)
    then have R: "R (absS u)" by (cases q1) (auto intro: triple_err [OF m P] triple_ok [OF m P])
    have "t = snd (f w u)" using r Pair by (simp add: deferred_def)
    then show ?thesis by (cases "f w u"; cases "fst (f w u)") (auto intro: triple_err [OF f R] triple_ok [OF f R])
  qed
  then show ?thesis by (intro tripleI)
qed

subsection \<open>Quiet scripts\<close>

lemma inert_simps [simp]:
  "inert MkdirTemp" "inert (Mkdir d)" "inert (Random n)" "inert KeyGen" "inert ListenAny"
  "inert (ReleaseAddr d)" "inert (ListenAt d)" "inert (WriteFile d x)" "inert (ReadFile d)" "inert (RunCheck d)"
  "inert (StartProc args)" "sig \<noteq> ''KILL'' \<Longrightarrow> inert (Signalled p sig)" "inert (WaitProc p t)" "inert (Drain p)" "inert (Await p t c)" "inert (Look p)"
  "inert (Output p)" "inert (DialTo d)" "inert (Visit p v)" "inert (Arrival f t)" "inert (Released n)" "inert (Pause t)"
  "inert EcKey" "inert (SignCert ct ct2 p p2)" "inert (MarshalKey p)"
  "inert (KeyPair d d2)" "inert (ActiveAt p)" "inert (Dropped p)" "inert Clock" "inert (Say d)" "inert (Scrape d)" "inert (AuthCheck d)"
  by (auto simp: inert_def fun_eq_iff)

lemma inert_Await: "inert (Await p t c)" and inert_AuthCheck: "inert (AuthCheck d)"
  by simp_all

lemmas inert_WaitProc = inert_simps(13) and inert_Drain = inert_simps(14) and inert_MkdirTemp = inert_simps(1)

lemma quiet_basic [quiet_intros]:
  "quiet (sret x)" "quiet (sfail e)" "quiet (in_world f)" "quiet (of_scene g)"
  "inert a \<Longrightarrow> quiet (jot a)" "inert a \<Longrightarrow> quiet (ask h a)"
  by (simp_all add: quiet_def script_defs absS_def inert_def)

lemma quiet_bind [quiet_intros]: "quiet m \<Longrightarrow> (\<And>x. quiet (k x)) \<Longrightarrow> quiet (sbind m k)"
  unfolding quiet_def sbind_def by (auto split: prod.splits sum.splits) (metis snd_conv)+

lemma quiet_attempt [quiet_intros]: "quiet m \<Longrightarrow> quiet (attempt m)"
  unfolding quiet_def attempt_def by (auto split: prod.splits) (metis snd_conv)

lemma quiet_on_error [quiet_intros]: "quiet m \<Longrightarrow> (\<And>e. quiet (f e)) \<Longrightarrow> quiet (on_error f m)"
  unfolding quiet_def on_error_def by (auto split: prod.splits sum.splits) (metis snd_conv)+

lemma quiet_case [quiet_intros]:
  "(\<And>e. quiet (f e)) \<Longrightarrow> (\<And>x. quiet (g x)) \<Longrightarrow> quiet (case r of Inl e \<Rightarrow> f e | Inr x \<Rightarrow> g x)"
  "quiet m \<Longrightarrow> (\<And>x. quiet (k x)) \<Longrightarrow> quiet (case q of None \<Rightarrow> m | Some x \<Rightarrow> k x)"
  "quiet m \<Longrightarrow> quiet m' \<Longrightarrow> quiet (if b then m else m')"
  by (auto split: sum.split option.split)

lemma quiet_ask [quiet_intros]: "inert a \<Longrightarrow> quiet (ask_sum f a)" "inert a \<Longrightarrow> quiet (ask_err a)"
  unfolding ask_sum_def ask_err_def by (intro quiet_intros; assumption)+

lemma quiet_each [quiet_intros]: "(\<And>x. quiet (f x)) \<Longrightarrow> quiet (each f xs)"
  by (induction xs) (auto intro: quiet_intros)

lemma quiet_wrapped [quiet_intros]: "quiet m \<Longrightarrow> quiet (wrapped t m)"
  by (simp add: wrapped_def quiet_intros)

lemma quiet_harness [quiet_intros]:
  "quiet freeAddr" "quiet (signal_proc p ''TERM'')" "quiet (fixture_next f d)" "quiet generateKey" "quiet (check_config path)"
  "quiet (createCertificate dir)"
  unfolding freeAddr_def signal_proc_def fixture_next_def generateKey_def check_config_def
    createCertificate_def split_def
  by (intro quiet_intros; simp)+

lemma quiet_with [quiet_intros]:
  "(\<And>p. quiet (k p)) \<Longrightarrow> quiet (with_server k)" "(\<And>p. quiet (k p)) \<Longrightarrow> quiet (with_client k)"
  unfolding with_server_def with_client_def by (intro quiet_intros; assumption)+

lemma quiet_scene [quiet_intros]:
  "quiet (writeConfigs t c o1)" "quiet (scene_connect name)" "quiet wrongCA" "quiet (ready_counts p ns)"
proof -
  show "quiet (writeConfigs t c o1)" unfolding writeConfigs_def by (intro quiet_intros; simp)
  show "quiet (scene_connect name)" unfolding scene_connect_def by (intro quiet_intros; simp)
  show "quiet wrongCA" unfolding wrongCA_def by (intro quiet_intros; simp)
  show "quiet (ready_counts p ns)" by (induction ns) (auto intro!: quiet_intros)
qed

subsection \<open>What a scene owns\<close>

definition fix_ids :: "(string \<times> fixture) list \<Rightarrow> nat set" where
  "fix_ids m = (\<lambda>x. fx_id (snd x)) ` set m"

text \<open>\<open>b\<close>: the server of the scene is not running; \<open>c\<close>: nor is its client.\<close>

fun ok :: "bool \<Rightarrow> bool \<Rightarrow> astate \<Rightarrow> bool" where
  "ok b c (sc, P, F, D) \<longleftrightarrow> (\<forall>p \<in> P. (\<not> b \<and> sn_server sc = Some p) \<or> (\<not> c \<and> sn_client sc = Some p))
     \<and> F \<subseteq> fix_ids (sn_fixtures sc) \<and> D \<subseteq> {sn_dir sc} - {[]} \<and> distinct (map fst (sn_fixtures sc))"

lemma ok_own: "ok b c a \<Longrightarrow> ok False False a"
  by (cases a) auto

definition clean :: "astate \<Rightarrow> bool" where
  "clean a \<longleftrightarrow> snd a = ({}, {}, {})"

text \<open>
  \<open>scene_step b c m b' c'\<close>: from a scene with these processes down, \<open>m\<close> ends with those down, or fails;
  in both cases the scene owns all that is live.
\<close>

definition scene_step :: "bool \<Rightarrow> bool \<Rightarrow> 'a script \<Rightarrow> bool \<Rightarrow> bool \<Rightarrow> bool" where
  "scene_step b c m b' c' \<longleftrightarrow> triple (ok b c) m (\<lambda>_. ok b' c') (ok False False)"

definition keeps :: "'a script \<Rightarrow> bool" where
  "keeps m \<longleftrightarrow> (\<forall>b c. triple (ok b c) m (\<lambda>_. ok b c) (ok b c))"

named_theorems keeps_intros \<open>scripts that keep what the scene owns and which processes are down\<close>

lemma keeps_step: "keeps m \<Longrightarrow> scene_step b c m b c"
  unfolding keeps_def scene_step_def by (blast intro: triple_weaken ok_own)

lemma step_bind: "scene_step b c m b1 c1 \<Longrightarrow> (\<And>x. scene_step b1 c1 (k x) b2 c2) \<Longrightarrow> scene_step b c (sbind m k) b2 c2"
  unfolding scene_step_def by (rule triple_bind)

lemma step_keeps_bind: "keeps m \<Longrightarrow> (\<And>x. scene_step b c (k x) b2 c2) \<Longrightarrow> scene_step b c (sbind m k) b2 c2"
  by (rule step_bind [OF keeps_step])

lemma step_weaken: "scene_step b c m b' c' \<Longrightarrow> scene_step b c m False False"
  unfolding scene_step_def by (blast intro: triple_weaken ok_own)

lemma step_fail: "scene_step b c (sfail e) b' c'"
  unfolding scene_step_def by (rule triple_fail) (rule ok_own)

lemma keeps_quiet [keeps_intros]: "quiet m \<Longrightarrow> keeps m"
  unfolding keeps_def by (blast intro: triple_quiet)

lemma keeps_bind [keeps_intros]: "keeps m \<Longrightarrow> (\<And>x. keeps (k x)) \<Longrightarrow> keeps (sbind m k)"
  unfolding keeps_def by (blast intro: triple_bind)

lemma keeps_each [keeps_intros]: "(\<And>x. keeps (f x)) \<Longrightarrow> keeps (each f xs)"
  by (induction xs) (auto intro: keeps_intros quiet_intros)

lemma keeps_upd [keeps_intros]:
  "(\<And>sc. sn_server (f sc) = sn_server sc \<and> sn_client (f sc) = sn_client sc \<and> sn_fixtures (f sc) = sn_fixtures sc
     \<and> sn_dir (f sc) = sn_dir sc) \<Longrightarrow> keeps (upd_scene f)"
  unfolding keeps_def by (intro allI triple_upd) auto

lemma keeps_case [keeps_intros]:
  "(\<And>e. keeps (f e)) \<Longrightarrow> (\<And>x. keeps (g x)) \<Longrightarrow> keeps (case r of Inl e \<Rightarrow> f e | Inr x \<Rightarrow> g x)"
  "keeps m \<Longrightarrow> (\<And>x. keeps (k x)) \<Longrightarrow> keeps (case q of None \<Rightarrow> m | Some x \<Rightarrow> k x)"
  "keeps m \<Longrightarrow> keeps m' \<Longrightarrow> keeps (if d then m else m')"
  by (auto split: sum.split option.split)

subsection \<open>Processes\<close>

text \<open>Rules for a step that changes nothing, and for one whose state is named.\<close>

lemma triple_quiet_bind:
  "quiet m \<Longrightarrow> (\<And>a. P a \<Longrightarrow> E a) \<Longrightarrow> (\<And>x. triple P (k x) Q E) \<Longrightarrow> triple P (sbind m k) Q E"
  by (rule triple_bind [OF triple_weaken [OF triple_quiet]])

lemma triple_ask_bind: "inert a \<Longrightarrow> (\<And>x. triple P (k x) Q E) \<Longrightarrow> triple P (sbind (ask f a) k) Q E"
  by (rule triple_bind [of P _ "\<lambda>_. P"]) (auto simp: triple_def ask_def absS_def inert_def)

lemma triple_at: "(\<And>sc P F D. R (sc, P, F, D) \<Longrightarrow> triple (\<lambda>a. a = (sc, P, F, D)) m Q E) \<Longrightarrow> triple R m Q E"
  unfolding triple_def by (metis surj_pair)

lemma triple_jot_bind:
  "triple (\<lambda>a. a = (sc, live_step x L)) k Q E \<Longrightarrow> triple (\<lambda>a. a = (sc, L)) (sthen (jot x) k) Q E"
  by (rule triple_bind [of _ _ "\<lambda>_ a. a = (sc, live_step x L)"]) (auto intro: triple_jot)

lemma triple_upd_bind:
  "triple (\<lambda>a. a = (f sc, L)) k Q E \<Longrightarrow> triple (\<lambda>a. a = (sc, L)) (sthen (upd_scene f) k) Q E"
  by (rule triple_bind [of _ _ "\<lambda>_ a. a = (f sc, L)"]) (auto intro: triple_upd)

lemma triple_of_scene_bind:
  "triple (\<lambda>a. a = (sc, L)) (k (f sc)) Q E \<Longrightarrow> triple (\<lambda>a. a = (sc, L)) (sbind (of_scene f) k) Q E"
  unfolding triple_def by (auto simp: sbind_def of_scene_def absS_def)

lemmas at_rules = triple_jot_bind triple_upd_bind triple_of_scene_bind triple_ask_bind

lemma startProcess_at:
  "triple (\<lambda>a. a = (sc, P, F, D)) (startProcess args) (\<lambda>p a. a = (sc, insert p P, F, D)) (\<lambda>a. a = (sc, P, F, D))"
  unfolding startProcess_def
  by (intro triple_quiet_bind quiet_intros triple_jot_bind) (simp_all add: triple_ret)

lemma wait_proc_at:
  "triple (\<lambda>a. a = (sc, P, F, D)) (wait_proc p d) (\<lambda>_ a. a = (sc, P - {p}, F, D)) (\<lambda>a. a = (sc, P - {p}, F, D))"
proof -
  let ?E = "\<lambda>a. a = (sc, P - {p}, F, D)"
  have out: "triple ?E (sbind (ask_sum w_str (Output p)) (\<lambda>out. sfail (Errmsg (''process exit timeout: '' @ out)))) (\<lambda>_. ?E) ?E"
    by (intro triple_quiet_bind quiet_intros triple_fail) simp_all
  have drained: "triple ?E (if b then jot (Exited p) else sret ()) (\<lambda>_. ?E) ?E" for b
    by (cases b) (auto intro!: triple_jot triple_ret)
  have killed: "triple ?E (sbind (ask f (Drain p)) (\<lambda>b. sthen (if b then jot (Exited p) else sret ())
      (sbind (ask_sum w_str (Output p)) (\<lambda>out. sfail (Errmsg (''process exit timeout: '' @ out)))))) (\<lambda>_. ?E) ?E" for f
    by (rule triple_ask_bind [OF inert_Drain], rule triple_bind [OF drained out])
  have received: "triple ?E (case x of None \<Rightarrow> sret () | Some e \<Rightarrow> sfail e) (\<lambda>_. ?E) ?E" for x
    by (cases x) (auto intro!: triple_ret triple_fail)
  show ?thesis unfolding wait_proc_def
  proof (rule triple_ask_bind [OF inert_WaitProc], goal_cases)
    case (1 r)
    show ?case
    proof (cases r)
      case None
      show ?thesis unfolding None option.case
        unfolding signal_proc_def option.case by (rule triple_jot_bind, simp only: live_step.simps if_True simp_thms, rule killed)
    next
      case (Some x)
      show ?thesis unfolding Some option.case by (rule triple_jot_bind, unfold live_step.simps, rule received)
    qed
  qed
qed

lemma launch_server_step: "scene_step True c launch_server False c"
proof -
  have "triple (\<lambda>a. a = (sc, P, F, D)) launch_server (\<lambda>_. ok False c) (ok False False)" if o: "ok True c (sc, P, F, D)" for sc P F D
    unfolding launch_server_def
    by (rule triple_of_scene_bind, rule triple_bind [OF triple_attempt [OF startProcess_at]])
      (use o in \<open>auto split: sum.split intro!: triple_upd_bind triple_fail triple_upd\<close>)
  then show ?thesis unfolding scene_step_def by (rule triple_at)
qed

lemma launch_client_step: "scene_step b True launch_client b False"
proof -
  have "triple (\<lambda>a. a = (sc, P, F, D)) launch_client (\<lambda>_. ok b False) (ok False False)" if o: "ok b True (sc, P, F, D)" for sc P F D
    unfolding launch_client_def
    by (rule triple_of_scene_bind, rule triple_bind [OF triple_attempt [OF startProcess_at]])
      (use o in \<open>auto split: sum.split intro!: triple_upd_bind triple_fail triple_upd\<close>)
  then show ?thesis unfolding scene_step_def by (rule triple_at)
qed

lemma reap_server_at: "triple (ok b c) (reap_server d) (\<lambda>_. ok True c) E"
proof (rule triple_at)
  fix sc P F D assume o: "ok b c (sc, P, F, D)"
  show "triple (\<lambda>a. a = (sc, P, F, D)) (reap_server d) (\<lambda>_. ok True c) E"
    unfolding reap_server_def
    by (rule triple_of_scene_bind, cases "sn_server sc")
      (use o in \<open>auto split: sum.split_asm intro!: triple_ret triple_bind [OF triple_attempt [OF wait_proc_at]] triple_upd\<close>)
qed

lemma reap_client_at: "triple (ok b c) (reap_client d) (\<lambda>_. ok b True) E"
proof (rule triple_at)
  fix sc P F D assume o: "ok b c (sc, P, F, D)"
  show "triple (\<lambda>a. a = (sc, P, F, D)) (reap_client d) (\<lambda>_. ok b True) E"
    unfolding reap_client_def
    by (rule triple_of_scene_bind, cases "sn_client sc")
      (use o in \<open>auto split: sum.split_asm intro!: triple_ret triple_bind [OF triple_attempt [OF wait_proc_at]] triple_upd\<close>)
qed

lemma reap_steps: "scene_step b c (reap_server d) True c" "scene_step b c (reap_client d) b True"
  unfolding scene_step_def by (rule reap_server_at, rule reap_client_at)

subsection \<open>Services\<close>

lemma startFixture_at:
  "triple (\<lambda>a. a = (sc, P, F, D)) (startFixture mode adr) (\<lambda>f a. a = (sc, P, insert (fx_id f) F, D)) (\<lambda>a. a = (sc, P, F, D))"
  unfolding startFixture_def
  by (intro triple_quiet_bind quiet_intros triple_jot_bind triple_ret) simp_all

lemma put_entry_keys: "map fst (put_entry k v m) = (if k \<in> fst ` set m then map fst m else map fst m @ [k])"
  by (simp add: put_entry_def o_def split_def)

lemma put_entry_key_set: "fst ` set (put_entry k v m) = insert k (fst ` set m)"
  unfolding list.set_map [symmetric] put_entry_keys by auto

lemma put_entry_distinct: "distinct (map fst m) \<Longrightarrow> distinct (map fst (put_entry k v m))"
  by (simp add: put_entry_keys)

lemma put_entry_other: "(n, x) \<in> set m \<Longrightarrow> n \<noteq> k \<Longrightarrow> (n, x) \<in> set (put_entry k v m)"
  by (force simp: put_entry_def)

lemma put_entry_ids: "distinct (map fst m) \<Longrightarrow> (\<And>f. (k, f) \<in> set m \<Longrightarrow> fx_id f \<notin> F) \<Longrightarrow> F \<subseteq> fix_ids m \<Longrightarrow>
    insert (fx_id v) F \<subseteq> fix_ids (put_entry k v m)"
proof -
  assume k: "\<And>f. (k, f) \<in> set m \<Longrightarrow> fx_id f \<notin> F" and F: "F \<subseteq> fix_ids m"
  have "fx_id v \<in> fix_ids (put_entry k v m)"
    by (force simp: fix_ids_def put_entry_def)
  moreover have "y \<in> fix_ids (put_entry k v m)" if "y \<in> F" for y
  proof -
    have "y \<in> (\<lambda>x. fx_id (snd x)) ` set m" using F that unfolding fix_ids_def by (rule subsetD)
    then obtain n x where x: "(n, x) \<in> set m" "y = fx_id x" by force
    then have "n \<noteq> k" using k that by auto
    then show ?thesis using put_entry_other [OF x(1)] x(2) by (force simp: fix_ids_def)
  qed
  ultimately show ?thesis by blast
qed

lemma stop_done_live: "stop_done f h \<Longrightarrow> live h = (P, F, D) \<Longrightarrow> f \<notin> F"
proof -
  have "f \<notin> fst (snd (live h))" if "stop_done f h"
    using that
  proof (induction h rule: rev_induct)
    case (snoc a h)
    obtain P F D where "live h = (P, F, D)" by (metis surj_pair)
    with snoc show ?case by (cases a) (auto simp: stop_done_def split: if_splits)
  qed (simp add: stop_done_def)
  then show "stop_done f h \<Longrightarrow> live h = (P, F, D) \<Longrightarrow> f \<notin> F" by simp
qed

lemma fixture_close_at: "triple (\<lambda>a. a = (sc, P, F, D)) (fixture_close f) (\<lambda>_ a. a = (sc, P, F - {fx_id f}, D)) E"
proof -
  have once: "triple (\<lambda>a. a = (sc, P, F, D)) (sbind (of_hist (stop_done (fx_id f))) (\<lambda>b. if b then sret () else jot (FixClosed (fx_id f))))
      (\<lambda>_ a. a = (sc, P, F - {fx_id f}, D)) E"
    using stop_done_live [of "fx_id f" _ P F D] by (auto simp: triple_def script_defs of_hist_def absS_def)
  have "triple (\<lambda>a. a = (sc, P, F, D)) (each (\<lambda>c. jot (Dropped c)) cs) (\<lambda>_ a. a = (sc, P, F, D)) E" for F cs
    by (induction cs) (auto intro!: triple_ret triple_jot_bind)
  then show ?thesis unfolding fixture_close_def
    by (intro triple_bind [OF once], intro triple_ask_bind) simp_all
qed

lemma fixture_close_bind:
  "triple (\<lambda>a. a = (sc, P, F - {fx_id f}, D)) k Q E \<Longrightarrow> triple (\<lambda>a. a = (sc, P, F, D)) (sthen (fixture_close f) k) Q E"
  by (rule triple_bind [OF fixture_close_at])

text \<open>A service started under a name whose service, if any, is closed.\<close>

definition name_free :: "string \<Rightarrow> astate \<Rightarrow> bool" where
  "name_free n a \<longleftrightarrow> (case a of (sc, P, F, D) \<Rightarrow> \<forall>f. (n, f) \<in> set (sn_fixtures sc) \<longrightarrow> fx_id f \<notin> F)"

lemma service_started:
  assumes o: "ok b c (sc, P, F, D)" and n: "name_free name (sc, P, F, D)"
    and k: "\<And>f. triple (\<lambda>a. a = (sc\<lparr>sn_fixtures := put_entry name f (sn_fixtures sc)\<rparr>, P, insert (fx_id f) F, D)
        \<and> ok b c a) k Q (ok b c)"
  shows "triple (\<lambda>a. a = (sc, P, F, D)) (sbind (startFixture mode adr) (\<lambda>f. sthen (set_fixture name f) k)) Q (ok b c)"
proof (rule triple_bind)
  show "triple (\<lambda>a. a = (sc, P, F, D)) (startFixture mode adr) (\<lambda>f a. a = (sc, P, insert (fx_id f) F, D)) (ok b c)"
    by (rule triple_weaken [OF startFixture_at]) (use o in simp_all)
next
  fix f
  let ?sc = "sc\<lparr>sn_fixtures := put_entry name f (sn_fixtures sc)\<rparr>"
  have "ok b c (?sc, P, insert (fx_id f) F, D)"
    using o n put_entry_ids [of "sn_fixtures sc" name F f] put_entry_distinct [of "sn_fixtures sc" name f]
    by (simp add: name_free_def)
  then show "triple (\<lambda>a. a = (sc, P, insert (fx_id f) F, D)) (sthen (set_fixture name f) k) Q (ok b c)"
    unfolding set_fixture_def
    by (intro triple_upd_bind triple_weaken [OF k]) simp_all
qed

lemma keeps_set_public [keeps_intros]: "keeps (set_public name a)"
  unfolding set_public_def by (rule keeps_upd) simp

lemma set_public_free:
  "triple (\<lambda>a. ok b c a \<and> R (sn_fixtures (fst a)) (fst (snd (snd a)))) (sbind freeAddr (set_public name))
    (\<lambda>_ a. ok b c a \<and> R (sn_fixtures (fst a)) (fst (snd (snd a)))) (ok b c)"
  unfolding set_public_def
  by (intro triple_quiet_bind quiet_intros triple_upd) auto

text \<open>The services of a new scene: names not used yet.\<close>

lemma new_services_step: "distinct (map fst modes) \<Longrightarrow>
  triple (\<lambda>a. ok b c a \<and> fst ` set (sn_fixtures (fst a)) \<inter> fst ` set modes = {}) (new_services modes) (\<lambda>_. ok b c) (ok b c)"
  unfolding new_services_def
proof (induction modes)
  case Nil
  then show ?case by (simp add: triple_ret)
next
  case (Cons m modes)
  obtain name mode where m: "m = (name, mode)" by fastforce
  let ?R = "\<lambda>fs. fst ` set fs \<inter> fst ` set modes = {}"
  have "triple (\<lambda>a. ok b c a \<and> fst ` set (sn_fixtures (fst a)) \<inter> fst ` set (m # modes) = {})
      (sbind (startFixture mode []) (\<lambda>f. sthen (set_fixture name f) (sbind freeAddr (set_public name))))
      (\<lambda>_ a. ok b c a \<and> ?R (sn_fixtures (fst a))) (ok b c)"
  proof (rule triple_at)
    fix sc P F D assume a: "ok b c (sc, P, F, D) \<and> fst ` set (sn_fixtures (fst (sc, P, F, D))) \<inter> fst ` set (m # modes) = {}"
    have dj: "fst ` set (sn_fixtures sc) \<inter> fst ` set modes = {}" "name \<notin> fst ` set (sn_fixtures sc)"
      using conjunct2 [OF a] by (simp_all add: m)
    have n: "name_free name (sc, P, F, D)" using dj(2) by (force simp: name_free_def)
    show "triple (\<lambda>a. a = (sc, P, F, D)) (sbind (startFixture mode []) (\<lambda>f. sthen (set_fixture name f) (sbind freeAddr (set_public name))))
      (\<lambda>_ a. ok b c a \<and> ?R (sn_fixtures (fst a))) (ok b c)"
    proof (rule service_started [OF conjunct1 [OF a] n])
      fix f
      have "fst ` set (put_entry name f (sn_fixtures sc)) \<inter> fst ` set modes = {}"
        using dj Cons.prems by (simp add: m put_entry_key_set)
      then show "triple (\<lambda>a. a = (sc\<lparr>sn_fixtures := put_entry name f (sn_fixtures sc)\<rparr>, P, insert (fx_id f) F, D) \<and> ok b c a)
          (sbind freeAddr (set_public name)) (\<lambda>_ a. ok b c a \<and> ?R (sn_fixtures (fst a))) (ok b c)"
        by (intro triple_weaken [OF set_public_free [of b c "\<lambda>fs _. ?R fs"]]) (auto simp del: ok.simps)
    qed
  qed
  note first = this
  have "distinct (map fst modes)" using Cons.prems by simp
  from triple_bind [OF first Cons.IH [OF this]] show ?case by (simp add: m del: ok.simps)
qed

text \<open>The services renewed by \<open>start\<close>: each is closed before its successor takes its name.\<close>

lemma renew_loop: "distinct (map fst xs) \<Longrightarrow>
  triple (\<lambda>a. ok b c a \<and> set xs \<subseteq> set (sn_fixtures (fst a)))
    (each renew_service xs) (\<lambda>_. ok b c) (ok b c)"
proof (induction xs)
  case Nil
  then show ?case by (simp add: triple_ret)
next
  case (Cons x xs)
  obtain name f where x: "x = (name, f)" by fastforce
  have "triple (\<lambda>a. ok b c a \<and> set (x # xs) \<subseteq> set (sn_fixtures (fst a))) (renew_service x)
      (\<lambda>_ a. ok b c a \<and> set xs \<subseteq> set (sn_fixtures (fst a))) (ok b c)"
  proof (rule triple_at)
    fix sc P F D assume "ok b c (sc, P, F, D) \<and> set (x # xs) \<subseteq> set (sn_fixtures (fst (sc, P, F, D)))"
    then have o: "ok b c (sc, P, F, D)" and sub: "(name, f) \<in> set (sn_fixtures sc)" "set xs \<subseteq> set (sn_fixtures sc)"
      by (auto simp: x)
    have o': "ok b c (sc, P, F - {fx_id f}, D)" using o by auto
    have "g = f" if "(name, g) \<in> set (sn_fixtures sc)" for g
      using o sub(1) that by (auto dest: eq_key_imp_eq_value)
    then have n: "name_free name (sc, P, F - {fx_id f}, D)" by (auto simp: name_free_def)
    have s: "set xs \<subseteq> set (put_entry name g (sn_fixtures sc))" for g
    proof
      fix y assume y: "y \<in> set xs"
      then have "fst y \<noteq> name" using Cons.prems by (auto simp: x)
      then show "y \<in> set (put_entry name g (sn_fixtures sc))"
        using put_entry_other [of "fst y" "snd y"] sub(2) y by auto
    qed
    show "triple (\<lambda>a. a = (sc, P, F, D)) (renew_service x)
      (\<lambda>_ a. ok b c a \<and> set xs \<subseteq> set (sn_fixtures (fst a))) (ok b c)"
      unfolding x renew_service_def prod.case
    proof (rule fixture_close_bind, rule service_started [OF o' n])
      fix g
      show "triple (\<lambda>a. a = (sc\<lparr>sn_fixtures := put_entry name g (sn_fixtures sc)\<rparr>, P, insert (fx_id g) (F - {fx_id f}), D) \<and> ok b c a)
          (sbind freeAddr (set_public name)) (\<lambda>_ a. ok b c a \<and> set xs \<subseteq> set (sn_fixtures (fst a))) (ok b c)"
        by (intro triple_weaken [OF set_public_free [of b c "\<lambda>fs _. set xs \<subseteq> set fs"]]) (use s [of g] in \<open>auto simp del: ok.simps\<close>)
    qed
  qed
  note first = this
  have "distinct (map fst xs)" using Cons.prems by simp
  from triple_bind [OF first Cons.IH [OF this]] show ?case by (simp add: x del: ok.simps)
qed

lemma keeps_addrs [keeps_intros]: "keeps allocateAddrs"
  unfolding allocateAddrs_def by (intro keeps_intros quiet_intros) simp_all

lemma renew_services_step: "scene_step True c (sbind (of_scene sn_fixtures) (each renew_service)) True c"
  unfolding scene_step_def
proof (rule triple_at, rule triple_of_scene_bind)
  fix sc P F D assume o: "ok True c (sc, P, F, D)"
  then have d: "distinct (map fst (sn_fixtures sc))" by simp
  show "triple (\<lambda>a. a = (sc, P, F, D)) (each renew_service (sn_fixtures sc)) (\<lambda>_. ok True c) (ok False False)"
    by (rule triple_weaken [OF renew_loop [OF d, of True c]]) (use o ok_own in \<open>auto simp del: ok.simps\<close>)
qed

lemma renew_scene_step: "scene_step False False renew_scene True True"
  unfolding renew_scene_def
  by (rule step_bind [OF reap_steps(1)], rule step_bind [OF renew_services_step], rule step_bind [OF reap_steps(2)],
      rule step_keeps_bind [OF keeps_addrs], rule keeps_step, rule keeps_quiet, rule quiet_scene)

subsection \<open>Closing a scene\<close>

lemma close_all: "triple (\<lambda>a. a = (sc, P, F, D)) (each (\<lambda>(name, f). fixture_close f) xs) (\<lambda>_ a. a = (sc, P, F - fix_ids xs, D)) E"
proof (induction xs arbitrary: F)
  case Nil
  then show ?case by (simp add: triple_ret fix_ids_def)
next
  case (Cons x xs)
  obtain name f where x: "x = (name, f)" by fastforce
  have "F - {fx_id f} - fix_ids xs = F - fix_ids (x # xs)" by (auto simp: x fix_ids_def)
  moreover have "triple (\<lambda>a. a = (sc, P, F - {fx_id f}, D)) (each (\<lambda>(name, f). fixture_close f) xs)
      (\<lambda>_ a. a = (sc, P, F - {fx_id f} - fix_ids xs, D)) E"
    using Cons.IH [of "F - {fx_id f}"] by simp
  ultimately show ?case unfolding x each.simps prod.case by (intro fixture_close_bind) simp
qed

fun no_services :: "astate \<Rightarrow> bool" where
  "no_services (sc, P, F, D) \<longleftrightarrow> F = {}"

lemma reap_keeps_services:
  "triple (\<lambda>a. a = (sc, P, {}, D)) (sthen (attempt (wait_proc x d)) (upd_scene f)) (\<lambda>_. no_services) E"
  by (rule triple_bind [OF triple_attempt [OF wait_proc_at]], rule triple_upd) (auto split: sum.split_asm)

lemma reap_services:
  "triple no_services (reap_server d) (\<lambda>_. no_services) E" "triple no_services (reap_client d) (\<lambda>_. no_services) E"
proof -
  have case_p: "triple (\<lambda>a. a = (sc, P, F, D)) (case q of None \<Rightarrow> sret ()
     | Some x \<Rightarrow> sthen (attempt (wait_proc x d)) (upd_scene f)) (\<lambda>_. no_services) E" if "F = {}" for sc P F D q f
  proof (cases q)
    case None
    show ?thesis unfolding None option.case by (rule triple_ret) (simp add: that)
  next
    case (Some x)
    show ?thesis unfolding Some option.case that by (rule reap_keeps_services)
  qed
  show "triple no_services (reap_server d) (\<lambda>_. no_services) E"
    unfolding reap_server_def by (rule triple_at, rule triple_of_scene_bind, rule case_p) simp
  show "triple no_services (reap_client d) (\<lambda>_. no_services) E"
    unfolding reap_client_def by (rule triple_at, rule triple_of_scene_bind, rule case_p) simp
qed

lemma triple_both: "triple P m Q E \<Longrightarrow> triple P' m Q' E \<Longrightarrow> triple (\<lambda>a. P a \<and> P' a) m (\<lambda>x a. Q x a \<and> Q' x a) E"
  unfolding triple_def by blast

lemma scene_close_cleans: "triple (ok False False) scene_close (\<lambda>_. clean) clean"
proof -
  have no_fix: "triple (ok False False) close_services (\<lambda>_ a. ok False False a \<and> no_services a) clean"
    unfolding close_services_def
    by (rule triple_at, rule triple_of_scene_bind, rule triple_weaken [OF close_all]) auto
  have last: "triple (\<lambda>a. ok True True a \<and> no_services a)
      (sbind (of_scene sn_dir) (\<lambda>d. if d \<noteq> [] then jot (RemoveAll d) else sret ())) (\<lambda>_. clean) clean"
    by (rule triple_at, rule triple_of_scene_bind) (auto intro!: triple_jot triple_ret simp: clean_def)
  have sig: "triple (ok False False) (sbind (of_scene g) (\<lambda>p. signal_proc p ''TERM'')) (\<lambda>_. ok False False) clean" for g
  proof (rule triple_bind [OF triple_of_scene [where Q = "\<lambda>_. ok False False"]])
    show "triple (ok False False) (signal_proc p ''TERM'') (\<lambda>_. ok False False) clean" for p
      unfolding signal_proc_def by (cases p) (auto simp del: ok.simps intro!: triple_ret triple_jot)
  qed
  show ?thesis unfolding scene_close_def
    by (rule triple_bind [OF sig], rule triple_bind [OF sig], rule triple_bind [OF no_fix],
      rule triple_bind [OF triple_both [OF reap_client_at reap_services(2)]],
      rule triple_bind [OF triple_both [OF reap_server_at reap_services(1)]], rule last)
qed

subsection \<open>A new scene\<close>

lemma newScene_fill:
  "scene_step b c
    (sthen allocateAddrs
       (sbind (ask_sum w_str (Random 24)) (\<lambda>password.
       sthen (upd_scene (\<lambda>s. s\<lparr>sn_metricsUser := ''prom'', sn_metricsPass := password\<rparr>))
       (sbind generateKey (\<lambda>k1. sthen (upd_scene (\<lambda>s. s\<lparr>sn_serverKey := k1\<rparr>))
       (sbind generateKey (\<lambda>k2. sthen (upd_scene (\<lambda>s. s\<lparr>sn_clientKey := k2\<rparr>))
       (sbind (ask_sum w_str (Random 48)) (\<lambda>token.
       sthen (upd_scene (\<lambda>s. s\<lparr>sn_token := token\<rparr>))
       (sthen (if kind = ''wss'' then createCertificate dir else sret ())
       (sthen (upd_scene (\<lambda>s. s\<lparr>sn_serverFile := dir @ ''/server.toml'', sn_clientFile := dir @ ''/client.toml''\<rparr>))
         (writeConfigs [] [] [])))))))))))) b c"
  by (rule keeps_step, rule keeps_bind [OF keeps_addrs])
    (intro keeps_bind [OF keeps_quiet] keeps_bind [OF keeps_upd] keeps_quiet [OF quiet_scene(1)] quiet_intros; simp)

lemma newScene_step:
  assumes "distinct (map fst modes)"
  shows "triple clean (newScene kind pool timeout modes) (\<lambda>_. ok True True) clean"
proof -
  let ?sc = "empty_scene kind pool timeout"
  let ?fresh = "\<lambda>a. ok True True a \<and> fst ` set (sn_fixtures (fst a)) \<inter> fst ` set modes = {}"
  have "triple ?fresh (new_services modes) (\<lambda>_. ok True True) (ok False False)"
    by (rule triple_weaken [OF new_services_step [OF assms]]) (assumption, assumption, erule ok_own)
  note fill = triple_bind [OF this newScene_fill [unfolded scene_step_def]]
  have cleanup: "triple (ok False False) (sthen scene_close (sret e)) (\<lambda>_. clean) clean" for e :: error
    by (rule triple_bind [OF scene_close_cleans triple_ret])
  have init: "triple clean (upd_scene (\<lambda>_. ?sc)) (\<lambda>_ a. a = (?sc, {}, {}, {})) clean"
    by (rule triple_upd) (simp add: clean_def)
  show ?thesis unfolding newScene_def Let_def
  proof (rule triple_bind [OF init], rule triple_quiet_bind [OF quiet_basic(3)], goal_cases)
    case (2 tmp)
    show ?case
    proof (rule triple_quiet_bind [OF quiet_ask(1) [OF inert_MkdirTemp]], goal_cases)
      case (2 x)
      show ?case by (rule triple_jot_bind, rule triple_upd_bind, rule triple_weaken [OF triple_on_error [OF fill cleanup]])
          (auto simp: empty_scene_def)
    qed (simp add: clean_def)
  qed (simp add: clean_def)
qed

subsection \<open>Starting, stopping and restarting\<close>

lemma quiet_await: "quiet (with_server (\<lambda>p. ask_err (Await p d f)))"
  by (intro quiet_intros) simp

lemma startOnce_step: "scene_step True True startOnce False False"
  unfolding startOnce_def
  by (rule step_bind [OF launch_server_step], rule step_keeps_bind [OF keeps_quiet [OF quiet_basic(4)]],
      rule step_keeps_bind [OF keeps_quiet [OF quiet_each [OF quiet_await]]], rule step_bind [OF launch_client_step],
      rule keeps_step, rule keeps_quiet, intro quiet_intros; simp)

lemma step_attempt:
  assumes m: "scene_step b c m b' c'" and f: "\<And>e. scene_step False False (f e) b2 c2" and g: "\<And>x. scene_step b' c' (g x) b2 c2"
  shows "scene_step b c (sbind (attempt m) (\<lambda>r. case r of Inl e \<Rightarrow> f e | Inr x \<Rightarrow> g x)) b2 c2"
  unfolding scene_step_def
proof (rule triple_bind [OF triple_attempt [OF m [unfolded scene_step_def]]])
  fix r
  show "triple (case r of Inl e \<Rightarrow> ok False False | Inr x \<Rightarrow> ok b' c') (case r of Inl e \<Rightarrow> f e | Inr x \<Rightarrow> g x)
      (\<lambda>_. ok b2 c2) (ok False False)"
    by (cases r) (simp_all add: f [unfolded scene_step_def] g [unfolded scene_step_def])
qed

lemma keeps_ret: "scene_step b c (sret x) b c"
  by (rule keeps_step [OF keeps_quiet [OF quiet_basic(1)]])

lemma start_attempts_step: "scene_step True True (start_attempts n) False False"
proof (induction n)
  case (Suc n)
  show ?case unfolding start_attempts.simps
  proof (rule step_attempt [OF startOnce_step _ keeps_ret], rule step_keeps_bind [OF keeps_quiet [OF quiet_basic(3)]])
    fix e :: error and tx :: "error \<Rightarrow> string"
    show "scene_step False False (if \<not> contains ''address already in use'' (tx e) \<or> n = 0 then sfail e
        else sthen renew_scene (start_attempts n)) False False"
      by (simp add: step_fail step_bind [OF renew_scene_step Suc.IH])
  qed
qed (simp add: step_fail)

lemma scene_start_step: "scene_step True True scene_start False False"
  unfolding scene_start_def by (rule start_attempts_step)

lemma restartServer_step: "scene_step True c restartServer False c"
  unfolding restartServer_def
  by (rule step_bind [OF launch_server_step], rule keeps_step, rule keeps_quiet, rule quiet_await)

text \<open>The steps that end a process.\<close>

lemma stopped_server: "scene_step False c (with_server (\<lambda>p. sthen (jot (Signalled p sig)) (attempt (wait_proc p d)))) True c"
proof -
  have "triple (\<lambda>a. a = (sc, P, F, D)) (case sn_server sc of None \<Rightarrow> sfail (Errmsg ''nil process'')
      | Some p \<Rightarrow> sthen (jot (Signalled p sig)) (attempt (wait_proc p d))) (\<lambda>_. ok True c) (ok False False)"
    if o: "ok False c (sc, P, F, D)" for sc P F D
  proof (cases "sn_server sc")
    case None
    show ?thesis unfolding None option.case by (rule triple_fail) (use ok_own [OF o] in \<open>simp del: ok.simps\<close>)
  next
    case (Some p)
    show ?thesis unfolding Some option.case
      by (rule triple_jot_bind, rule triple_weaken [OF triple_attempt [OF wait_proc_at]])
        (use o Some in \<open>auto split: sum.split_asm if_splits\<close>)
  qed
  then show ?thesis unfolding scene_step_def with_server_def by (blast intro: triple_at triple_of_scene_bind)
qed

lemma wait_then:
  assumes "ok b' c' (f sc, P - {p}, F, D)" and "ok False False (sc, P - {p}, F, D)"
  shows "triple (\<lambda>a. a = (sc, P, F, D)) (sthen (jot (Signalled p sig)) (sthen (wait_proc p d) (upd_scene f)))
    (\<lambda>_. ok b' c') (ok False False)"
proof (rule triple_jot_bind)
  obtain P' where P': "live_step (Signalled p sig) (P, F, D) = (P', F, D)" "P' - {p} = P - {p}" by auto
  show "triple (\<lambda>a. a = (sc, live_step (Signalled p sig) (P, F, D))) (sthen (wait_proc p d) (upd_scene f)) (\<lambda>_. ok b' c') (ok False False)"
    unfolding P'(1)
    by (rule triple_bind [OF triple_weaken [OF wait_proc_at [of sc P' F D p d]]], assumption, assumption)
      (use assms P'(2) in \<open>auto intro!: triple_upd\<close>)
qed

lemma end_client:
  assumes "ok b c (sc, P, F, D)" and "sn_client sc = Some p"
  shows "triple (\<lambda>a. a = (sc, P, F, D)) (sthen (jot (Signalled p sig)) (sthen (wait_proc p d) (upd_scene (\<lambda>s. s\<lparr>sn_client := None\<rparr>))))
    (\<lambda>_. ok b True) (ok False False)"
  by (rule wait_then) (use assms in auto)

lemma end_server:
  assumes "ok b c (sc, P, F, D)" and "sn_server sc = Some p"
  shows "triple (\<lambda>a. a = (sc, P, F, D)) (sthen (jot (Signalled p sig)) (sthen (wait_proc p d) (upd_scene (\<lambda>s. s\<lparr>sn_server := None\<rparr>))))
    (\<lambda>_. ok True c) (ok False False)"
  by (rule wait_then) (use assms in auto)

lemma stopClient_step: "scene_step b c stopClient b True"
  unfolding stopClient_def
proof (rule step_bind [OF _ keeps_step [OF keeps_quiet [OF quiet_await]]], unfold scene_step_def with_client_def,
    rule triple_at, rule triple_of_scene_bind)
  fix sc P F D assume o: "ok b c (sc, P, F, D)"
  show "triple (\<lambda>a. a = (sc, P, F, D)) (case sn_client sc of None \<Rightarrow> sfail (Errmsg ''nil process'')
      | Some p \<Rightarrow> sthen (jot (Signalled p ''TERM'')) (sthen (wait_proc p (5 * second)) (upd_scene (\<lambda>s. s\<lparr>sn_client := None\<rparr>))))
      (\<lambda>_. ok b True) (ok False False)"
  proof (cases "sn_client sc")
    case None
    show ?thesis unfolding None option.case by (rule triple_fail) (use ok_own [OF o] in \<open>simp del: ok.simps\<close>)
  next
    case (Some p)
    show ?thesis unfolding Some option.case by (rule end_client [OF o Some])
  qed
qed

lemma restartClient_step: "scene_step b True restartClient b False"
  unfolding restartClient_def
  by (rule step_keeps_bind [OF keeps_quiet [OF quiet_basic(4)]],
      rule step_keeps_bind [OF keeps_quiet [OF quiet_with(1) [OF quiet_scene(4)]]], rule step_bind [OF launch_client_step],
      rule keeps_step, rule keeps_quiet, rule quiet_each, unfold split_def, rule quiet_await)

lemma stopIdle_step: "scene_step b c stopIdle True True"
proof -
  have client: "scene_step b c (sbind (of_scene sn_client) (\<lambda>p. case p of None \<Rightarrow> sret ()
       | Some x \<Rightarrow> sthen (jot (Signalled x ''TERM'')) (sthen (wait_proc x (3 * second)) (upd_scene (\<lambda>s. s\<lparr>sn_client := None\<rparr>))))) b True"
    unfolding scene_step_def
  proof (rule triple_at, rule triple_of_scene_bind, goal_cases)
    case (1 sc P F D)
    then show ?case by (cases "sn_client sc") (auto simp del: ok.simps intro!: end_client triple_ret, simp)
  qed
  have server: "scene_step b True (sbind (of_scene sn_server) (\<lambda>p. case p of None \<Rightarrow> sret ()
       | Some x \<Rightarrow> sthen (jot (Signalled x ''TERM'')) (sthen (wait_proc x (3 * second)) (upd_scene (\<lambda>s. s\<lparr>sn_server := None\<rparr>))))) True True"
    unfolding scene_step_def
  proof (rule triple_at, rule triple_of_scene_bind, goal_cases)
    case (1 sc P F D)
    then show ?case by (cases "sn_server sc") (auto simp del: ok.simps intro!: end_server triple_ret, simp)
  qed
  show ?thesis unfolding stopIdle_def by (rule step_bind [OF client server])
qed

end
