(* ===== verification/Smoke_Run.thy ===== *)
theory Smoke_Run
  imports Smoke_Scenarios Smoke_Leaks
begin

text \<open>
  The whole smoke test leaves nothing behind: every process it started has exited or was killed, every
  service closed and every directory removed, as far as the operating system does so, whatever fails. And its exit code is 0 exactly if it printed all of its
  PASS lines.
\<close>

subsection \<open>Visitors\<close>

lemma triple_deferred_quiet: "triple P m Q E \<Longrightarrow> quiet f \<Longrightarrow> triple P (deferred m f) Q E"
  unfolding triple_def quiet_def deferred_def by (auto split: prod.splits)

lemma quiet_deferred [quiet_intros]: "quiet m \<Longrightarrow> quiet f \<Longrightarrow> quiet (deferred m f)"
  unfolding quiet_def deferred_def by (auto split: prod.splits) (metis snd_conv)

lemma quiet_visiting [quiet_intros]: "(\<And>c. quiet (k c)) \<Longrightarrow> quiet (visiting name k)"
  unfolding visiting_def by (intro quiet_intros) simp_all

lemma quiet_visitors [quiet_intros]:
  "quiet (pass kind name)" "quiet (scene_echo name data)" "quiet (scene_digest data)" "quiet (read_close name)"
  "quiet (await_log d cond)" "quiet server_log" "quiet (scene_finished name n)"
  unfolding pass_def scene_echo_def scene_digest_def read_close_def await_log_def server_log_def scene_finished_def
  by (intro quiet_intros; simp)+

lemma quiet_with_fixture [quiet_intros]: "(\<And>f. quiet (k f)) \<Longrightarrow> quiet (with_fixture name k)"
  unfolding with_fixture_def by (intro quiet_intros)

lemma quiet_reuse [quiet_intros]: "quiet (scene_reuse name n)"
  unfolding scene_reuse_def by (intro quiet_intros) simp

lemma quiet_arrival [quiet_intros]: "quiet (next_arrival name d)"
  unfolding next_arrival_def by (intro quiet_intros)

lemma quiet_hold [quiet_intros]: "quiet scene_hold" "quiet (hold_release v)"
  unfolding scene_hold_def hold_release_def split_def by (intro quiet_intros; simp)+

lemma quiet_hold_visitors [quiet_intros]: "(\<And>vs. quiet (k vs)) \<Longrightarrow> quiet (hold_visitors n vs k)"
proof (induction n arbitrary: vs)
  case (Suc n)
  show ?case unfolding hold_visitors.simps
    by (intro quiet_visiting quiet_bind quiet_wrapped quiet_arrival Suc.IH Suc.prems)
qed simp

lemma step_visiting: "(\<And>x. scene_step b c (k x) b' c') \<Longrightarrow> scene_step b c (visiting name k) b' c'"
  unfolding visiting_def
  by (rule step_keeps_bind [OF keeps_quiet [OF quiet_scene(2)]], unfold scene_step_def, rule triple_deferred_quiet)
    (simp_all add: quiet_basic)

subsection \<open>The scenarios\<close>

lemma step_quiet: "quiet m \<Longrightarrow> scene_step b c m b c"
  by (rule keeps_step [OF keeps_quiet])

lemma step_quiet_bind: "quiet m \<Longrightarrow> (\<And>x. scene_step b c (k x) b' c') \<Longrightarrow> scene_step b c (sbind m k) b' c'"
  by (rule step_keeps_bind [OF keeps_quiet])

lemma basic_quiet [quiet_intros]:
  "quiet (small_message kind)" "quiet (half_close kind)" "quiet (serial_reuse kind)" "quiet (service_isolation kind)"
  unfolding small_message_def half_close_def serial_reuse_def service_isolation_def
  by (intro quiet_intros; simp)+

lemma acquire_timeout_step: "scene_step b c (acquire_timeout kind) b False"
  unfolding acquire_timeout_def
  by (rule step_bind [OF stopClient_step])
    (intro step_quiet_bind step_bind [OF restartClient_step] step_quiet quiet_intros; simp)

lemma local_dial_failure_step: "scene_step b c (local_dial_failure kind) b c"
  unfolding local_dial_failure_def with_fixture_def scene_step_def
proof (rule triple_at, rule triple_of_scene_bind)
  fix sc P F D assume o: "ok b c (sc, P, F, D)"
  show "triple (\<lambda>a. a = (sc, P, F, D))
    (case map_of (sn_fixtures sc) ''flaky'' of None \<Rightarrow> sfail (Errmsg ''nil fixture'')
     | Some old \<Rightarrow> sthen (fixture_close old) (sthen (read_close ''flaky'')
         (sbind (startFixture ''echo'' (fx_addr old)) (\<lambda>f. sthen (set_fixture ''flaky'' f)
         (sthen (scene_echo ''flaky'' (ascii ''restored'')) (sthen (scene_reuse ''flaky'' 2) (pass kind ''local-dial-failure'')))))))
    (\<lambda>_. ok b c) (ok False False)"
  proof (cases "map_of (sn_fixtures sc) ''flaky''")
    case None
    show ?thesis unfolding None option.case by (rule triple_fail) (use ok_own [OF o] in \<open>simp del: ok.simps\<close>)
  next
    case (Some old)
    let ?F = "F - {fx_id old}"
    have o': "ok b c (sc, P, ?F, D)" using o by auto
    have "g = old" if "(''flaky'', g) \<in> set (sn_fixtures sc)" for g
      using o Some that by (auto simp: map_of_is_SomeI)
    then have n: "name_free ''flaky'' (sc, P, ?F, D)" by (auto simp: name_free_def)
    have rest: "triple (\<lambda>a. a = x \<and> ok b c a) (sthen (scene_echo ''flaky'' (ascii ''restored''))
        (sthen (scene_reuse ''flaky'' 2) (pass kind ''local-dial-failure''))) (\<lambda>_. ok b c) (ok b c)" for x
      by (rule triple_weaken [OF triple_quiet [of _ "ok b c"]]) (intro quiet_intros | simp del: ok.simps)+
    show ?thesis unfolding Some option.case
      by (rule fixture_close_bind, rule triple_quiet_bind [OF quiet_visitors(4)])
        (use ok_own [OF o'] in \<open>auto simp del: ok.simps intro!: triple_weaken [OF service_started [OF o' n rest]] ok_own\<close>)
  qed
qed

lemma kill_server_step: "scene_step False c kill_server True c"
  unfolding kill_server_def
  by (rule stopped_server)

lemma server_restart_step: "scene_step False c (server_restart kind) True True"
  unfolding server_restart_def
  by (rule step_visiting, rule step_quiet_bind [OF quiet_arrival], rule step_bind [OF kill_server_step])
    (intro step_quiet_bind step_bind [OF restartServer_step] step_bind [OF stopIdle_step] step_quiet quiet_intros; simp)

lemma keeps_fixture_close [keeps_intros]: "keeps (fixture_close f)"
proof -
  have "triple (ok b c) (fixture_close f) (\<lambda>_. ok b c) (ok b c)" for b c
    by (rule triple_at, rule triple_weaken [OF fixture_close_at]) auto
  then show ?thesis by (simp add: keeps_def)
qed

lemma keeps_with_fixture [keeps_intros]: "(\<And>f. keeps (k f)) \<Longrightarrow> keeps (with_fixture name k)"
  unfolding with_fixture_def
  by (rule keeps_bind [OF keeps_quiet [OF quiet_basic(4)]], rule keeps_case(2) [OF keeps_quiet [OF quiet_basic(2)]])

definition tidy :: "'a script \<Rightarrow> bool" where
  "tidy m \<longleftrightarrow> triple clean m (\<lambda>_. clean) clean"

lemma tidy_in_scene:
  assumes "distinct (map fst modes)" and b: "scene_step True True body b c"
  shows "tidy (in_scene kind pool timeout modes body)"
  unfolding tidy_def in_scene_def
proof (rule triple_bind [OF newScene_step [OF assms(1)]], rule triple_deferred [where R = "ok False False"])
  show "triple (ok True True) body (\<lambda>_. ok False False) (ok False False)"
    using step_weaken [OF b] by (simp add: scene_step_def)
  show "triple (ok False False) scene_close (\<lambda>_. clean) clean" by (rule scene_close_cleans)
qed

lemma tidy_bind: "tidy m \<Longrightarrow> (\<And>x. tidy (k x)) \<Longrightarrow> tidy (sbind m k)"
  unfolding tidy_def by (rule triple_bind)

lemma tidy_quiet: "quiet m \<Longrightarrow> tidy m"
  unfolding tidy_def by (rule triple_quiet)

lemma tidy_wrapped: "tidy m \<Longrightarrow> tidy (wrapped s m)"
  unfolding tidy_def wrapped_def by (erule triple_on_error) (rule triple_ret)

lemma tidy_each: "(\<And>x. tidy (f x)) \<Longrightarrow> tidy (each f xs)"
  by (induction xs) (simp_all add: tidy_bind tidy_quiet quiet_basic)

lemma basic_tidy: "tidy (basicScenarios kind)"
  unfolding basicScenarios_def
  by (rule tidy_in_scene, simp add: basic_modes_def, rule step_bind [OF scene_start_step],
      rule step_quiet_bind [OF basic_quiet(1)], rule step_quiet_bind [OF basic_quiet(2)], rule step_quiet_bind [OF basic_quiet(3)],
      rule step_bind [OF acquire_timeout_step], rule step_quiet_bind [OF basic_quiet(4)], rule step_bind [OF local_dial_failure_step],
      rule server_restart_step)

lemma growth_tidy: "tidy (poolGrowth kind)"
  unfolding poolGrowth_def
  by (rule tidy_in_scene, simp, rule step_bind [OF scene_start_step], rule step_quiet) (intro quiet_intros; simp)

lemma idle_tidy: "tidy (idleExpiry kind)"
  unfolding idleExpiry_def
  by (rule tidy_in_scene, simp, rule step_bind [OF scene_start_step], rule step_quiet) (intro quiet_intros; simp)

lemma lifetime_tidy: "tidy (maxLifetime kind)"
  unfolding maxLifetime_def
  by (rule tidy_in_scene, simp, rule step_bind [OF scene_start_step], rule step_quiet) (intro quiet_intros; simp)

lemma quiet_rename [quiet_intros]: "quiet rename_service"
  unfolding rename_service_def Let_def by (intro quiet_intros; simp)

lemma variant_tidy: "tidy (authenticationVariant kind variant)"
  unfolding authenticationVariant_def
  by (rule tidy_in_scene, simp, rule step_quiet_bind, (intro quiet_intros; simp),
      rule step_quiet_bind, (intro quiet_intros; simp), rule step_quiet_bind [OF quiet_scene(1)],
      rule step_quiet_bind, (intro quiet_intros; simp), rule step_bind [OF launch_server_step],
      rule step_quiet_bind [OF quiet_visitors(5)], rule step_bind [OF launch_client_step], rule step_quiet)
    (intro quiet_intros; simp)

lemma attempts_tidy: "tidy (variant_attempts kind variant n)"
proof (induction n)
  case 0
  show ?case by (simp add: tidy_quiet quiet_basic)
next
  case (Suc n)
  have t: "triple clean (attempt (authenticationVariant kind variant)) (\<lambda>_. clean) clean"
    by (rule triple_weaken [OF triple_attempt [OF variant_tidy [unfolded tidy_def]]]) (auto split: sum.split_asm)
  show ?case unfolding variant_attempts.simps
  proof (rule tidy_bind [OF t [folded tidy_def]])
    fix r :: "error + unit"
    show "tidy (case r of Inr _ \<Rightarrow> sret () | Inl e \<Rightarrow> sbind (in_world w_text) (\<lambda>tx.
       if \<not> contains ''address already in use'' (tx e) \<or> n = 0 then sfail e else variant_attempts kind variant n))"
    proof (cases r)
      case (Inl e)
      show ?thesis unfolding Inl sum.case
        by (rule tidy_bind [OF tidy_quiet [OF quiet_basic(3)]]) (simp add: Suc.IH tidy_quiet quiet_basic)
    qed (simp add: tidy_quiet quiet_basic)
  qed
qed

lemma authentication_tidy: "tidy (authentication kind)"
  unfolding authentication_def by (rule tidy_each [OF attempts_tidy])

lemma shutdown_lease_step: "scene_step True True (shutdown_lease hung) True False"
proof -
  have wait: "scene_step False c (sthen (with_server (\<lambda>p. wait_proc p d)) (sthen (upd_scene (\<lambda>s. s\<lparr>sn_server := None\<rparr>)) k)) True c"
    if "quiet k" for c d and k :: "nat script"
    unfolding scene_step_def
  proof (rule triple_at)
    fix sc P F D assume o: "ok False c (sc, P, F, D)"
    let ?k = "sthen (upd_scene (\<lambda>s. s\<lparr>sn_server := None\<rparr>)) k"
    have rest: "triple (\<lambda>a. a = (sc, P - {p}, F, D)) ?k (\<lambda>_. ok True c) (ok False False)" if "sn_server sc = Some p" for p
    proof (rule triple_upd_bind, rule triple_weaken [OF triple_quiet [OF \<open>quiet k\<close>, of "ok True c"]])
      show "ok True c a" if "a = (sc\<lparr>sn_server := None\<rparr>, P - {p}, F, D)" for a
        using o that \<open>sn_server sc = Some p\<close> by auto
    qed (assumption, erule ok_own)
    show "triple (\<lambda>a. a = (sc, P, F, D)) (sthen (with_server (\<lambda>p. wait_proc p d)) ?k) (\<lambda>_. ok True c) (ok False False)"
    proof (cases "sn_server sc")
      case None
      show ?thesis unfolding with_server_def
        by (rule triple_bind [where R = "\<lambda>_ _. False"], rule triple_of_scene_bind, unfold None option.case, rule triple_fail)
          (use ok_own [OF o] in \<open>simp_all del: ok.simps add: triple_def\<close>)
    next
      case (Some p)
      have "ok False False (sc, P - {p}, F, D)" using o by auto
      then show ?thesis unfolding with_server_def
        by (intro triple_bind [OF _ rest [OF Some]] triple_of_scene_bind)
          (unfold Some option.case, rule triple_weaken [OF wait_proc_at], auto simp del: ok.simps)
    qed
  qed
  show ?thesis unfolding shutdown_lease_def
    by (rule step_bind [OF scene_start_step], rule step_quiet_bind [OF quiet_scene(2)], rule step_quiet_bind [OF quiet_arrival],
        rule step_quiet_bind, (intro quiet_intros; simp), rule step_quiet_bind, (intro quiet_intros; simp),
        rule step_quiet_bind, (intro quiet_intros; simp), rule wait) (intro quiet_intros; simp)
qed

lemma shutdown_tidy: "tidy (shutdownScenarios kind)"
  unfolding shutdownScenarios_def
proof (rule tidy_each, unfold shutdown_turn_def tidy_def, rule triple_bind [OF newScene_step], simp)
  fix hung
  have close: "triple (ok False False) (sthen scene_close (sret e)) (\<lambda>_. clean) clean" for e :: error
    by (rule triple_bind [OF scene_close_cleans triple_ret])
  have lease: "triple (ok True True) (on_error (\<lambda>e. sthen scene_close (sret e)) (shutdown_lease hung)) (\<lambda>_. ok False False) clean"
    by (rule triple_on_error [OF step_weaken [OF shutdown_lease_step, unfolded scene_step_def] close])
  show "triple (ok True True) (sbind (on_error (\<lambda>e. sthen scene_close (sret e)) (shutdown_lease hung))
      (\<lambda>c. sthen (jot (Visit c VClose)) scene_close)) (\<lambda>_. clean) clean"
    by (rule triple_bind [OF lease], rule triple_bind [OF _ scene_close_cleans], rule triple_jot) simp
qed

lemma quiet_metrics [quiet_intros]: "quiet (scene_metrics a exps)"
  unfolding scene_metrics_def split_def
  by (rule quiet_bind [OF quiet_basic(6)]) (auto split: option.split sum.split intro!: quiet_basic)

lemma metrics_tidy: "tidy (metricsScenario kind)"
proof -
  have scrapes: "quiet (sbind (wrapped m1 (scene_metrics a1 e1)) (\<lambda>srv. sbind (wrapped m2 (scene_metrics a2 e2)) (\<lambda>cli.
      case compare_scrapes srv cli of Some e \<Rightarrow> sfail e | None \<Rightarrow> jot (Say m3))))" for m1 a1 e1 m2 a2 e2 m3
    by (intro quiet_bind quiet_wrapped quiet_metrics quiet_case quiet_basic) simp
  show ?thesis unfolding metricsScenario_def split_def
    by (rule tidy_in_scene, simp, rule step_bind [OF scene_start_step], rule step_quiet_bind [OF quiet_visitors(5)],
        rule step_quiet_bind [OF quiet_with(2) [OF quiet_ask(2) [OF inert_Await]]], rule step_quiet_bind [OF quiet_basic(4)],
        rule step_quiet_bind [OF quiet_each [OF quiet_wrapped [OF quiet_ask(2) [OF inert_AuthCheck]]]],
        rule step_quiet_bind [OF quiet_visitors(2)],
        rule step_quiet_bind [OF quiet_visitors(3)], rule step_bind [OF keeps_step [OF keeps_with_fixture [OF keeps_fixture_close]]],
        rule step_quiet_bind [OF quiet_visitors(4)], rule step_quiet_bind [OF quiet_each [OF quiet_visitors(7)]], rule step_quiet,
        rule scrapes)
qed

lemma scenarios_tidy: "tidy (scenarios kind)"
  unfolding scenarios_def
  by (intro tidy_bind tidy_wrapped basic_tidy metrics_tidy growth_tidy idle_tidy lifetime_tidy authentication_tidy shutdown_tidy
      tidy_quiet [OF quiet_visitors(1)])

lemma tidy_final: "tidy m \<Longrightarrow> clean (absS s) \<Longrightarrow> m w s = (r, t) \<Longrightarrow> live (ss_hist t) = ({}, {}, {})"
  unfolding tidy_def by (cases r) (auto simp: clean_def absS_def dest: triple_err triple_ok)

lemma smoke_main_run:
  "mode \<in> {''both'', ''noise'', ''wss''} \<Longrightarrow>
   \<exists>r t. sthen (jot (Say ''smoke_started'')) (each scenarios (smoke_kinds mode)) w smoke_start = (r, t)
     \<and> smoke_main w mode = (if isl r then 1 else 0, ss_hist t)"
  by (cases "sthen (jot (Say ''smoke_started'')) (each scenarios (smoke_kinds mode)) w smoke_start")
    (auto simp: smoke_main_def split: sum.split)

text \<open>At the end every process has exited or was sent SIGKILL, every service and directory was given up.\<close>

lemma smoke_main_live: "live (snd (smoke_main w mode)) = ({}, {}, {})"
proof (cases "mode \<in> {''both'', ''noise'', ''wss''}")
  case True
  have t: "tidy (sthen (jot (Say ''smoke_started'')) (each scenarios (smoke_kinds mode)))"
    by (intro tidy_bind tidy_each scenarios_tidy tidy_quiet quiet_basic) simp
  have "clean (absS smoke_start)" by (simp add: clean_def absS_def smoke_start_def)
  with smoke_main_run [OF True, of w] tidy_final [OF t] show ?thesis by fastforce
qed (simp add: smoke_main_def)

text \<open>
  C38. Whatever the smoke test runs into (any failing operation, in any order of answers): a process it
  started and whose exit status it did not receive was sent SIGKILL, each service it opened was closed,
  and each temporary directory it made was handed to \<^verbatim>\<open>os.RemoveAll\<close>, before it ends. The code ignores the errors of
  these operations, so something remains only where the operating system answered one of them with an
  error; if it answers none so, nothing remains.
\<close>

theorem smoke_leaves_nothing:
  "case remains w (snd (smoke_main w mode)) of (P, F, D) \<Rightarrow>
     P \<subseteq> {p. Signalled p ''KILL'' \<in> failed_ops w (snd (smoke_main w mode))}
     \<and> F \<subseteq> {f. FixClosed f \<in> failed_ops w (snd (smoke_main w mode))}
     \<and> D \<subseteq> {d. RemoveAll d \<in> failed_ops w (snd (smoke_main w mode))}"
  using remains_live [of w "snd (smoke_main w mode)"] smoke_main_live [of w mode] by (auto split: prod.splits)

text \<open>
  A process whose exit status was received (also one that ended with an error, which \<open>stopClient\<close>,
  \<open>stopIdle\<close> and \<open>shutdownScenarios\<close> return with the process still in the scene) is waited for again when
  the scene is closed, and that wait always runs into its timeout.
\<close>

theorem wait_again_times_out:
  assumes "exited p (ss_hist s)"
  shows "isl (fst (wait_proc p d w s)) \<and> Signalled p ''KILL'' \<in> set (ss_hist (snd (wait_proc p d w s)))"
proof -
  have "exited p (ss_hist s @ [WaitProc p d])" using assms by (simp add: exited_def)
  then show ?thesis
    by (auto simp: wait_proc_def sbind_def ask_def jot_def sret_def ask_sum_def sfail_def signal_proc_def split: sum.split prod.split)
qed

end
