(* ===== verification/Smoke_Verdict.thy ===== *)
theory Smoke_Verdict
  imports Smoke_Run
begin

text \<open>
  What the smoke test prints and what it returns: the PASS lines come in a fixed order, and the exit
  code is 0 exactly if all of them were printed.
\<close>

named_theorems silent_intros \<open>scripts that print no PASS line\<close>

subsection \<open>PASS lines\<close>

definition passed :: "sop list \<Rightarrow> string list" where
  "passed h = concat (map (\<lambda>a. case a of Say m \<Rightarrow> if take 5 m = ''PASS '' then [m] else [] | _ \<Rightarrow> []) h)"

definition pass_line :: "string \<Rightarrow> string \<Rightarrow> string" where
  "pass_line kind name = ''PASS '' @ kind @ '' '' @ name"

definition basic_names :: "string list" where
  "basic_names = [''small-message'', ''half-close'', ''serial-reuse'', ''acquire-timeout'', ''service-isolation'',
     ''local-dial-failure'', ''server-restart'', ''shutdown-idle'']"

definition later_names :: "string list" where
  "later_names = [''metrics'', ''pool-growth'', ''idle-expiry'', ''max-lifetime'', ''authentication'', ''shutdown'']"

definition expected_lines :: "string \<Rightarrow> string list" where
  "expected_lines kind = map (pass_line kind) (basic_names @ later_names)"

definition mark :: "sop \<Rightarrow> string list" where
  "mark a = passed [a]"

lemma passed_snoc [simp]: "passed [] = []" "passed (h @ [a]) = passed h @ mark a"
  by (simp_all add: passed_def mark_def)

lemma mark_simps [simp]:
  "mark (Say m) = (if take 5 m = ''PASS '' then [m] else [])" "mark MkdirTemp = []" "mark (Mkdir d) = []" "mark (DirMade d) = []"
  "mark (RemoveAll d) = []" "mark (Random n) = []" "mark KeyGen = []" "mark EcKey = []" "mark (SignCert ct ct2 n n2) = []" "mark (MarshalKey n) = []" "mark (KeyPair d d2) = []"
  "mark (ActiveAt n) = []" "mark (Dropped n) = []" "mark ListenAny = []"
  "mark (ReleaseAddr d) = []" "mark (ListenAt d) = []" "mark (FixOpen n d) = []" "mark (FixClosed n) = []"
  "mark (WriteFile d x) = []" "mark (ReadFile d) = []" "mark (RunCheck d) = []" "mark (StartProc args) = []"
  "mark (Started n) = []" "mark (Signalled n d) = []" "mark (WaitProc n t) = []" "mark (Drain n) = []" "mark (Exited n) = []"
  "mark (Await n t c) = []" "mark (Look n) = []" "mark (Output n) = []" "mark (DialTo d) = []"
  "mark (Visit n v) = []" "mark (Arrival n t) = []" "mark (Released n) = []" "mark (Pause t) = []" "mark Clock = []"
  "mark (Scrape d) = []" "mark (AuthCheck d) = []"
  by (simp_all add: mark_def passed_def)

subsection \<open>Silent scripts\<close>

definition silent :: "'a script \<Rightarrow> bool" where
  "silent m \<longleftrightarrow> (\<forall>w s. passed (ss_hist (snd (m w s))) = passed (ss_hist s))"

lemma silent_basic [silent_intros]:
  "silent (sret x)" "silent (sfail e)" "silent (in_world f)" "silent (of_scene g)" "silent (upd_scene u)"
  "mark a = [] \<Longrightarrow> silent (jot a)" "mark a = [] \<Longrightarrow> silent (ask h a)"
  by (simp_all add: silent_def script_defs)

lemma silent_of_hist [silent_intros]: "silent (of_hist q)"
  by (simp add: silent_def of_hist_def)

lemma silent_bind [silent_intros]: "silent m \<Longrightarrow> (\<And>x. silent (k x)) \<Longrightarrow> silent (sbind m k)"
  unfolding silent_def sbind_def by (auto split: prod.splits sum.splits) (metis snd_conv)+

lemma silent_on_error [silent_intros]: "silent m \<Longrightarrow> (\<And>e. silent (f e)) \<Longrightarrow> silent (on_error f m)"
  unfolding silent_def on_error_def by (auto split: prod.splits sum.splits) (metis snd_conv)+

lemma silent_attempt [silent_intros]: "silent m \<Longrightarrow> silent (attempt m)"
  unfolding silent_def attempt_def by (auto split: prod.splits) (metis snd_conv)

lemma silent_deferred [silent_intros]: "silent m \<Longrightarrow> silent f \<Longrightarrow> silent (deferred m f)"
  unfolding silent_def deferred_def by (auto split: prod.splits) (metis snd_conv)

lemma silent_case [silent_intros]:
  "(\<And>e. silent (f e)) \<Longrightarrow> (\<And>x. silent (g x)) \<Longrightarrow> silent (case r of Inl e \<Rightarrow> f e | Inr x \<Rightarrow> g x)"
  "silent m \<Longrightarrow> (\<And>x. silent (k x)) \<Longrightarrow> silent (case q of None \<Rightarrow> m | Some x \<Rightarrow> k x)"
  "silent m \<Longrightarrow> silent m' \<Longrightarrow> silent (if b then m else m')"
  by (auto split: sum.split option.split)

lemma silent_ask [silent_intros]: "mark a = [] \<Longrightarrow> silent (ask_sum f a)" "mark a = [] \<Longrightarrow> silent (ask_err a)"
  unfolding ask_sum_def ask_err_def by (intro silent_intros; assumption)+

lemma silent_each [silent_intros]: "(\<And>x. silent (f x)) \<Longrightarrow> silent (each f xs)"
  by (induction xs) (auto intro: silent_intros)

lemma silent_wrapped [silent_intros]: "silent m \<Longrightarrow> silent (wrapped t m)"
  by (simp add: wrapped_def silent_intros)

lemma silent_harness [silent_intros]:
  "silent freeAddr" "silent (signal_proc p sig)" "silent (fixture_next f d)" "silent generateKey" "silent (check_config path)"
  "silent (startProcess args)" "silent (wait_proc n d)" "silent (startFixture mode adr)" "silent (fixture_close f)"
  "silent (createCertificate dir)"
  unfolding freeAddr_def signal_proc_def fixture_next_def generateKey_def check_config_def startProcess_def wait_proc_def
    startFixture_def fixture_close_def createCertificate_def split_def
  by (intro silent_intros; simp)+

lemma silent_with [silent_intros]:
  "(\<And>p. silent (k p)) \<Longrightarrow> silent (with_server k)" "(\<And>p. silent (k p)) \<Longrightarrow> silent (with_client k)"
  "(\<And>f. silent (l f)) \<Longrightarrow> silent (with_fixture name l)"
  unfolding with_server_def with_client_def with_fixture_def by (intro silent_intros; assumption)+

lemma silent_counts [silent_intros]: "silent (ready_counts p ns)"
  by (induction ns) (auto intro!: silent_intros)

lemma silent_scene [silent_intros]:
  "silent (writeConfigs t c o1)" "silent (scene_connect name)" "silent wrongCA" "silent (set_public name a)"
  "silent (set_fixture name f)" "silent allocateAddrs" "silent launch_server" "silent launch_client" "silent (reap_server d)"
  "silent (reap_client d)"
  unfolding writeConfigs_def scene_connect_def wrongCA_def set_public_def set_fixture_def allocateAddrs_def launch_server_def
    launch_client_def reap_server_def reap_client_def
  by (intro silent_intros; simp)+

lemma silent_close [silent_intros]: "silent close_services" "silent scene_close" "silent (new_services modes)"
proof -
  show "silent close_services" unfolding close_services_def split_def by (intro silent_intros)
  then show "silent scene_close" unfolding scene_close_def by (intro silent_intros; simp)
  show "silent (new_services modes)" unfolding new_services_def split_def by (intro silent_intros)
qed

lemma silent_newScene [silent_intros]: "silent (newScene kind pool timeout modes)"
  unfolding newScene_def Let_def by (intro silent_intros; simp)

lemma silent_start [silent_intros]: "silent scene_start" "silent restartServer" "silent stopClient" "silent restartClient" "silent stopIdle"
proof -
  have once: "silent startOnce" unfolding startOnce_def by (intro silent_intros; simp)
  have renew: "silent renew_scene" unfolding renew_scene_def renew_service_def split_def by (intro silent_intros; simp)
  have "silent (start_attempts n)" for n by (induction n) (auto intro!: silent_intros once renew)
  then show "silent scene_start" by (simp add: scene_start_def)
  show "silent restartServer" unfolding restartServer_def by (intro silent_intros; simp)
  show "silent stopClient" unfolding stopClient_def by (intro silent_intros; simp)
  show "silent restartClient" unfolding restartClient_def split_def by (intro silent_intros; simp)
  show "silent stopIdle" unfolding stopIdle_def by (intro silent_intros; simp)
qed

lemma silent_visiting [silent_intros]: "(\<And>c. silent (k c)) \<Longrightarrow> silent (visiting name k)"
  unfolding visiting_def by (intro silent_intros) simp_all

lemma silent_visitors [silent_intros]:
  "silent (scene_echo name data)" "silent (scene_digest data)" "silent (read_close name)" "silent (await_log d cond)"
  "silent server_log" "silent (scene_finished name n)" "silent (next_arrival name d)" "silent kill_server"
  unfolding scene_echo_def scene_digest_def read_close_def await_log_def server_log_def scene_finished_def next_arrival_def
    kill_server_def
  by (intro silent_intros; simp)+

lemma silent_hold [silent_intros]: "silent scene_hold" "silent (hold_release v)"
  unfolding scene_hold_def hold_release_def split_def by (intro silent_intros; simp)+

lemma silent_hold_visitors [silent_intros]: "(\<And>vs. silent (k vs)) \<Longrightarrow> silent (hold_visitors n vs k)"
proof (induction n arbitrary: vs)
  case (Suc n)
  show ?case unfolding hold_visitors.simps
    by (intro silent_visiting silent_bind silent_wrapped silent_visitors(7) Suc.IH Suc.prems)
qed simp

lemma silent_reuse [silent_intros]: "silent (scene_reuse name n)"
  unfolding scene_reuse_def by (intro silent_intros; simp)

lemma silent_in_scene [silent_intros]: "silent body \<Longrightarrow> silent (in_scene kind pool timeout modes body)"
  unfolding in_scene_def by (intro silent_intros)

lemma silent_metrics [silent_intros]: "silent (scene_metrics a exps)"
  unfolding scene_metrics_def split_def
  by (rule silent_bind [OF silent_basic(7)]) (auto split: option.split sum.split intro!: silent_basic)

lemma silent_rename [silent_intros]: "silent rename_service"
  unfolding rename_service_def Let_def by (intro silent_intros; simp)

lemma silent_variant [silent_intros]: "silent (authenticationVariant kind variant)"
  unfolding authenticationVariant_def by (intro silent_intros; simp)

lemma silent_scenarios:
  "silent (metricsScenario kind)" "silent (poolGrowth kind)" "silent (idleExpiry kind)" "silent (maxLifetime kind)"
  "silent (authentication kind)" "silent (shutdownScenarios kind)"
proof -
  show "silent (metricsScenario kind)" unfolding metricsScenario_def split_def by (intro silent_intros; simp)
  show "silent (poolGrowth kind)" unfolding poolGrowth_def by (intro silent_intros; simp)
  show "silent (idleExpiry kind)" unfolding idleExpiry_def by (intro silent_intros; simp)
  show "silent (maxLifetime kind)" unfolding maxLifetime_def by (intro silent_intros; simp)
  have "silent (variant_attempts kind v n)" for v n by (induction n) (auto intro!: silent_intros)
  then show "silent (authentication kind)" unfolding authentication_def by (rule silent_each)
  show "silent (shutdownScenarios kind)" unfolding shutdownScenarios_def shutdown_turn_def shutdown_lease_def
    by (intro silent_intros; simp)
qed

subsection \<open>Lines in order\<close>

text \<open>
  \<open>m\<close> prints the lines \<open>xs\<close>, or fails and has printed some of the first of them; if \<open>strict\<close>, a failure
  comes before the last line.
\<close>

definition prints :: "bool \<Rightarrow> 'a script \<Rightarrow> string list \<Rightarrow> bool" where
  "prints strict m xs \<longleftrightarrow> (\<forall>w s r t. m w s = (r, t) \<longrightarrow>
     (\<exists>k \<le> length xs. passed (ss_hist t) = passed (ss_hist s) @ take k xs
        \<and> (if isl r then strict \<longrightarrow> k < length xs else k = length xs)))"

lemma silent_prints: "silent m \<Longrightarrow> prints False m []"
  unfolding silent_def prints_def by auto (metis snd_conv)

lemma prints_bind:
  assumes m: "prints b m xs" and k: "\<And>x. prints c (k x) ys" and "ys \<noteq> [] \<or> b = c"
  shows "prints c (sbind m k) (xs @ ys)"
  unfolding prints_def
proof (intro allI impI)
  fix w s r t assume r: "sbind m k w s = (r, t)"
  obtain q u where q: "m w s = (q, u)" by fastforce
  from m q obtain i where i: "i \<le> length xs" "passed (ss_hist u) = passed (ss_hist s) @ take i xs"
      "if isl q then b \<longrightarrow> i < length xs else i = length xs"
    unfolding prints_def by blast
  show "\<exists>j \<le> length (xs @ ys). passed (ss_hist t) = passed (ss_hist s) @ take j (xs @ ys)
      \<and> (if isl r then c \<longrightarrow> j < length (xs @ ys) else j = length (xs @ ys))"
  proof (cases q)
    case (Inl e)
    have "ys \<noteq> [] \<Longrightarrow> i < length (xs @ ys)" using i(1) by (cases ys) auto
    with r q i Inl assms(3) show ?thesis by (intro exI [of _ i]) (auto simp: sbind_def)
  next
    case (Inr x)
    with r q have "k x w u = (r, t)" by (simp add: sbind_def)
    with k obtain j where "j \<le> length ys" "passed (ss_hist t) = passed (ss_hist u) @ take j ys"
        "if isl r then c \<longrightarrow> j < length ys else j = length ys"
      unfolding prints_def by blast
    with i Inr show ?thesis by (intro exI [of _ "length xs + j"]) (auto split: if_splits)
  qed
qed

lemma prints_pass: "prints True (pass kind name) [pass_line kind name]"
  unfolding prints_def pass_def pass_line_def jot_def by auto

lemma prints_after: "silent m \<Longrightarrow> (\<And>x. prints c (k x) ys) \<Longrightarrow> ys \<noteq> [] \<Longrightarrow> prints c (sbind m k) ys"
  using prints_bind [OF silent_prints, of m c k ys] by simp

lemma prints_then: "prints b m xs \<Longrightarrow> prints c k ys \<Longrightarrow> ys \<noteq> [] \<Longrightarrow> prints c (sthen m k) (xs @ ys)"
  by (rule prints_bind) simp_all

lemma prints_silent_then: "silent m \<Longrightarrow> prints True (sthen m (pass kind name)) [pass_line kind name]"
  by (rule prints_after) (simp_all add: prints_pass)

lemma prints_deferred: "prints c m xs \<Longrightarrow> silent f \<Longrightarrow> prints c (deferred m f) xs"
  unfolding prints_def
proof (intro allI impI)
  fix w s r t
  assume m: "\<forall>w s r t. m w s = (r, t) \<longrightarrow> (\<exists>k \<le> length xs. passed (ss_hist t) = passed (ss_hist s) @ take k xs
      \<and> (if isl r then c \<longrightarrow> k < length xs else k = length xs))"
    and f: "silent f" and d: "deferred m f w s = (r, t)"
  obtain u where u: "m w s = (r, u)" "t = snd (f w u)" using d by (auto simp: deferred_def split: prod.splits)
  have "passed (ss_hist t) = passed (ss_hist u)" using f u(2) by (simp add: silent_def)
  with m u(1) show "\<exists>k \<le> length xs. passed (ss_hist t) = passed (ss_hist s) @ take k xs
      \<and> (if isl r then c \<longrightarrow> k < length xs else k = length xs)" by metis
qed

lemma prints_in_scene: "prints c body xs \<Longrightarrow> xs \<noteq> [] \<Longrightarrow> prints c (in_scene kind pool timeout modes body) xs"
  unfolding in_scene_def by (intro prints_after silent_newScene prints_deferred silent_close)

lemma prints_visiting: "(\<And>x. prints c (k x) xs) \<Longrightarrow> xs \<noteq> [] \<Longrightarrow> prints c (visiting name k) xs"
  unfolding visiting_def by (intro prints_after silent_scene(2) prints_deferred silent_basic) simp_all

lemma prints_cons: "prints b m [x] \<Longrightarrow> prints True k xs \<Longrightarrow> xs \<noteq> [] \<Longrightarrow> prints True (sthen m k) (x # xs)"
  using prints_then [of b m "[x]" True k xs] by simp

lemma prints_fail: "xs \<noteq> [] \<Longrightarrow> prints c (sfail e) xs"
  unfolding prints_def sfail_def by auto

lemma prints_with_fixture:
  assumes "\<And>f. prints c (k f) xs" and "xs \<noteq> []"
  shows "prints c (with_fixture name k) xs"
  unfolding with_fixture_def
proof (rule prints_after [OF silent_basic(4) _ assms(2)])
  fix q :: "fixture option"
  show "prints c (case q of None \<Rightarrow> sfail (Errmsg ''nil fixture'') | Some x \<Rightarrow> k x) xs"
    by (cases q) (simp_all add: prints_fail assms)
qed

lemma basic_parts:
  "prints True (small_message kind) [pass_line kind ''small-message'']" "prints True (half_close kind) [pass_line kind ''half-close'']"
  "prints True (serial_reuse kind) [pass_line kind ''serial-reuse'']"
  "prints True (acquire_timeout kind) [pass_line kind ''acquire-timeout'']"
  "prints True (service_isolation kind) [pass_line kind ''service-isolation'']"
  "prints True (local_dial_failure kind) [pass_line kind ''local-dial-failure'']"
  unfolding small_message_def half_close_def serial_reuse_def acquire_timeout_def service_isolation_def local_dial_failure_def
  by (intro prints_with_fixture prints_after prints_pass silent_intros; simp)+

lemma restart_part:
  "prints True (server_restart kind) [pass_line kind ''server-restart'', pass_line kind ''shutdown-idle'']"
  unfolding server_restart_def
proof (rule prints_visiting, rule prints_after [OF silent_visitors(7)], rule prints_after [OF silent_visitors(8)])
  fix c h :: nat and x :: "error + unit"
  have t: "prints True (sthen (pass kind ''server-restart'') (sthen stopIdle (pass kind ''shutdown-idle'')))
      [pass_line kind ''server-restart'', pass_line kind ''shutdown-idle'']"
    by (rule prints_cons [OF prints_pass prints_silent_then [OF silent_start(5)]]) simp
  show "prints True (sthen (jot (Visit c (VDeadline (2 * second))))
      (sbind (attempt (ask_err (Visit c VReadOne))) (\<lambda>r.
       sthen (if isl r then sret () else sfail (Errmsg ''old lease survived server death''))
       (sthen (jot (Released h)) (sthen restartServer (sthen (scene_echo ''echo'' (ascii ''after restart''))
       (sthen (pass kind ''server-restart'') (sthen stopIdle (pass kind ''shutdown-idle'')))))))))
      [pass_line kind ''server-restart'', pass_line kind ''shutdown-idle'']"
    by (intro prints_after t silent_intros; simp)
qed simp_all

lemma basic_prints: "prints True (basicScenarios kind) (map (pass_line kind) basic_names)"
proof -
  note parts = basic_parts [of kind] restart_part [of kind]
  show ?thesis unfolding basicScenarios_def basic_names_def list.map
    by (intro prints_in_scene prints_after [OF silent_start(1)] prints_cons [OF parts(1)] prints_cons [OF parts(2)]
      prints_cons [OF parts(3)] prints_cons [OF parts(4)] prints_cons [OF parts(5)] prints_cons [OF parts(6)] parts(7)) simp_all
qed

lemma scenarios_prints: "prints True (scenarios kind) (expected_lines kind)"
proof -
  have later: "prints True (sthen (wrapped msg m) (sthen (pass kind name) k)) (pass_line kind name # xs)"
    if "silent m" "prints True k xs" "xs \<noteq> []" for msg name xs and m k :: "unit script"
    using prints_after [OF silent_wrapped [OF that(1)] prints_cons [OF prints_pass that(2,3)]] by simp
  note final = prints_silent_then [OF silent_wrapped [OF silent_scenarios(6)]]
  have rest: "prints True
     (sthen (wrapped ''metrics: '' (metricsScenario kind)) (sthen (pass kind ''metrics'')
     (sthen (wrapped ''pool-growth: '' (poolGrowth kind)) (sthen (pass kind ''pool-growth'')
     (sthen (wrapped ''idle-expiry: '' (idleExpiry kind)) (sthen (pass kind ''idle-expiry'')
     (sthen (wrapped ''max-lifetime: '' (maxLifetime kind)) (sthen (pass kind ''max-lifetime'')
     (sthen (wrapped ''authentication: '' (authentication kind)) (sthen (pass kind ''authentication'')
     (sthen (wrapped ''shutdown: '' (shutdownScenarios kind)) (pass kind ''shutdown''))))))))))))
     (map (pass_line kind) later_names)"
    unfolding later_names_def list.map by (intro later silent_scenarios final) simp_all
  show ?thesis unfolding scenarios_def expected_lines_def map_append
    by (rule prints_then [OF basic_prints rest]) (simp add: later_names_def)
qed

lemma expected_nonempty: "expected_lines kind \<noteq> []"
  by (simp add: expected_lines_def basic_names_def)

lemma prints_each: "(\<And>x. prints True (f x) (g x)) \<Longrightarrow> prints True (each f xs) (concat (map g xs))"
proof (induction xs)
  case Nil
  show ?case by (simp add: prints_def sret_def)
next
  case (Cons x xs)
  show ?case unfolding each.simps list.map concat.simps
    by (rule prints_bind [of True _ _ True]) (simp_all add: Cons)
qed

text \<open>
  C39. The PASS lines the smoke test prints are an initial part of the expected ones, in order, for each
  transport in turn; and it returns 0 exactly if the transport is valid and all of them were printed.
\<close>

theorem smoke_verdict:
  "\<exists>k. passed (snd (smoke_main w mode)) = take k (concat (map expected_lines (smoke_kinds mode)))
     \<and> (fst (smoke_main w mode) = 0 \<longleftrightarrow> passed (snd (smoke_main w mode)) = concat (map expected_lines (smoke_kinds mode)))"
proof (cases "mode \<in> {''both'', ''noise'', ''wss''}")
  case True
  let ?xs = "concat (map expected_lines (smoke_kinds mode))"
  have p: "prints True (sthen (jot (Say ''smoke_started'')) (each scenarios (smoke_kinds mode))) ?xs"
    by (rule prints_after [OF _ prints_each [OF scenarios_prints]])
      (simp_all add: silent_basic smoke_kinds_def expected_nonempty)
  obtain r t where rt: "sthen (jot (Say ''smoke_started'')) (each scenarios (smoke_kinds mode)) w smoke_start = (r, t)"
      "smoke_main w mode = (if isl r then 1 else 0, ss_hist t)" using smoke_main_run [OF True, of w] by blast
  have "passed (ss_hist smoke_start) = []" by (simp add: smoke_start_def)
  with p rt(1) obtain k where "k \<le> length ?xs" "passed (ss_hist t) = take k ?xs"
      "if isl r then k < length ?xs else k = length ?xs"
    unfolding prints_def by (metis append_Nil)
  with rt(2) show ?thesis by (intro exI [of _ k]) (auto dest: arg_cong [where f = length] split: if_splits)
next
  case False
  then show ?thesis by (intro exI [of _ 0]) (auto simp: smoke_main_def smoke_kinds_def expected_nonempty expected_nonempty [symmetric])
qed

end
