(* ===== verification/Client_Run.thy ===== *)
theory Client_Run
  imports Worker_Trace
begin

text \<open>
  \<open>runConn\<close> and \<open>dialAndServe\<close> of \<^verbatim>\<open>internal/client/worker.go\<close> as a whole: a tunnel connection of the client
  from its slot through the dial, the protocol and its critical sections to the end, in one goroutine.
\<close>

subsection \<open>What the protocol does to the runtime\<close>

text \<open>
  The actions of \<open>serveSlot\<close> in order; \<open>t\<close> is the local socket of the leases, \<open>d\<close> how long a lease takes.
  \<open>KDecide\<close> comes with the answer of \<open>release_decide\<close>.
\<close>

definition slot_act :: "nat \<Rightarrow> nat \<Rightarrow> (u64 \<Rightarrow> duration) \<Rightarrow> cact \<Rightarrow> client_rt \<Rightarrow> client_rt" where
  "slot_act s t d a r =
     (let stats = (\<lambda>f. upd_svc (svc_of r s) (\<lambda>v. v\<lparr>cs_stats := f (cs_stats v)\<rparr>) r)
      in case a of
        KRegistered \<Rightarrow> slot_registered s r
      | KBusy \<Rightarrow> slot_busy s r
      | KDecide surplus \<Rightarrow> (if surplus then r
          else upd_svc (svc_of r s) (\<lambda>v. v\<lparr>cs_idle := cs_idle v + 1\<rparr>) (upd_slot s (\<lambda>x. x\<lparr>so_state := IdleSlot\<rparr>) r))
      | KSetTCP b \<Rightarrow> setTCP s (if b then Some t else None) r
      | KNotify \<Rightarrow> wake_service (svc_of r s) r
      | KOpened \<Rightarrow> stats (\<lambda>x. x\<lparr>s_Opened := s_Opened x + 1\<rparr>)
      | KRejected code \<Rightarrow> stats (Rejected code)
      | KRetired reason \<Rightarrow> stats (Retired reason)
      | KLocalDialFailed \<Rightarrow> stats (\<lambda>x. x\<lparr>s_LocalDialFailures := s_LocalDialFailures x + 1\<rparr>)
      | KLease i oc \<Rightarrow> stats (LeaseDone oc (d i)))"

lemma KDecide_decides: "release_decide s r = (r', surplus) \<Longrightarrow> slot_act s t d (KDecide surplus) r = r'"
  by (auto simp: release_decide_def slot_act_def Let_def split: if_splits)

text \<open>
  \<open>dial\<close>: the connection, or the error of the dial; \<open>served\<close>: what \<open>serveSlot\<close> does on it and returns. The
  list has the connections closed on the way.
\<close>

definition dialAndServe ::
    "nat \<Rightarrow> nat \<Rightarrow> (u64 \<Rightarrow> duration) \<Rightarrow> error + nat \<Rightarrow> cact list \<times> error option \<Rightarrow> client_rt \<Rightarrow> client_rt \<times> nat list \<times> error option" where
  "dialAndServe s t d dial served r =
     (case dial of
        Inl e \<Rightarrow> (r, [], Some e)
      | Inr k \<Rightarrow>
          (case attach_conn s k r of
             (r1, False) \<Rightarrow> (r1, [k], None)
           | (r1, True) \<Rightarrow> (fold (slot_act s t d) (fst served) r1, [], snd served)))"

text \<open>Besides the runtime: the tunnel connections and the local sockets that were closed.\<close>

definition runConn ::
    "string \<Rightarrow> nat \<Rightarrow> (u64 \<Rightarrow> duration) \<Rightarrow> error + nat \<Rightarrow> cact list \<times> error option \<Rightarrow> bool \<Rightarrow> instant \<Rightarrow> instant \<Rightarrow> instant
     \<Rightarrow> int \<Rightarrow> client_rt \<Rightarrow> client_rt \<times> nat list \<times> nat list" where
  "runConn n t d dial served ctx started now now2 rnd r =
     (case runConn_start n r of (r1, s) \<Rightarrow>
      (case dialAndServe s t d dial served r1 of (r2, closed, e) \<Rightarrow>
       (case drop_slot s r2 of (r3, tcp, conn) \<Rightarrow>
         (fst (runConn_end s (e \<noteq> None) ctx started now now2 rnd r3), closed @ opt_list conn, opt_list tcp))))"

subsection \<open>The counters\<close>

text \<open>What the slot \<open>s\<close> in state \<open>st\<close> has added to the counters of its service since \<open>r0\<close>.\<close>

definition counts_since :: "client_rt \<Rightarrow> nat \<Rightarrow> string \<Rightarrow> slotState \<Rightarrow> client_rt \<Rightarrow> bool" where
  "counts_since r0 s n st r \<longleftrightarrow>
     so_state (crt_heap r s) = st \<and> svc_of r s = n \<and> crt_slots r = s # crt_slots r0 \<and> crt_stopping r = crt_stopping r0
     \<and> (\<forall>m. m \<noteq> n \<longrightarrow> crt_svcs r m = crt_svcs r0 m) \<and> (\<forall>x. x \<noteq> s \<longrightarrow> crt_heap r x = crt_heap r0 x)
     \<and> s_DialFailures (cs_stats (crt_svcs r n)) = s_DialFailures (cs_stats (crt_svcs r0 n))
     \<and> cs_idle (crt_svcs r n) = cs_idle (crt_svcs r0 n) + (if st = IdleSlot then 1 else 0)
     \<and> cs_connecting (crt_svcs r n) = cs_connecting (crt_svcs r0 n) - (if st = Connecting then 0 else 1)"

lemma counts_act:
  assumes "counts_since r0 s n st r" and "kmove st a st'"
  shows "counts_since r0 s n st' (slot_act s t d a r) \<and> so_conn (crt_heap (slot_act s t d a r) s) = so_conn (crt_heap r s)"
  using assms(2,1)
  by (cases rule: kmove.cases)
    (cases a; auto simp: counts_since_def slot_act_def slot_registered_def slot_busy_def setTCP_def wake_service_def upd_svc_def
      upd_slot_def svc_of_def Let_def Rejected_def Retired_def LeaseDone_def split: option.splits)+

lemma counts_acts:
  "krun st as st' \<Longrightarrow> counts_since r0 s n st r \<Longrightarrow>
   counts_since r0 s n st' (fold (slot_act s t d) as r) \<and> so_conn (crt_heap (fold (slot_act s t d) as r) s) = so_conn (crt_heap r s)"
proof (induction arbitrary: r rule: krun.induct)
  case (krun_Cons st a st1 as st2)
  from counts_act [OF krun_Cons.prems krun_Cons.hyps(1), of t d] krun_Cons.IH [of "slot_act s t d a r"] show ?case by simp
qed simp

lemma counts_start: "runConn_start n r = (r1, s) \<Longrightarrow> counts_since r s n Connecting r1 \<and> so_conn (crt_heap r1 s) = None"
  by (auto simp: runConn_start_def counts_since_def svc_of_def Let_def)

lemma counts_attach: "counts_since r0 s n st r \<Longrightarrow> attach_conn s k r = (r1, ok) \<Longrightarrow>
    counts_since r0 s n st r1 \<and> so_conn (crt_heap r1 s) = (if ok then Some k else so_conn (crt_heap r s)) \<and> (ok \<longleftrightarrow> \<not> crt_stopping r0)"
  by (auto simp: attach_conn_def counts_since_def svc_of_def upd_slot_def split: if_splits)

lemma counts_drop: "counts_since r0 s n st r \<Longrightarrow> drop_slot s r = (r1, tcp, conn) \<Longrightarrow>
    counts_since r0 s n st r1 \<and> conn = so_conn (crt_heap r s)"
  by (auto simp: drop_slot_def counts_since_def svc_of_def upd_slot_def)

text \<open>What the end of \<open>runConn\<close> makes of the counters.\<close>

lemma counts_end:
  assumes "counts_since r0 s n st r" and "runConn_end s failing ctx started now now2 rnd r = (r1, failed)"
  shows "crt_slots r1 = crt_slots r0 \<and> (\<forall>m. m \<noteq> n \<longrightarrow> crt_svcs r1 m = crt_svcs r0 m)
    \<and> cs_wake (crt_svcs r1 n)
    \<and> cs_idle (crt_svcs r1 n) = cs_idle (crt_svcs r0 n) \<and> cs_connecting (crt_svcs r1 n) = cs_connecting (crt_svcs r0 n) - 1
    \<and> failed = (failing \<and> \<not> ctx \<and> \<not> crt_stopping r0)
    \<and> s_DialFailures (cs_stats (crt_svcs r1 n)) = s_DialFailures (cs_stats (crt_svcs r0 n)) + (if failed \<and> st = Connecting then 1 else 0)"
  using assms
  by (cases st) (auto simp: counts_since_def runConn_end_def next_backoff_def wake_service_def upd_svc_def svc_of_def Let_def
      Retired_def split: if_splits)

text \<open>The part of a connection before its end.\<close>

lemma counts_dialAndServe:
  assumes c: "counts_since r0 s n Connecting r" and n: "so_conn (crt_heap r s) = None" and k: "krun Connecting as st"
    and d: "dialAndServe s t d dial (as, e) r = (r1, closed, x)"
  shows "counts_since r0 s n (if isl dial \<or> crt_stopping r0 then Connecting else st) r1
    \<and> closed @ opt_list (so_conn (crt_heap r1 s)) = (case dial of Inl _ \<Rightarrow> [] | Inr k \<Rightarrow> [k])
    \<and> x = (case dial of Inl y \<Rightarrow> Some y | Inr _ \<Rightarrow> if crt_stopping r0 then None else e)"
proof (cases dial)
  case (Inl y)
  with assms show ?thesis by (auto simp: dialAndServe_def opt_list_def)
next
  case (Inr conn)
  obtain r2 ok where a: "attach_conn s conn r = (r2, ok)" by fastforce
  note at = counts_attach [OF c a]
  show ?thesis
  proof (cases ok)
    case True
    with counts_acts [OF k, of r0 s n r2 t d] at a d Inr show ?thesis by (auto simp: dialAndServe_def opt_list_def)
  next
    case False
    with at a d Inr n show ?thesis by (auto simp: dialAndServe_def opt_list_def)
  qed
qed

text \<open>
  C6. A connection of the client, run as a whole: it leaves the map of slots and the idle counter of its
  service as they were and takes itself off the connecting counter, whatever state it ends in; no other
  service is touched, the controller is woken, a dialled tunnel connection is closed exactly once, and a
  failure is counted as a dial failure exactly if the connection was never registered.
\<close>

theorem runConn_conserves:
  assumes "serveSlot X J relay h turns c = Some (c', as, e)"
  shows "case runConn n t d dial (as, e) ctx started now now2 rnd r of (r', conns, socks) \<Rightarrow>
     crt_slots r' = crt_slots r \<and> (\<forall>m. m \<noteq> n \<longrightarrow> crt_svcs r' m = crt_svcs r m) \<and> cs_wake (crt_svcs r' n)
     \<and> cs_idle (crt_svcs r' n) = cs_idle (crt_svcs r n)
     \<and> cs_connecting (crt_svcs r' n) = cs_connecting (crt_svcs r n) - 1
     \<and> conns = (case dial of Inl _ \<Rightarrow> [] | Inr k \<Rightarrow> [k])
     \<and> s_DialFailures (cs_stats (crt_svcs r' n)) = s_DialFailures (cs_stats (crt_svcs r n))
         + (if \<not> ctx \<and> \<not> crt_stopping r \<and> (isl dial \<or> e \<noteq> None \<and> KOpened \<notin> set as) then 1 else 0)"
proof -
  obtain st where k: "krun Connecting as st" "(st = Connecting) = (KOpened \<notin> set as)"
    using serveSlot_krun [OF assms] by blast
  obtain r1 s where s: "runConn_start n r = (r1, s)" by fastforce
  obtain r2 closed x where ds: "dialAndServe s t d dial (as, e) r1 = (r2, closed, x)" by (metis prod_cases3)
  obtain r3 tcp conn where dr: "drop_slot s r2 = (r3, tcp, conn)" by (metis prod_cases3)
  obtain r4 failed where en: "runConn_end s (x \<noteq> None) ctx started now now2 rnd r3 = (r4, failed)" by fastforce
  note st = counts_start [OF s]
  note se = counts_dialAndServe [OF conjunct1 [OF st] conjunct2 [OF st] k(1) ds]
  note fin = counts_end [OF conjunct1 [OF counts_drop [OF conjunct1 [OF se] dr]] en]
  have conn: "conn = so_conn (crt_heap r2 s)" using counts_drop [OF conjunct1 [OF se] dr] by simp
  show ?thesis using fin se k(2) unfolding runConn_def s prod.case ds dr en fst_conv conn
    by (cases dial) (auto split: if_splits)
qed

definition demo_rt :: client_rt where
  "demo_rt = upd_svc ''db'' (\<lambda>v. v\<lparr>cs_connecting := 1\<rparr>)
     (new_client \<lparr>cp_MinIdle = 1, cp_MaxIdle = 2, cp_Heartbeat = second, cp_IdleTimeout = hour, cp_IdleJitter = 0,
       cp_MaxLifetime = hour, cp_LifetimeJitter = 0\<rparr> [''db''])"

theorem runConn_conserves_witness:
  "case runConn ''db'' 7 (\<lambda>_. second) (Inr 5) ([KRegistered, KOpened, KBusy, KNotify, KSetTCP True, KDecide True,
      KSetTCP False, KLease 1 LeaseOK, KRetired ''surplus''], None) False 0 second second 0 demo_rt of (r', conns, socks) \<Rightarrow>
     crt_slots r' = [] \<and> cs_connecting (crt_svcs r' ''db'') = 0 \<and> conns = [5]"
proof -
  let ?as = "[KRegistered, KOpened, KBusy, KNotify, KSetTCP True, KDecide True, KSetTCP False, KLease 1 LeaseOK,
      KRetired ''surplus'']"
  obtain c' where "serveSlot net_duplex demo_json demo_relay demo_hello [demo_cturn] demo_client = Some (c', ?as, None)"
    using demo_serve by blast
  note c = runConn_conserves [OF this, where n = "''db''" and t = 7 and d = "\<lambda>_. second" and dial = "Inr 5" and ctx = False
      and started = 0 and now = second and ?now2.0 = second and rnd = 0 and r = demo_rt]
  have "crt_slots demo_rt = []" "cs_connecting (crt_svcs demo_rt ''db'') = 1"
    by (simp_all add: demo_rt_def new_client_def upd_svc_def)
  with c show ?thesis by (auto split: prod.splits)
qed

end
