(* ===== verification/Transport_Conns.thy ===== *)
theory Transport_Conns
  imports Transport
begin

text \<open>
  The connections \<^verbatim>\<open>internal/transport\<close> hands out: \<open>Accept\<close> as a loop, the methods of \<open>guardedConn\<close>, how
  the HTTP server finds the guard of a request, and \<open>wsConn\<close>.
\<close>

subsection \<open>Accepting\<close>

text \<open>
  Each turn of \<open>Accept\<close>: the error of the socket, or a connection, with the listener as it is then and
  the two readings of the clock. The result: how many connections were closed for want of a slot, and
  the error or the guard of the connection returned, with the listener. \<open>None\<close>: still waiting.
\<close>

fun Accept :: "(error + listener \<times> instant \<times> instant) list \<Rightarrow> nat \<Rightarrow> (nat \<times> (error + nat \<times> listener)) option" where
  "Accept [] k = None"
| "Accept (Inl e # ts) k = Some (k, Inl e)"
| "Accept (Inr (l, t1, t2) # ts) k =
     (case accept_slot l of
        (l1, False) \<Rightarrow> Accept ts (k + 1)
      | (l1, True) \<Rightarrow> Some (k, Inr (ng l1, accept_guard t1 t2 l1)))"

definition refuses_turn :: "error + listener \<times> instant \<times> instant \<Rightarrow> bool" where
  "refuses_turn x = (case x of Inl e \<Rightarrow> False | Inr (l, _) \<Rightarrow> l_slots l \<ge> 64)"

lemma refuses_turn_simps [simp]: "\<not> refuses_turn (Inl e)" "refuses_turn (Inr (l, t1, t2)) \<longleftrightarrow> l_slots l \<ge> 64"
  by (simp_all add: refuses_turn_def)

text \<open>\<open>Accept\<close> answers at the first turn that has an error or a free slot, and has closed all before.\<close>

lemma Accept_first:
  "Accept ts k =
     (case dropWhile refuses_turn ts of
        [] \<Rightarrow> None
      | Inl e # _ \<Rightarrow> Some (k + length (takeWhile refuses_turn ts), Inl e)
      | Inr (l, t1, t2) # _ \<Rightarrow> Some (k + length (takeWhile refuses_turn ts),
          Inr (ng l, accept_guard t1 t2 (l\<lparr>l_slots := l_slots l + 1, taken := True\<rparr>))))"
proof (induction ts k rule: Accept.induct)
  case (3 l t1 t2 ts k)
  show ?case
  proof (cases "l_slots l < 64")
    case False
    have "k + length (takeWhile refuses_turn (Inr (l, t1, t2) # ts)) = k + 1 + length (takeWhile refuses_turn ts)"
      using False by simp
    note turn = this
    show ?thesis unfolding turn using 3 [of l False] False by (simp add: accept_slot_def)
  qed (simp add: accept_slot_def)
qed simp_all

lemma Accept_reachable:
  assumes "Accept ts k = Some (j, Inr (g, l'))"
    and "list_all (\<lambda>x. case x of Inl _ \<Rightarrow> True | Inr (l, _) \<Rightarrow> lreach l \<and> \<not> l_stopping l \<and> \<not> taken l) ts"
  shows "lreach l' \<and> \<not> g_done (gd l' g) \<and> gph l' g = GLive \<and> g \<in> l_active l' \<and> l_slots l' \<le> 64"
  using assms
proof (induction ts k rule: Accept.induct)
  case (3 l t1 t2 ts k)
  obtain l1 ok where a: "accept_slot l = (l1, ok)" by fastforce
  show ?case
  proof (cases ok)
    case True
    have l: "lreach l" "\<not> l_stopping l" "\<not> taken l" using 3(3) by simp_all
    have "lstep l l1" using l_accept [OF l(2,3)] a True by simp
    moreover have "lstep l1 (accept_guard t1 t2 l1)" using a True by (intro l_guard) (auto simp: accept_slot_def split: if_splits)
    ultimately have "lreach (accept_guard t1 t2 l1)" using l(1) by (meson reach_step)
    then show ?thesis using 3(2) a True
      by (auto simp: accept_guard_def newGuard_def Let_def accept_slot_def split: if_splits)
  next
    case False
    then show ?thesis using 3 a by simp
  qed
qed simp_all

subsection \<open>Guarded connections\<close>

text \<open>\<open>Close\<close> fails the guard and then closes the connection; all three deadlines go through the guard.\<close>

datatype conn_act = CloseConn nat

definition guarded_Close :: "nat \<Rightarrow> listener \<Rightarrow> listener \<times> conn_act list" where
  "guarded_Close g l = (l_fail g l, [CloseConn g])"

definition guarded_SetDeadline :: "instant option \<Rightarrow> nat \<Rightarrow> listener \<Rightarrow> listener" where
  "guarded_SetDeadline t g l = l\<lparr>gd := (gd l)(g := deadline t (gd l g))\<rparr>"

definition CompleteAuth :: "instant \<Rightarrow> instant \<Rightarrow> nat \<Rightarrow> listener \<Rightarrow> listener \<times> error option" where
  "CompleteAuth t1 t2 g l = (case l_complete t1 t2 g l of (l', ok) \<Rightarrow> (l', if ok then None else Some DeadlineExceeded))"

text \<open>After \<open>Close\<close> a connection can no longer be authenticated.\<close>

lemma guarded_Close_final:
  "\<not> snd (l_complete t1 t2 g (fst (guarded_Close g l)))"
  by (auto simp: guarded_Close_def l_fail_def fail_locked_def l_complete_def complete_locked_def)

text \<open>A caller can shorten the deadline of a connection that is not authenticated, and never extend it.\<close>

lemma guarded_SetDeadline_bound:
  "\<not> g_done (gd l g) \<Longrightarrow> \<exists>d. conn_deadline (gd (guarded_SetDeadline t g l) g) = Some d \<and> d \<le> g_phase (gd l g)"
  by (auto simp: guarded_SetDeadline_def deadline_def clamp_def split: option.splits)

subsection \<open>WebSocket connections\<close>

text \<open>\<open>ConnContext\<close>: the guard below TLS, if the listener made the connection.\<close>

datatype conn_kind = OtherConn | GuardedConn nat | TLSConn conn_kind

fun conn_guard :: "conn_kind \<Rightarrow> nat option" where
  "conn_guard (TLSConn (GuardedConn g)) = Some g"
| "conn_guard c = None"

record ws_conn =
  ws_limit :: nat
  ws_once :: bool

datatype ws_close_act = CancelContext | WsCloseNow

definition newWSConn :: ws_conn where
  "newWSConn = \<lparr>ws_limit = 64 * 1024, ws_once = False\<rparr>"

definition ws_Close :: "ws_conn \<Rightarrow> ws_conn \<times> ws_close_act list" where
  "ws_Close c = (c\<lparr>ws_once := True\<rparr>, if ws_once c then [] else [CancelContext, WsCloseNow])"

text \<open>Every frame the protocol writes fits the read limit, however its parts are joined; \<open>Close\<close> acts once.\<close>

lemma ws_limit_frames: "frame_ok f \<Longrightarrow> length (encode_frame f) \<le> ws_limit newWSConn"
  using frame_ok_bound [of f] by (simp add: encode_frame_def frame_header_def newWSConn_def)

lemma ws_Close_once: "snd (ws_Close (fst (ws_Close c))) = []"
  by (simp add: ws_Close_def)

end
