(* ===== verification/Transport_Serve.thy ===== *)
theory Transport_Serve
  imports Transport_Conns
begin

text \<open>
  The goroutine of \<open>Serve\<close> for one connection, and the HTTP handler of \<open>serveWS\<close>, as they run beside
  everything else: between any two of their steps the environment (other connections, timers, \<open>stop\<close>,
  the callback \<open>accept\<close>) may take any steps of the listener.
\<close>

subsection \<open>Environment\<close>

text \<open>
  \<open>env i l\<close>: the listener after the environment had its \<open>i\<close>-th chance to run, in state \<open>l\<close>. It does not
  end the handler that is running, so the wait group does not drop to 0.
\<close>

type_synonym env = "nat \<Rightarrow> listener \<Rightarrow> listener"

definition allowed :: "env \<Rightarrow> bool" where
  "allowed env \<longleftrightarrow> (\<forall>i l. lstep\<^sup>*\<^sup>* l (env i l) \<and> (0 < l_wg l \<longrightarrow> 0 < l_wg (env i l)))"

text \<open>What the environment cannot undo: guards exist and stay done.\<close>

definition settled :: "nat \<Rightarrow> listener \<Rightarrow> bool" where
  "settled g l \<longleftrightarrow> g_done (gd l g)"

lemma l_next_done: "settled g l \<Longrightarrow> settled g (fst (l_next t1 t2 t3 k l))"
  by (auto simp: settled_def l_next_def next_locked_def Let_def split: prod.splits)

lemma l_complete_done: "settled g l \<Longrightarrow> settled g (fst (l_complete t1 t2 k l))"
  by (auto simp: settled_def l_complete_def complete_locked_def split: prod.splits bool.splits)

lemma l_fail_done: "settled g l \<Longrightarrow> settled g (l_fail k l)" "settled g (l_fail g l)"
  by (auto simp: settled_def l_fail_def fail_locked_def split: prod.splits bool.splits)

lemma ng_simps [simp]: "ng (fst (l_next t1 t2 t3 k l)) = ng l" "ng (fst (l_complete t1 t2 k l)) = ng l" "ng (l_fail k l) = ng l"
  by (auto simp: l_next_def l_complete_def l_fail_def split: prod.splits bool.splits)

lemma l_wg_simps [simp]: "l_wg (fst (l_next t1 t2 t3 k l)) = l_wg l" "l_wg (l_fail k l) = l_wg l"
  by (auto simp: l_next_def l_fail_def split: prod.splits bool.splits)

lemma lstep_keeps:
  "lstep l l' \<Longrightarrow> g < ng l \<Longrightarrow> g < ng l' \<and> (settled g l \<longrightarrow> settled g l')"
proof (induction rule: lstep.induct)
  case (l_phase k l t1 t2 t3 l' ok)
  then show ?case using l_next_done [of g l t1 t2 t3 k] ng_simps(1) [of t1 t2 t3 k l] by simp
next
  case (l_auth k l t1 t2 l' ok)
  then show ?case using l_complete_done [of g l t1 t2 k] ng_simps(2) [of t1 t2 k l] by simp
qed (auto simp: l_fail_done, auto simp: settled_def accept_slot_def accept_guard_def fail_close_def on_done_delete_def
    on_done_release_def deadline_def stop_locked_def beginHandler_def l_fail_def fail_locked_def split: if_splits prod.splits bool.splits)

lemma env_keeps:
  assumes "allowed env" and "lreach l" and "g < ng l"
  shows "lreach (env i l)" and "g < ng (env i l)" and "0 < l_wg l \<Longrightarrow> 0 < l_wg (env i l)"
    and "settled g l \<Longrightarrow> settled g (env i l)"
proof -
  have s: "lstep\<^sup>*\<^sup>* l (env i l)" using assms(1) by (simp add: allowed_def)
  then show "lreach (env i l)" using assms(2) by (rule reach_steps)
  show "0 < l_wg l \<Longrightarrow> 0 < l_wg (env i l)" using assms(1) by (simp add: allowed_def)
  from s assms(3) have "g < ng (env i l) \<and> (settled g l \<longrightarrow> settled g (env i l))"
    by (induction rule: rtranclp_induct) (auto dest: lstep_keeps)
  then show "g < ng (env i l)" and "settled g l \<Longrightarrow> settled g (env i l)" by blast+
qed

subsection \<open>One connection\<close>

text \<open>\<^verbatim>\<open>guard.next\<close>; it unlocks the guard before the \<open>fail\<close> of its error path.\<close>

definition guard_next :: "(listener \<Rightarrow> listener) \<Rightarrow> instant \<Rightarrow> instant \<Rightarrow> instant \<Rightarrow> nat \<Rightarrow> listener \<Rightarrow> listener \<times> bool" where
  "guard_next between t1 t2 t3 g l =
     (case l_next t1 t2 t3 g l of
        (l1, True) \<Rightarrow> (l1, True)
      | (l1, False) \<Rightarrow> (l_fail g (between l1), False))"

definition wg_done :: "listener \<times> 'a list \<Rightarrow> listener \<times> 'a list" where
  "wg_done x = (case x of (l, as) \<Rightarrow> (l\<lparr>l_wg := l_wg l - 1\<rparr>, as))"

text \<open>
  The goroutine for a Noise connection. \<open>hse\<close>: the error of the handshake. Closing the raw, the guarded
  or the incoming connection ends in \<open>fail\<close> of its guard.
\<close>

definition serve_goroutine ::
    "env \<Rightarrow> error option \<Rightarrow> instant \<Rightarrow> instant \<Rightarrow> instant \<Rightarrow> nat \<Rightarrow> listener \<Rightarrow> listener \<times> serve_act list" where
  "serve_goroutine env hse t1 t2 t3 g l =
     wg_done
       (let l1 = env 0 (l\<lparr>l_wg := l_wg l + 1\<rparr>)
        in if hse \<noteq> None then (l_fail g l1, [CloseGuarded])
           else case guard_next (env 3) t1 t2 t3 g l1 of
                  (l2, False) \<Rightarrow> (l_fail g (env 1 l2), [CloseRaw])
                | (l2, True) \<Rightarrow>
                    (let l3 = env 1 l2
                     in if settled g l3 then (l3, [CallAccept])
                        else (l_fail g (env 2 l3), [CallAccept, CloseIn])))"

text \<open>The handler for one request; \<open>gk\<close>: the guard in its context.\<close>

definition handler_end :: "listener \<times> ws_act list \<Rightarrow> listener \<times> ws_act list" where
  "handler_end x = (case wg_done x of (l, as) \<Rightarrow> (l, SetConnClose # as @ [WgDone]))"

definition ws_request ::
    "env \<Rightarrow> string \<Rightarrow> http_request \<Rightarrow> nat option \<Rightarrow> string option \<Rightarrow> instant \<Rightarrow> instant \<Rightarrow> instant \<Rightarrow> listener
     \<Rightarrow> listener \<times> ws_act list" where
  "ws_request env path r gk upgrade t1 t2 t3 l =
     (case beginHandler l of
        (l0, False) \<Rightarrow> (l0, [HttpError 503])
      | (l0, True) \<Rightarrow> handler_end
          (if ProtoMajor r \<noteq> 1 \<or> Method r \<noteq> ''GET'' \<or> URL_Path r \<noteq> path \<or> RawQuery r \<noteq> '''' then (l0, [HttpError 404])
           else case gk of
                  None \<Rightarrow> (l0, [HttpError 503])
                | Some g \<Rightarrow>
                    (let l1 = env 0 l0
                     in case upgrade of
                          None \<Rightarrow> (l_fail g l1, [Fail])
                        | Some sub \<Rightarrow>
                            if sub \<noteq> subprotocol then (l_fail g l1, [CloseNow, Fail])
                            else (case guard_next (env 3) t1 t2 t3 g l1 of
                                    (l2, False) \<Rightarrow> (l2, [CloseNow])
                                  | (l2, True) \<Rightarrow>
                                      (let l3 = env 1 l2
                                       in if settled g l3 then (l3, [WAccept])
                                          else (l_fail g (env 2 l3), [WAccept, WCloseIn, Fail]))))))"

lemma fail_step: "lreach l \<Longrightarrow> g < ng l \<Longrightarrow> lreach (l_fail g l) \<and> settled g (l_fail g l)"
  by (blast intro: reach_step l_expire l_fail_done)

lemma guard_next_step:
  assumes env: "allowed env" and l: "lreach l" "g < ng l" and r: "guard_next (env i) t1 t2 t3 g l = (l', ok)"
  shows "lreach l'" and "g < ng l'" and "0 < l_wg l \<Longrightarrow> 0 < l_wg l'" and "\<not> ok \<Longrightarrow> settled g l'"
proof -
  obtain l1 b where n: "l_next t1 t2 t3 g l = (l1, b)" by fastforce
  have r1: "lreach l1" using l(1) l_phase [OF l(2) n] by (rule reach_step)
  have g1: "g < ng l1" "l_wg l1 = l_wg l"
    using l(2) n ng_simps(1) [of t1 t2 t3 g l] l_wg_simps(1) [of t1 t2 t3 g l] by simp_all
  note e = env_keeps [OF env r1 g1(1), of i]
  show "lreach l'" "g < ng l'" "0 < l_wg l \<Longrightarrow> 0 < l_wg l'" "\<not> ok \<Longrightarrow> settled g l'"
    using r n r1 g1 e fail_step [OF e(1,2)] by (auto simp: guard_next_def split: bool.splits)
qed

lemma wg_done_step:
  assumes "lreach l" and "wg_done (l, as) = (l', acts)" and "0 < l_wg l"
  shows "lreach l' \<and> (settled g l \<longrightarrow> settled g l') \<and> acts = as"
proof -
  have "lreach (l\<lparr>l_wg := l_wg l - 1\<rparr>)" using assms(1) l_end [OF assms(3)] by (rule reach_step)
  with assms(2) show ?thesis by (auto simp: wg_done_def settled_def)
qed

subsection \<open>No connection is left open and unauthenticated\<close>

lemma serve_goroutine_settles:
  assumes env: "allowed env" and l: "lreach l" "g < ng l"
    and r: "serve_goroutine env hse t1 t2 t3 g l = (l', acts)"
  shows "lreach l' \<and> settled g l' \<and> (\<exists>ok fin. acts = serve_conn hse ok fin)"
proof -
  let ?l0 = "l\<lparr>l_wg := l_wg l + 1\<rparr>"
  have l0: "lreach ?l0" "g < ng ?l0" "0 < l_wg ?l0" using l reach_step [OF l(1) l_go] by simp_all
  note e0 = env_keeps [OF env l0(1,2), of 0]
  note w0 = e0(3) [OF l0(3)]
  have closes: "lreach l' \<and> settled g l' \<and> acts = as"
    if "wg_done (l_fail g k, as) = (l', acts)" "lreach k" "g < ng k" "0 < l_wg k" for k as
    using wg_done_step [OF _ that(1), of g] fail_step [OF that(2,3)] that(4) by simp
  show ?thesis
  proof (cases hse)
    case (Some e)
    with r closes [OF _ e0(1,2) w0] show ?thesis by (simp add: serve_goroutine_def Let_def serve_conn_def)
  next
    case None
    obtain l2 ok where n: "guard_next (env 3) t1 t2 t3 g (env 0 ?l0) = (l2, ok)" by fastforce
    note s = guard_next_step [OF env e0(1,2) n]
    note e1 = env_keeps [OF env s(1,2), of 1]
    note w1 = e1(3) [OF s(3) [OF w0]]
    note e2 = env_keeps [OF env e1(1,2), of 2]
    have "[CloseRaw] = serve_conn None False False" "[CallAccept] = serve_conn None True True"
      "[CallAccept, CloseIn] = serve_conn None True False" by (simp_all add: serve_conn_def)
    then have a: "\<exists>ok fin. [CloseRaw] = serve_conn None ok fin" "\<exists>ok fin. [CallAccept] = serve_conn None ok fin"
      "\<exists>ok fin. [CallAccept, CloseIn] = serve_conn None ok fin" by blast+
    consider "\<not> ok" | "ok" "settled g (env 1 l2)" | "ok" "\<not> settled g (env 1 l2)" by blast
    then show ?thesis
    proof cases
      case 1
      then have "wg_done (l_fail g (env 1 l2), [CloseRaw]) = (l', acts)"
        using r None n by (simp add: serve_goroutine_def Let_def)
      from closes [OF this e1(1,2) w1] None show ?thesis by (simp add: a)
    next
      case 2
      then have "wg_done (env 1 l2, [CallAccept]) = (l', acts)"
        using r None n by (simp add: serve_goroutine_def Let_def)
      from wg_done_step [OF e1(1) this w1, of g] 2 None show ?thesis by (simp add: a)
    next
      case 3
      then have "wg_done (l_fail g (env 2 (env 1 l2)), [CallAccept, CloseIn]) = (l', acts)"
        using r None n by (simp add: serve_goroutine_def Let_def)
      from closes [OF this e2(1,2) e2(3) [OF w1]] None show ?thesis by (simp add: a)
    qed
  qed
qed

lemma handler_end_step:
  assumes "lreach l" and "handler_end (l, as) = (l', acts)" and "0 < l_wg l"
  shows "lreach l' \<and> (settled g l \<longrightarrow> settled g l') \<and> acts = SetConnClose # as @ [WgDone]"
proof -
  obtain l1 as1 where w: "wg_done (l, as) = (l1, as1)" by fastforce
  with wg_done_step [OF assms(1) w assms(3), of g] assms(2) show ?thesis by (simp add: handler_end_def)
qed

text \<open>The part of a request that has a guard.\<close>

lemma ws_request_settles:
  assumes env: "allowed env" and l: "lreach l" "g < ng l"
    and r: "ws_request env path r (Some g) upgrade t1 t2 t3 l = (l', acts)"
    and served: "HttpError 404 \<notin> set acts" "HttpError 503 \<notin> set acts"
  shows "lreach l' \<and> settled g l' \<and> (\<exists>ok fin. acts = ws_handler path True r True upgrade ok fin)"
proof -
  obtain l0 started where b: "beginHandler l = (l0, started)" by fastforce
  have r0: "lreach l0" using l(1) l_begin [OF b] by (rule reach_step)
  have st: "started" using r b served(2) by (cases started) (auto simp: ws_request_def)
  have g0: "g < ng l0" "0 < l_wg l0" using b st l(2) by (auto simp: beginHandler_def split: if_splits)
  have path: "\<not> (ProtoMajor r \<noteq> 1 \<or> Method r \<noteq> ''GET'' \<or> URL_Path r \<noteq> path \<or> RawQuery r \<noteq> [])"
  proof
    assume p: "ProtoMajor r \<noteq> 1 \<or> Method r \<noteq> ''GET'' \<or> URL_Path r \<noteq> path \<or> RawQuery r \<noteq> []"
    have "HttpError 404 \<in> set acts"
      using r st unfolding ws_request_def b prod.case if_P [OF p] by (auto simp: handler_end_def wg_done_def)
    with served(1) show False by contradiction
  qed
  note e0 = env_keeps [OF env r0 g0(1), of 0]
  note w0 = e0(3) [OF g0(2)]
  note f0 = fail_step [OF e0(1,2)]
  let ?goal = "\<lambda>acts. \<exists>ok fin. acts = ws_handler path True r True upgrade ok fin"
  show ?thesis
  proof (cases upgrade)
    case None
    have "handler_end (l_fail g (env 0 l0), [Fail]) = (l', acts)"
      using r b st path None by (simp add: ws_request_def Let_def)
    from handler_end_step [OF conjunct1 [OF f0] this, of g] w0 f0 path None show ?thesis
      by (auto simp: ws_handler_def)
  next
    case (Some sub)
    show ?thesis
    proof (cases "sub = subprotocol")
      case False
      have "handler_end (l_fail g (env 0 l0), [CloseNow, Fail]) = (l', acts)"
        using r b st path Some False by (simp add: ws_request_def Let_def)
      from handler_end_step [OF conjunct1 [OF f0] this, of g] w0 f0 path Some False show ?thesis
        by (auto simp: ws_handler_def)
    next
      case True
      obtain l2 ok where n: "guard_next (env 3) t1 t2 t3 g (env 0 l0) = (l2, ok)" by fastforce
      note s = guard_next_step [OF env e0(1,2) n]
      note e1 = env_keeps [OF env s(1,2), of 1]
      note e2 = env_keeps [OF env e1(1,2), of 2]
      have w2: "0 < l_wg l2" using w0 by (rule s(3))
      note w1 = e1(3) [OF w2] and w3 = e2(3) [OF e1(3) [OF w2]]
      consider "\<not> ok" | "ok" "settled g (env 1 l2)" | "ok" "\<not> settled g (env 1 l2)" by blast
      then show ?thesis
      proof cases
        case 1
        then have "handler_end (l2, [CloseNow]) = (l', acts)"
          using r b st path Some True n by (simp add: ws_request_def Let_def)
        from handler_end_step [OF s(1) this w2, of g] s(4) [OF 1] path Some True show ?thesis
          by (auto simp: ws_handler_def intro!: exI [of _ False])
      next
        case 2
        then have "handler_end (env 1 l2, [WAccept]) = (l', acts)"
          using r b st path Some True n by (simp add: ws_request_def Let_def)
        from handler_end_step [OF e1(1) this w1, of g] 2 path Some True show ?thesis
          by (auto simp: ws_handler_def intro!: exI [of _ True])
      next
        case 3
        then have "handler_end (l_fail g (env 2 (env 1 l2)), [WAccept, WCloseIn, Fail]) = (l', acts)"
          using r b st path Some True n by (simp add: ws_request_def Let_def)
        moreover have "0 < l_wg (l_fail g (env 2 (env 1 l2)))" using w3 by simp
        ultimately have "lreach l' \<and> settled g l'" "acts = SetConnClose # [WAccept, WCloseIn, Fail] @ [WgDone]"
          using handler_end_step [OF conjunct1 [OF fail_step [OF e2(1,2)]], of _ l' acts g] fail_step [OF e2(1,2)] by blast+
        moreover have "SetConnClose # [WAccept, WCloseIn, Fail] @ [WgDone] = ws_handler path True r True upgrade True False"
          using path Some True by (simp add: ws_handler_def)
        ultimately show ?thesis by metis
      qed
    qed
  qed
qed

text \<open>
  C31. Beside any environment, the goroutine of an accepted Noise connection and the handler of a WebSocket
  request that was not answered with an error end with the guard of the connection done: the connection
  was authenticated in time, or it is closed. The actions are those of \<open>serve_conn\<close> and \<open>ws_handler\<close>, so
  \<open>accept\<close> saw the connection only after the handshake, the upgrade and a \<open>next\<close> in time; and the
  listener stays in a reachable state.
\<close>

theorem served_connections_settle:
  assumes "allowed env" and "lreach l" and "g < ng l"
  shows "(case serve_goroutine env hse t1 t2 t3 g l of (l', acts) \<Rightarrow>
       lreach l' \<and> g_done (gd l' g) \<and> (\<exists>ok fin. acts = serve_conn hse ok fin))
    \<and> (case ws_request env path r (Some g) upgrade t1 t2 t3 l of (l', acts) \<Rightarrow>
       HttpError 404 \<in> set acts \<or> HttpError 503 \<in> set acts
       \<or> lreach l' \<and> g_done (gd l' g) \<and> (\<exists>ok fin. acts = ws_handler path True r True upgrade ok fin))"
  using serve_goroutine_settles [OF assms] ws_request_settles [OF assms] unfolding settled_def by (auto split: prod.split)

text \<open>The first connection of \<open>lrun2\<close> is authenticated by the callback after a second.\<close>

definition auth_env :: env where
  "auth_env i l = (if i = 1 \<and> 0 < ng l then fst (l_complete second second 0 l) else l)"

lemma auth_env_allowed: "allowed auth_env"
proof -
  have "lstep\<^sup>*\<^sup>* l (auth_env i l) \<and> (0 < l_wg l \<longrightarrow> 0 < l_wg (auth_env i l))" for i l
  proof (cases "i = 1 \<and> 0 < ng l")
    case True
    have "lstep l (fst (l_complete second second 0 l))"
      using True by (intro l_auth [of 0 l second second _ "snd (l_complete second second 0 l)"]) simp_all
    moreover have "l_wg (fst (l_complete second second 0 l)) = l_wg l"
      by (auto simp: l_complete_def split: prod.splits bool.splits)
    ultimately show ?thesis using True by (simp add: auth_env_def r_into_rtranclp)
  qed (auto simp: auth_env_def)
  then show ?thesis by (simp add: allowed_def)
qed

theorem served_connections_settle_witness:
  "case serve_goroutine auth_env None 0 0 0 0 lrun2 of (l', acts) \<Rightarrow> g_done (gd l' 0) \<and> acts = [CallAccept]"
proof -
  have n: "0 < ng lrun2" by (simp add: lrun_defs)
  have "snd (serve_goroutine auth_env None 0 0 0 0 lrun2) = [CallAccept]"
    by (simp add: serve_goroutine_def wg_done_def guard_next_def auth_env_def settled_def l_next_def next_locked_def lrun_defs)
  with served_connections_settle [OF auth_env_allowed lrun_reach(1) n, of None 0 0 0]
  show ?thesis by (auto split: prod.splits)
qed

end
