(* ===== verification/Relay_Codec.thy ===== *)
theory Relay_Codec
  imports Relay
begin

text \<open>
  The codec of a relay over the leases of one connection, \<^verbatim>\<open>internal/relay/relay.go\<close>: \<open>init\<close> makes it at the
  first lease, a lease without an error keeps it, \<open>Close\<close> ends it. What the library makes are arguments.
\<close>

record ('z, 'd, 's) relay =
  rl_encoder :: "'z option"
  rl_decoder :: "'d option"
  rl_writer_conn :: "'s option"
  rl_reader :: "'s frame_reader option"

text \<open>A new \<^verbatim>\<open>relay.Relay\<close>.\<close>

definition new_relay :: "('z, 'd, 's) relay" where
  "new_relay = \<lparr>rl_encoder = None, rl_decoder = None, rl_writer_conn = None, rl_reader = None\<rparr>"

definition relay_init :: "error + 'z \<Rightarrow> error + 'd \<Rightarrow> ('z, 'd, 's) relay \<Rightarrow> ('z, 'd, 's) relay \<times> error option" where
  "relay_init newWriter newReader r =
     (if rl_encoder r \<noteq> None then (r, None)
      else case newWriter of
             Inl e \<Rightarrow> (r, Some e)
           | Inr z \<Rightarrow>
               (case newReader of
                  Inl e \<Rightarrow> (r\<lparr>rl_encoder := Some z, rl_decoder := None\<rparr>, Some e)
                | Inr d \<Rightarrow> (r\<lparr>rl_encoder := Some z, rl_decoder := Some d\<rparr>, None)))"

text \<open>\<open>Close\<close>, with the decoders it closes.\<close>

definition relay_Close :: "('z, 'd, 's) relay \<Rightarrow> ('z, 'd, 's) relay \<times> 'd list" where
  "relay_Close r =
     (r\<lparr>rl_encoder := None, rl_decoder := None, rl_writer_conn := None, rl_reader := None\<rparr>,
      case rl_decoder r of None \<Rightarrow> [] | Some d \<Rightarrow> [d])"

text \<open>
  What \<open>Run\<close> does to the codec. \<open>tunnel\<close> and \<open>fr\<close> are the connection and the reader of this lease;
  \<open>reset1\<close> and \<open>reset2\<close> the errors of the two resets of the decoder. \<open>goroutines\<close>: the encoder and the
  decoder they leave, and what the first and the second of them report. The result is the relay, the
  decoders closed and the error of \<open>Run\<close>; \<open>None\<close>: a method of a decoder that is nil.
\<close>

record ('z, 'd, 's) codec_lease =
  cl_newWriter :: "error + 'z"
  cl_newReader :: "error + 'd"
  cl_tunnel :: 's
  cl_reader :: "'s frame_reader"
  cl_reset1 :: "error option"
  cl_goroutines :: "'z \<Rightarrow> 'd \<Rightarrow> 'z \<times> 'd \<times> error option \<times> error option"
  cl_reset2 :: "error option"

definition codec_run ::
    "('z, 'd, 's) codec_lease \<Rightarrow> ('z, 'd, 's) relay \<Rightarrow> (('z, 'd, 's) relay \<times> 'd list \<times> error option) option" where
  "codec_run x r =
     (case relay_init (cl_newWriter x) (cl_newReader x) r of
        (r1, Some e) \<Rightarrow> Some (r1, [], Some e)
      | (r1, None) \<Rightarrow>
          (let r2 = r1\<lparr>rl_writer_conn := Some (cl_tunnel x), rl_reader := Some (cl_reader x)\<rparr>
           in case (rl_encoder r2, rl_decoder r2) of
                (Some z, Some d) \<Rightarrow>
                  if cl_reset1 x \<noteq> None then Some (r2, [], cl_reset1 x)
                  else (case cl_goroutines x z d of
                          (z1, d1, e1, e2) \<Rightarrow>
                            (let r3 = r2\<lparr>rl_encoder := Some z1, rl_decoder := Some d1\<rparr>
                             in case run_end e1 e2 (cl_reset2 x) of
                                  (_, True, e) \<Rightarrow> (case relay_Close r3 of (r4, cl) \<Rightarrow> Some (r4, cl, e))
                                | (_, False, e) \<Rightarrow> Some (r3, [], e)))
              | _ \<Rightarrow> None))"

text \<open>
  The leases of one connection: both workers stop at the first error of \<open>Run\<close>. The result has the
  number of leases done.
\<close>

fun codec_leases ::
    "('z, 'd, 's) codec_lease list \<Rightarrow> ('z, 'd, 's) relay
     \<Rightarrow> (('z, 'd, 's) relay \<times> 'd list \<times> nat \<times> error option) option" where
  "codec_leases [] r = Some (r, [], 0, None)"
| "codec_leases (x # xs) r =
     (case codec_run x r of
        None \<Rightarrow> None
      | Some (r1, cl, Some e) \<Rightarrow> Some (r1, cl, 0, Some e)
      | Some (r1, cl, None) \<Rightarrow> map_option (\<lambda>(r2, cl2, n, e). (r2, cl @ cl2, n + 1, e)) (codec_leases xs r1))"

subsection \<open>Between leases\<close>

text \<open>The codec is there as a whole or not at all.\<close>

definition codec_whole :: "('z, 'd, 's) relay \<Rightarrow> bool" where
  "codec_whole r \<longleftrightarrow> (rl_encoder r = None \<longleftrightarrow> rl_decoder r = None)"

lemma codec_whole_new [simp]: "codec_whole new_relay"
  by (simp add: codec_whole_def new_relay_def)

lemma relay_init_again: "relay_init w d r = (r1, None) \<Longrightarrow> relay_init w' d' r1 = (r1, None)"
  by (auto simp: relay_init_def split: if_splits sum.splits)

lemma relay_Close_again: "relay_Close (fst (relay_Close r)) = (fst (relay_Close r), [])"
  by (simp add: relay_Close_def)

text \<open>After \<open>Close\<close> the next lease makes a new codec.\<close>

lemma relay_Close_init:
  "relay_init (Inr z) (Inr d) (fst (relay_Close r)) =
     (r\<lparr>rl_encoder := Some z, rl_decoder := Some d, rl_writer_conn := None, rl_reader := None\<rparr>, None)"
  by (simp add: relay_init_def relay_Close_def)

lemma codec_run_whole:
  assumes "codec_whole r"
  obtains r1 cl e where "codec_run x r = Some (r1, cl, e)" "e = None \<longrightarrow> codec_whole r1 \<and> rl_decoder r1 \<noteq> None \<and> cl = []"
    "length cl \<le> 1"
proof (cases "relay_init (cl_newWriter x) (cl_newReader x) r")
  case (Pair r1 e)
  show ?thesis
  proof (cases e)
    case (Some y)
    with Pair that show ?thesis by (simp add: codec_run_def)
  next
    case None
    with Pair assms have "rl_encoder r1 \<noteq> None" "rl_decoder r1 \<noteq> None"
      by (auto simp: relay_init_def codec_whole_def split: if_splits sum.splits)
    then obtain z d where zd: "rl_encoder r1 = Some z" "rl_decoder r1 = Some d" by blast
    obtain z1 d1 e1 e2 where g: "cl_goroutines x z d = (z1, d1, e1, e2)" by (metis prod.collapse)
    show ?thesis
      using Pair None zd g that
      by (cases "cl_reset1 x"; cases e1; cases e2) (simp_all add: codec_run_def Let_def run_end_def codec_whole_def relay_Close_def)
  qed
qed

lemma codec_leases_safe:
  assumes "codec_whole r"
  shows "\<exists>r' cl n e. codec_leases xs r = Some (r', cl, n, e)"
  using assms
proof (induction xs r rule: codec_leases.induct)
  case (2 x xs r)
  obtain r1 cl e where c: "codec_run x r = Some (r1, cl, e)" "e = None \<longrightarrow> codec_whole r1"
    using codec_run_whole [OF 2(2)] by metis
  show ?case
  proof (cases e)
    case None
    with 2(1) [OF c(1)] c show ?thesis by force
  qed (use c in simp)
qed simp

subsection \<open>A connection\<close>

text \<open>The worker closes the relay when the connection ends, whatever ended it.\<close>

definition codec_connection ::
    "('z, 'd, 's) codec_lease list \<Rightarrow> (('z, 'd, 's) relay \<times> 'd list \<times> nat \<times> error option) option" where
  "codec_connection xs =
     map_option (\<lambda>(r, cl, n, e). case relay_Close r of (r1, cl1) \<Rightarrow> (r1, cl @ cl1, n, e)) (codec_leases xs new_relay)"

text \<open>Decoders that are open or closed.\<close>

definition decoders :: "('z, 'd, 's) relay \<Rightarrow> 'd list \<Rightarrow> nat" where
  "decoders r cl = length cl + (if rl_decoder r = None then 0 else 1)"

lemma codec_run_decoders:
  assumes "codec_run x r = Some (r1, cl, e)" and "rl_encoder r \<noteq> None" and "rl_decoder r \<noteq> None"
  shows "decoders r1 cl = 1" and "e = None \<Longrightarrow> rl_encoder r1 \<noteq> None \<and> rl_decoder r1 \<noteq> None \<and> cl = []"
proof -
  obtain z d where zd: "rl_encoder r = Some z" "rl_decoder r = Some d" using assms(2,3) by blast
  obtain z1 d1 e1 e2 where g: "cl_goroutines x z d = (z1, d1, e1, e2)" by (metis prod.collapse)
  show "decoders r1 cl = 1" "e = None \<Longrightarrow> rl_encoder r1 \<noteq> None \<and> rl_decoder r1 \<noteq> None \<and> cl = []"
    using assms(1) zd g by (cases "cl_reset1 x"; cases e1; cases e2;
      force simp: codec_run_def relay_init_def Let_def run_end_def relay_Close_def decoders_def)+
qed

lemma codec_leases_decoders:
  assumes "codec_leases xs r = Some (r1, cl, n, e)" and "rl_encoder r \<noteq> None" and "rl_decoder r \<noteq> None"
  shows "decoders r1 cl = 1"
  using assms
proof (induction xs r arbitrary: r1 cl n e rule: codec_leases.induct)
  case (2 x xs r)
  obtain r2 cl2 e2 where c: "codec_run x r = Some (r2, cl2, e2)"
    using 2(2) by (auto split: option.splits)
  note d = codec_run_decoders [OF c 2(3,4)]
  show ?case
  proof (cases e2)
    case None
    with d(2) 2(1) [OF c refl refl None] 2(2) c show ?thesis by (auto split: option.splits)
  qed (use 2(2) c d(1) in simp)
qed (simp add: decoders_def)

text \<open>
  Whatever the library and the leases answer, no lease of a connection uses a decoder that is nil, and
  a connection makes one decoder at most, at its first lease, and closes it once.
\<close>

lemma codec_closed_once:
  "\<exists>r cl n e. codec_connection xs = Some (r, cl, n, e) \<and> rl_encoder r = None \<and> rl_decoder r = None
     \<and> length cl = (case xs of [] \<Rightarrow> 0 | x # _ \<Rightarrow> (case (cl_newWriter x, cl_newReader x) of (Inr _, Inr _) \<Rightarrow> 1 | _ \<Rightarrow> 0))"
proof -
  obtain r cl n e where l: "codec_leases xs new_relay = Some (r, cl, n, e)"
    using codec_leases_safe [OF codec_whole_new] by blast
  have closed: "length (cl @ snd (relay_Close r)) = decoders r cl"
    by (simp add: relay_Close_def decoders_def split: option.split)
  have "decoders r cl = (case xs of [] \<Rightarrow> 0 | x # _ \<Rightarrow> (case (cl_newWriter x, cl_newReader x) of (Inr _, Inr _) \<Rightarrow> 1 | _ \<Rightarrow> 0))"
  proof (cases xs)
    case Nil
    with l show ?thesis by (auto simp: decoders_def new_relay_def)
  next
    case (Cons x ys)
    show ?thesis
    proof (cases "\<exists>z d. cl_newWriter x = Inr z \<and> cl_newReader x = Inr d")
      case True
      then obtain z d where zd: "cl_newWriter x = Inr z" "cl_newReader x = Inr d" by blast
      let ?r = "new_relay\<lparr>rl_encoder := Some z, rl_decoder := Some d\<rparr>"
      have "codec_run x new_relay = codec_run x ?r"
        using zd by (simp add: codec_run_def relay_init_def new_relay_def)
      then have "codec_leases xs ?r = Some (r, cl, n, e)" using l Cons by simp
      with codec_leases_decoders [OF this] zd Cons show ?thesis by simp
    next
      case False
      with l Cons show ?thesis
        by (auto simp: codec_run_def relay_init_def new_relay_def decoders_def split: sum.splits)
    qed
  qed
  with l closed show ?thesis by (auto simp: codec_connection_def relay_Close_def)
qed

lemma codec_run_reuse:
  assumes "rl_encoder r = Some z" and "rl_decoder r = Some d"
  shows "codec_run (x\<lparr>cl_newWriter := w, cl_newReader := w'\<rparr>) r = codec_run x r"
  using assms by (cases "cl_reset1 x") (simp_all add: codec_run_def relay_init_def Let_def split_def)

end
