(* ===== verification/Spec2Isabelle.thy ===== *)
theory Spec2Isabelle
  imports Protocol Pool_Props Pool_System Pool_Live Config_Props Noise_Props Transport Relay_Props Metrics_Props
    Client_Props Worker_Props Worker_Trace Session_Run Lifecycle Smoke_Server Smoke_Metrics Smoke_Clients
    Smoke_Run Smoke_Verdict Client_Run Transport_Conns Transport_Serve
    Relay_Codec
begin

text \<open>
  A verification library for \<^verbatim>\<open>zstd-tunnel\<close> (the program \<^verbatim>\<open>compress-proxy\<close>). A server listens on public
  ports and a client behind a firewall keeps tunnel connections to it open. A visitor of a public
  port is leased one idle tunnel connection; its bytes travel compressed in DATA frames to the
  client, which relays them to the local service. After the lease both sides pass a release barrier
  and the connection is reused.

  \<^bold>\<open>Parts and theories\<close> (sources under \<^verbatim>\<open>src/\<close>)

  \<^item> \<open>Prelude\<close>: machine types, Go's error values and \<^verbatim>\<open>errors.Is\<close>, durations and instants, big-endian
    integers, and \<open>inv_system\<close>, the locale of a transition system with an inductive invariant.
    \<open>Net_IO\<close>: the interfaces \<^verbatim>\<open>io.Reader\<close> and \<^verbatim>\<open>io.Writer\<close> as the locales \<open>byte_reader\<close>, \<open>io_writer\<close>,
    \<open>byte_sink\<close> and \<open>sender\<close>, the loops over them, and a network connection as their first instance.
  \<^item> \<open>Protocol\<close>, for \<^verbatim>\<open>internal/protocol/frame.go\<close>: \<open>valid\<close>, \<open>read_frame\<close>, \<open>write_frame\<close>; the locale
    \<open>prefix_codec\<close> of self-delimiting formats, with frames and (in \<open>Noise\<close>) packets as instances.
  \<^item> \<open>Pool\<close>, for \<^verbatim>\<open>internal/pool/pool.go\<close>: one function per critical section of a method. \<open>Pool_Inv\<close> has
    the data invariant, \<open>Pool_Spec\<close> an abstract pool and the simulation, \<open>Pool_Props\<close> the properties of
    the methods, \<open>Pool_System\<close> the pool under any interleaving of workers, visitors and shutdown, \<open>Pool_Live\<close> what
    a goroutine in \<open>Next\<close> gets along every fair run.
  \<^item> \<open>Config\<close> and \<open>Config_Props\<close>, for \<^verbatim>\<open>internal/config/config.go\<close>.
  \<^item> \<open>Noise\<close> and \<open>Noise_Props\<close>, for \<^verbatim>\<open>internal/transport/noise.go\<close>: handshake and packet layer; the
    plaintext side is again a \<open>byte_reader\<close> and a \<open>sender\<close>. \<open>Transport\<close>, for \<^verbatim>\<open>transport.go\<close> and
    \<^verbatim>\<open>websocket.go\<close>: guards, the listener with its slots under any interleaving, dialling, serving;
    \<open>Transport_Conns\<close>: accepting as a loop, the methods of guarded and WebSocket connections;
    \<open>Transport_Serve\<close>: the goroutines of \<open>Serve\<close> and \<open>serveWS\<close> for one connection, each step of which may be
    followed by any steps of the rest of the listener (\<open>allowed\<close>).
  \<^item> \<open>Relay\<close>, \<open>Relay_Fin\<close>, \<open>Relay_Props\<close>, for \<^verbatim>\<open>internal/relay/relay.go\<close>: the two goroutines of \<open>Run\<close>.
    \<open>Relay_Codec\<close>: making, keeping and closing the codec over the leases of a connection.
  \<^item> \<open>Metrics\<close> and \<open>Metrics_Props\<close>, for \<^verbatim>\<open>internal/metrics/metrics.go\<close>.
  \<^item> \<open>Server_Worker\<close>, for \<^verbatim>\<open>internal/server/worker.go\<close>, and \<open>Client_Worker\<close>, for
    \<^verbatim>\<open>internal/client/worker.go\<close>: handlers over any connection, and the client runtime.
    \<open>Client_System\<close> and \<open>Client_Props\<close>: the client's controllers and connections under any
    interleaving. \<open>Worker_Props\<close>: registration and timings. \<open>Worker_Trace\<close>: the goroutines of both
    sides follow the life cycles that \<open>Pool_System\<close> and \<open>Client_System\<close> give them. \<open>Client_Run\<close>: a
    connection of the client as a whole, from its slot to the end.
  \<^item> \<open>Session\<close>: a whole lease at both ends, through \<open>lease\<close> of server and client and the relay.
    \<open>Session_Run\<close>: a whole connection, from HELLO through any heartbeats and leases to CLOSE.
  \<^item> \<open>Lifecycle\<close>, for \<^verbatim>\<open>internal/server/server.go\<close>, \<^verbatim>\<open>internal/client/client.go\<close> and
    \<^verbatim>\<open>cmd/compress-proxy/main.go\<close>: start, accept loops, shutdown, exit codes.
  \<^item> The smoke test under \<^verbatim>\<open>internal/cmd/smoke\<close>. \<open>Smoke\<close>: the collector of log lines, the waits and
    counts over the log, and the reuse check; \<open>Smoke_Server\<close>: the log lines of the server's worker,
    against that check. \<open>Smoke_Clients\<close>: the local services and visitors, and a visit through the
    tunnel. \<open>Smoke_Metrics\<close>: the parser of scrapes, lookups, and the check of refused requests.
    \<open>Smoke_Script\<close>: scripts, sequential programs over a scene in a world that answers every operation as
    it likes; \<open>Smoke_Scene\<close> and \<open>Smoke_Scenarios\<close>: \<^verbatim>\<open>scene.go\<close>, \<^verbatim>\<open>scenarios.go\<close> and \<^verbatim>\<open>main.go\<close> as scripts;
    \<open>Smoke_Leaks\<close> and \<open>Smoke_Run\<close>: Hoare triples for what is still running, and that nothing is in the
    end; \<open>Smoke_Verdict\<close>: the PASS lines and the exit code.

  \<^bold>\<open>How state and operations correspond\<close>

  A Go struct is a record with the fields of the code; objects that are shared by pointer (workers,
  waiters, slots, guards) are numbers into a heap that is part of the state. What a method does
  under its mutex is one function, so that steps interleave exactly where the code unlocks; what it
  does after unlocking is returned as a list of effects, or is a step of its own. Every reading of the
  clock and every random number is an argument. An error is a value of \<open>error\<close>; a fallible
  operation returns a sum or an option error next to its state. Network deadlines show as the error
  of the operation they end. Logging is left out, and the texts of errors leave out some of their
  formatted arguments.

  \<^bold>\<open>What the lemma groups show\<close>

  \<^item> Data: frames and packets are read as they were written whatever the segmentation, nothing else is
    accepted, and forged packets are never delivered; a lease carries each side's bytes to the other,
    reports success only after FIN, and leaves the tunnel ready for the next one.
  \<^item> Concurrency: no visitor is lost or served twice, no wakeup is lost, the idle list and the queue are
    as specified, the client's counters are exact and bounded, unauthenticated connections are bounded;
    each by an invariant over all interleavings, wakeups also
    along every fair run.
  \<^item> Control: who is registered, which timings are accepted, reconnect backoff, shutdown of pool,
    listener, server and client, and the accounting in the metrics.

  \<^bold>\<open>Loops and termination\<close>

  Loops over data are recursive functions with a proved measure. \<^verbatim>\<open>io.ReadFull\<close> and the goroutines of
  the relay are \<open>partial_function (option)\<close>, where \<open>None\<close> is "does not return"; \<open>read_full_returns\<close> and
  \<open>up_loop_returns\<close> show that they do return on readers that make progress, and \<open>down_stream\<close> that the
  receiving goroutine returns on a complete lease. The service loops (\<open>work_loop\<close>,
  \<open>serve_loop_client\<close>, \<open>accept_loop\<close>, \<open>serve_loop\<close>) run over the list of what each turn meets, of any
  length; \<open>None\<close> means still running when the list is used up. The one loop of the smoke test that
  depends on the clock (\<open>maxLifetime\<close>) makes as many turns as the world says. No fuel is used elsewhere.

  \<^bold>\<open>Parameters\<close>

  The zstd codec, the Noise library, the TOML and JSON codecs, SHA-256, base64, X.509, the HTTP and
  WebSocket libraries, and the Prometheus client are arguments. What a theorem needs of one is a named
  hypothesis (\<open>codec_ok\<close>: decoding undoes encoding; \<open>refuses\<close>: a decoder does not turn a read error
  into success; \<open>aead\<close>: decryption opens what was encrypted in
  sequence; that it opens nothing else is a hypothesis of its own where it is used), and each is shown to
  hold for a concrete instance.

  \<^bold>\<open>Not modelled\<close>

  In the smoke test, processes, files, sockets, keys and certificates are operations that a world answers.
  The panic on a process that is nil is an ordinary error there.
  The options of TLS, HTTP and zstd in \<^verbatim>\<open>websocket.go\<close>, \<^verbatim>\<open>metrics.go\<close> and \<^verbatim>\<open>relay.go\<close> are arguments of libraries. Log output, help texts of metrics and the memory
  reuse of buffers are left out.
\<close>

end
